(* ===== verification/Gu_Prelude.thy ===== *)
theory Gu_Prelude
  imports Main "HOL-Library.Word"
begin

text \<open>
  Shared vocabulary of the libgunwinder development: the machine types, the result type of
  fallible C code with its undefined-behaviour cases, the collections the component proofs
  extend, and generic lemmas on lists and words.

  \<^item> \<open>u8\<close>, \<open>u16\<close>, \<open>u32\<close>, \<open>u64\<close> are the fixed-width unsigned types; \<open>unsigned long\<close>,
    \<open>size_t\<close>, \<open>uintptr_t\<close> and the libdw types \<open>Dwarf_Word\<close>, \<open>Dwarf_Addr\<close> and \<open>Dwarf_Off\<close>
    are \<open>u64\<close> on both supported platforms (x86_64 and aarch64, both little-endian).
  \<^item> \<open>'a cres\<close> is the outcome of a C function that may fail: \<open>Ok\<close> a result, \<open>Fail\<close> the
    error return (a negative value, false or NULL), \<open>Undef\<close> an execution whose behaviour
    ISO C leaves undefined, tagged with the reason.
\<close>

unbundle bit_operations_syntax

type_synonym u8 = "8 word"
type_synonym u16 = "16 word"
type_synonym u32 = "32 word"
type_synonym u64 = "64 word"
type_synonym bytes = "8 word list"

abbreviation UINT32_MAX :: u64 where
  "UINT32_MAX \<equiv> 0xffffffff"

abbreviation UINT64_MAX :: u64 where
  "UINT64_MAX \<equiv> 0xffffffffffffffff"

subsection \<open>Outcomes of C code\<close>

datatype undef_kind =
    OutOfBounds
  | ShiftTooFar
  | SignedOverflow
  | WildPointer
  | NullDeref
  | Uninitialised
  | StackExhausted
  | UseAfterFree
  | DivByZero
  | Diverges

datatype 'a cres = Ok 'a | Fail | Undef undef_kind

primrec cbind :: "'a cres \<Rightarrow> ('a \<Rightarrow> 'b cres) \<Rightarrow> 'b cres" where
  "cbind (Ok x) f = f x"
| "cbind Fail f = Fail"
| "cbind (Undef k) f = Undef k"

primrec is_undef :: "'a cres \<Rightarrow> bool" where
  "is_undef (Ok x) = False"
| "is_undef Fail = False"
| "is_undef (Undef k) = True"

named_theorems cres_simps \<open>inversion of outcomes\<close>
named_theorems decode_simps \<open>characterisations of the bounded decoders\<close>
named_theorems cache_simps \<open>effects of the cache operations\<close>

lemma cbind_eq_Ok [cres_simps]: "cbind m f = Ok y \<longleftrightarrow> (\<exists>x. m = Ok x \<and> f x = Ok y)"
  by (cases m) auto

lemma cbind_OkE: "cbind m f = Ok y \<Longrightarrow> (\<And>x. m = Ok x \<Longrightarrow> f x = Ok y \<Longrightarrow> P) \<Longrightarrow> P"
  by (cases m) auto

lemma cbind_eq_Undef [cres_simps]:
  "cbind m f = Undef k \<longleftrightarrow> m = Undef k \<or> (\<exists>x. m = Ok x \<and> f x = Undef k)"
  by (cases m) auto

lemma is_undef_cbind [cres_simps]:
  "is_undef (cbind m f) \<longleftrightarrow> is_undef m \<or> (\<exists>x. m = Ok x \<and> is_undef (f x))"
  by (cases m) auto

lemma cbind_cong [fundef_cong]:
  "m = m' \<Longrightarrow> (\<And>x. m' = Ok x \<Longrightarrow> f x = g x) \<Longrightarrow> cbind m f = cbind m' g"
  by (cases m') auto

lemma cbind_assoc: "cbind (cbind m f) g = cbind m (\<lambda>x. cbind (f x) g)"
  by (cases m) auto

lemma not_is_undefD: "\<not> is_undef m \<Longrightarrow> m \<noteq> Undef k"
  by auto

subsection \<open>Casts\<close>

text \<open>\<open>(int)x\<close> of a 64-bit value keeps the low 32 bits and reads them as two's complement.\<close>

definition to_int :: "u64 \<Rightarrow> int" where
  "to_int w = sint (ucast w :: u32)"

text \<open>A signed integer stored in a \<open>uint64_t\<close>.\<close>

definition from_int :: "int \<Rightarrow> u64" where
  "from_int i = word_of_int i"

lemma to_int_small:
  assumes "w < 0x80000000"
  shows "to_int w = uint w"
proof -
  have "uint w < 2 ^ 31" using assms by (simp add: word_less_def)
  moreover have "- (2 ^ 31) \<le> uint w" by (rule order_trans [OF _ uint_ge_0]) simp
  ultimately have "signed_take_bit 31 (uint w) = uint w"
    by (intro signed_take_bit_int_eq_self) simp_all
  then show ?thesis unfolding to_int_def by transfer simp
qed

lemma u64_below_max:
  fixes w :: u64
  assumes "w \<noteq> UINT64_MAX"
  shows "w \<le> UINT64_MAX - 1"
proof -
  have "uint w < 18446744073709551616" using uint_lt2p [of w] by simp
  then show ?thesis using assms by (simp add: word_le_def word_uint_eq_iff)
qed

lemma unat_u64: "unat (w :: u64) < 2 ^ 64"
  using unsigned_less [of w, where ?'a = nat] by simp

subsection \<open>Little-endian memory\<close>

fun le_word :: "bytes \<Rightarrow> u64" where
  "le_word [] = 0"
| "le_word (b # bs) = (ucast b OR push_bit 8 (le_word bs))"

fun le_bytes :: "nat \<Rightarrow> u64 \<Rightarrow> bytes" where
  "le_bytes 0 w = []"
| "le_bytes (Suc n) w = ucast w # le_bytes n (drop_bit 8 w)"

lemma length_le_bytes [simp]: "length (le_bytes n w) = n"
  by (induction n arbitrary: w) auto

lemma le_word_le_bytes: "le_word (le_bytes n w) = take_bit (8 * n) w"
proof (induction n arbitrary: w)
  case 0
  show ?case by simp
next
  case (Suc n)
  show ?case
    by (simp add: Suc.IH) (rule bit_word_eqI, auto simp: bit_simps)
qed

lemma le_word_le_bytes_8 [simp]: "le_word (le_bytes 8 w) = w"
  by (simp add: le_word_le_bytes take_bit_word_eq_self)

subsection \<open>Memo tables\<close>

text \<open>
  The contract of a table that remembers results: storing keeps the invariant, and a later load
  finds the value just stored or what was there before. A table that agrees with a function keeps
  agreeing with it when results of the function are stored.
\<close>

locale memo =
  fixes load :: "'c \<Rightarrow> 'k \<Rightarrow> 'v option"
    and store :: "'c \<Rightarrow> 'k \<Rightarrow> 'v \<Rightarrow> 'c"
    and inv :: "'c \<Rightarrow> bool"
  assumes store_inv: "inv c \<Longrightarrow> inv (store c k v)"
    and load_store: "inv c \<Longrightarrow> load (store c k v) k' = Some w \<Longrightarrow> (k' = k \<and> w = v) \<or> load c k' = Some w"
begin

lemma agree_store:
  assumes "inv c" "\<And>k w. load c k = Some w \<Longrightarrow> f k = Some w" "f k = Some v"
  shows "load (store c k v) k' = Some w \<Longrightarrow> f k' = Some w"
  using assms load_store by metis

lemma agree_get:
  assumes "\<And>k w. load c k = Some w \<Longrightarrow> f k = Some w" "f k = Some v"
  shows "(case load c k of Some w \<Rightarrow> w | None \<Rightarrow> v) = v"
  using assms by (auto split: option.split)

end

end
