(* ===== verification/Pid_Events.thy ===== *)
theory Pid_Events
  imports Gu_Prelude
begin

text \<open>
  Process-context lifecycle events, \<open>src/gu_pid_ctx_event.c\<close>. The listener table is a list of
  slots; a slot holds the callback and its context, both of types the caller chooses. Notifying
  yields the calls made, in order. The mutex makes each operation on the table atomic.

  C strings are \<open>string\<close>s without the terminating NUL; a \<open>char\<close> array is a list of its length.
\<close>

definition NUL :: char where "NUL = CHR 0x00"

text \<open>\<open>strncpy\<close> into an array of \<open>n\<close> characters, and the C string an array holds.\<close>

definition strncpy :: "nat \<Rightarrow> string \<Rightarrow> string" where
  "strncpy n s = take n (s @ replicate n NUL)"

definition c_string :: "string \<Rightarrow> string" where
  "c_string arr = takeWhile (\<lambda>c. c \<noteq> NUL) arr"

abbreviation (input) TASK_COMM_LEN :: nat where "TASK_COMM_LEN \<equiv> 16"
abbreviation (input) GU_PID_CTX_EVENT_LISTENER_MAX :: nat where "GU_PID_CTX_EVENT_LISTENER_MAX \<equiv> 16"

datatype gu_pid_ctx_event_type = GU_PID_CTX_EVENT_CREATE | GU_PID_CTX_EVENT_DESTROY

record gu_pid_ctx_event =
  event_pid :: int
  event_type :: gu_pid_ctx_event_type
  event_start_time :: u64
  event_comm :: string

type_synonym ('cb, 'x) listeners = "('cb \<times> 'x) option list"

definition no_listeners :: "('cb, 'x) listeners" where
  "no_listeners = replicate GU_PID_CTX_EVENT_LISTENER_MAX None"

fun first_free :: "'a option list \<Rightarrow> nat" where
  "first_free [] = 0"
| "first_free (None # xs) = 0"
| "first_free (Some _ # xs) = Suc (first_free xs)"

definition gu_register_pid_ctx_event_listener ::
  "'cb option \<Rightarrow> 'x \<Rightarrow> ('cb, 'x) listeners \<Rightarrow> ('cb, 'x) listeners cres" where
  "gu_register_pid_ctx_event_listener callback cb_ctx ls =
     (case callback of
        None \<Rightarrow> Fail
      | Some cb \<Rightarrow>
          let i = first_free ls in
          if GU_PID_CTX_EVENT_LISTENER_MAX \<le> i then Fail else Ok (ls[i := Some (cb, cb_ctx)]))"

definition pid_ctx_event_notify ::
  "gu_pid_ctx_event \<Rightarrow> ('cb, 'x) listeners \<Rightarrow> ('cb \<times> gu_pid_ctx_event \<times> 'x) list" where
  "pid_ctx_event_notify event ls = [(cb, event, x). Some (cb, x) \<leftarrow> ls]"

definition gu_pid_ctx_event_notify_pid_ctx ::
  "int \<Rightarrow> u64 \<Rightarrow> string option \<Rightarrow> gu_pid_ctx_event_type \<Rightarrow> ('cb, 'x) listeners \<Rightarrow>
     ('cb \<times> gu_pid_ctx_event \<times> 'x) list" where
  "gu_pid_ctx_event_notify_pid_ctx pid start_time comm type ls =
     (let arr = (case comm of
                   None \<Rightarrow> replicate TASK_COMM_LEN NUL
                 | Some s \<Rightarrow> if s = [] then replicate TASK_COMM_LEN NUL
                            else (strncpy TASK_COMM_LEN s)[TASK_COMM_LEN - 1 := NUL]) in
      pid_ctx_event_notify
        \<lparr>event_pid = pid, event_type = type, event_start_time = start_time, event_comm = arr\<rparr> ls)"

subsection \<open>Registration\<close>

fun register_all :: "('cb, 'x) listeners \<Rightarrow> ('cb \<times> 'x) list \<Rightarrow> ('cb, 'x) listeners" where
  "register_all ls [] = ls"
| "register_all ls ((cb, x) # rest) =
     register_all (case gu_register_pid_ctx_event_listener (Some cb) x ls of Ok ls' \<Rightarrow> ls' | _ \<Rightarrow> ls) rest"

lemma first_free_prefix: "first_free (map Some xs @ replicate k None) = length xs"
  by (induction xs) (cases k; simp)+

lemma register_prefix:
  assumes "length xs + k = 16"
  shows "gu_register_pid_ctx_event_listener (Some cb) x (map Some xs @ replicate k None) =
    (if k = 0 then Fail else Ok (map Some (xs @ [(cb, x)]) @ replicate (k - 1) None))"
  using assms first_free_prefix [of xs k]
  by (cases k) (auto simp: gu_register_pid_ctx_event_listener_def Let_def list_update_append)

lemma register_all_prefix:
  "length xs + k = 16 \<Longrightarrow>
     register_all (map Some xs @ replicate k None) ls =
       map Some (xs @ take k ls) @ replicate (k - length ls) None"
proof (induction ls arbitrary: xs k)
  case Nil
  show ?case by simp
next
  case (Cons l ls)
  obtain cb x where l: "l = (cb, x)" by (cases l)
  show ?case
  proof (cases k)
    case 0
    then show ?thesis using Cons.IH [of xs 0] Cons.prems register_prefix [of xs 0 cb x] l by simp
  next
    case (Suc j)
    then show ?thesis
      using Cons.IH [of "xs @ [(cb, x)]" j] Cons.prems register_prefix [of xs "Suc j" cb x] l by simp
  qed
qed

lemma notify_prefix:
  "pid_ctx_event_notify ev (map Some xs @ replicate k None) = map (\<lambda>(cb, x). (cb, ev, x)) xs"
proof -
  have n: "concat (map (\<lambda>y. case y of None \<Rightarrow> [] | Some (cb, x) \<Rightarrow> [(cb, ev, x)]) (replicate k None)) = []"
    by (induction k) simp_all
  have "concat (map (\<lambda>y. case y of None \<Rightarrow> [] | Some (cb, x) \<Rightarrow> [(cb, ev, x)]) (map Some xs)) =
      map (\<lambda>(cb, x). (cb, ev, x)) xs"
    by (induction xs) (auto split: prod.split)
  then show ?thesis using n by (simp add: pid_ctx_event_notify_def)
qed

text \<open>
  Every registered listener is called exactly once per event, in the order of registration,
  with the context it registered; the table holds the first sixteen and refuses the rest. The
  process name reaches them truncated to fifteen characters.
\<close>

lemma listeners_notified:
  "gu_pid_ctx_event_notify_pid_ctx pid t (Some comm) type (register_all no_listeners ls) =
     map (\<lambda>(cb, x). (cb, \<lparr>event_pid = pid, event_type = type, event_start_time = t,
       event_comm = take 15 (comm @ replicate 15 NUL) @ [NUL]\<rparr>, x)) (take 16 ls)"
proof -
  have reg: "register_all no_listeners ls = map Some (take 16 ls) @ replicate (16 - length ls) None"
    using register_all_prefix [of "[]" 16 ls] by (simp add: no_listeners_def)
  have arr: "(strncpy 16 comm)[15 := NUL] = take 15 (comm @ replicate 15 NUL) @ [NUL]"
  proof (rule nth_equalityI)
    show "length ((strncpy 16 comm)[15 := NUL]) = length (take 15 (comm @ replicate 15 NUL) @ [NUL])"
      by (simp add: strncpy_def)
    fix i
    assume "i < length ((strncpy 16 comm)[15 := NUL])"
    then show "(strncpy 16 comm)[15 := NUL] ! i = (take 15 (comm @ replicate 15 NUL) @ [NUL]) ! i"
      by (auto simp: strncpy_def nth_append nth_list_update)
  qed
  have nul: "replicate 16 NUL = take 15 (replicate 15 NUL) @ [NUL]" by (simp add: replicate_append_same [symmetric] numeral_eq_Suc)
  show ?thesis
    by (cases "comm = []")
       (use nul in \<open>simp_all add: gu_pid_ctx_event_notify_pid_ctx_def Let_def reg notify_prefix arr\<close>)
qed

end
