(* ===== verification/Gu_Comm.thy ===== *)
theory Gu_Comm
  imports Pid_Events
begin

text \<open>
  The helpers of \<open>src/gu_comm.c\<close>: logging, path joining, the reader of
  \<open>/proc/<pid>/maps\<close>, process names, file copies, and the digest used as a fallback build-id.

  \<^item> Files are the sequence of results their reads deliver: \<open>fgets\<close> lines, or \<open>read\<close> chunks.
  \<^item> \<open>sscanf\<close> is modelled for the directives the code uses, as ISO C defines them.
  \<^item> Allocation outcomes are arguments.
\<close>

unbundle bit_operations_syntax

subsection \<open>Scanning text\<close>

definition isspace :: "char \<Rightarrow> bool" where
  "isspace c \<longleftrightarrow> c \<in> set [CHR '' '', CHR 0x09, CHR 0x0a, CHR 0x0b, CHR 0x0c, CHR 0x0d]"

definition skip_space :: "string \<Rightarrow> string" where
  "skip_space s = dropWhile isspace s"

definition hex_digit :: "char \<Rightarrow> nat option" where
  "hex_digit c =
     (let n = of_char c :: nat in
      if 48 \<le> n \<and> n \<le> 57 then Some (n - 48)
      else if 97 \<le> n \<and> n \<le> 102 then Some (n - 87)
      else if 65 \<le> n \<and> n \<le> 70 then Some (n - 55)
      else None)"

fun scan_digits :: "nat \<Rightarrow> string \<Rightarrow> nat \<times> string" where
  "scan_digits acc [] = (acc, [])"
| "scan_digits acc (c # s) =
     (case hex_digit c of None \<Rightarrow> (acc, c # s) | Some d \<Rightarrow> scan_digits (16 * acc + d) s)"

text \<open>\<open>%lx\<close>: blanks, an optional sign, an optional \<open>0x\<close>, digits; out-of-range values saturate.\<close>

definition clamp_u64 :: "nat \<Rightarrow> u64" where
  "clamp_u64 n = (if n < 2 ^ 64 then of_nat n else UINT64_MAX)"

definition scan_sign :: "string \<Rightarrow> bool \<times> string" where
  "scan_sign s =
     (case s of
        c # s' \<Rightarrow> if c = CHR ''-'' then (True, s') else if c = CHR ''+'' then (False, s') else (False, s)
      | [] \<Rightarrow> (False, s))"

definition skip_0x :: "string \<Rightarrow> string" where
  "skip_0x s =
     (case s of
        c # x # s' \<Rightarrow> if c = CHR ''0'' \<and> (x = CHR ''x'' \<or> x = CHR ''X'') then s' else s
      | _ \<Rightarrow> s)"

definition scan_lx :: "string \<Rightarrow> (u64 \<times> string) option" where
  "scan_lx s =
     (case scan_sign (skip_space s) of (neg, s1) \<Rightarrow>
      let s2 = skip_0x s1 in
      case s2 of
        [] \<Rightarrow> None
      | c # _ \<Rightarrow>
          if hex_digit c = None then None
          else (case scan_digits 0 s2 of (n, rest) \<Rightarrow>
            Some (if neg then - clamp_u64 n else clamp_u64 n, rest)))"

text \<open>\<open>%ns\<close>: blanks, then between one and \<open>n\<close> other characters.\<close>

definition scan_s :: "nat \<Rightarrow> string \<Rightarrow> (string \<times> string) option" where
  "scan_s n s =
     (let s1 = skip_space s; w = take n (takeWhile (\<lambda>c. \<not> isspace c) s1) in
      if w = [] then None else Some (w, drop (length w) s1))"

definition scan_word :: "string \<Rightarrow> (string \<times> string) option" where
  "scan_word s = scan_s (length s) s"

definition scan_char :: "char \<Rightarrow> string \<Rightarrow> string option" where
  "scan_char c s = (case s of [] \<Rightarrow> None | d # s' \<Rightarrow> if c = d then Some s' else None)"

fun strstr :: "string \<Rightarrow> string \<Rightarrow> bool" where
  "strstr [] needle \<longleftrightarrow> needle = []"
| "strstr (c # s) needle \<longleftrightarrow> take (length needle) (c # s) = needle \<or> strstr s needle"

subsection \<open>Logging\<close>

datatype GU_LOG_LEVEL = GU_LOG_ERROR | GU_LOG_OUTPUT | GU_LOG_VERBOSE

datatype log_sink = Print_Fn string | Stderr string | Stdout string

text \<open>
  \<open>buffer\<close> is the formatted message, \<open>None\<close> when \<open>vasprintf\<close> leaves it NULL; when \<open>asprintf\<close> fails
  it leaves \<open>output_string\<close>, which the code has not initialised, indeterminate.
\<close>

definition gu_log ::
  "bool \<Rightarrow> bool \<Rightarrow> bool \<Rightarrow> GU_LOG_LEVEL \<Rightarrow> string option \<Rightarrow> log_sink option cres" where
  "gu_log verbose_enabled has_print_fn asprintf_ok level buffer =
     (if level = GU_LOG_VERBOSE \<and> \<not> verbose_enabled then Ok None
      else
        case buffer of
          None \<Rightarrow> Ok None
        | Some msg \<Rightarrow>
            if \<not> asprintf_ok then Undef Uninitialised
            else
              let out = (case level of
                           GU_LOG_ERROR \<Rightarrow> ''[ERROR] '' @ msg @ [CHR 0x0a]
                         | GU_LOG_VERBOSE \<Rightarrow> ''[VERBOSE] '' @ msg @ [CHR 0x0a]
                         | GU_LOG_OUTPUT \<Rightarrow> msg) in
              Ok (Some (if has_print_fn then Print_Fn out
                        else if level = GU_LOG_ERROR then Stderr out else Stdout out)))"

subsection \<open>The fallback build-id\<close>

text \<open>
  The bytes fed to the digest: chunks until end of file or an error, which both end \<open>reads\<close>; a
  chunk read once two megabytes are in is dropped.
\<close>

fun md5_feed :: "nat \<Rightarrow> bytes list \<Rightarrow> bytes" where
  "md5_feed total_read [] = []"
| "md5_feed total_read (chunk # reads) =
     (if chunk \<noteq> [] \<and> total_read < 2 * 1024 * 1024
      then chunk @ md5_feed (total_read + length chunk) reads else [])"

definition gu_calculate_md5 :: "(bytes \<Rightarrow> bytes) \<Rightarrow> bool \<Rightarrow> bytes list \<Rightarrow> string \<Rightarrow> bytes option" where
  "gu_calculate_md5 md5 malloc_ok reads name =
     (if \<not> malloc_ok then None else Some (md5 (md5_feed 0 reads @ map of_char name)))"

subsection \<open>The vDSO\<close>

text \<open>The address range of the line that names the vDSO, as \<open>gu_dump_vdso\<close> finds it.\<close>

definition scan_range :: "string \<Rightarrow> (u64 \<times> u64) option" where
  "scan_range line =
     Option.bind (scan_lx line) (\<lambda>(s, r1).
     Option.bind (scan_char (CHR ''-'') r1) (\<lambda>r2.
     Option.bind (scan_lx r2) (\<lambda>(e, _). Some (s, e))))"

fun vdso_range :: "string list \<Rightarrow> (u64 \<times> u64) option" where
  "vdso_range [] = None"
| "vdso_range (line # maps) =
     (if strstr line ''[vdso]''
      then (case scan_range line of Some r \<Rightarrow> Some r | None \<Rightarrow> vdso_range maps)
      else vdso_range maps)"

text \<open>\<open>mem\<close> reads the process's own memory; the result is what the output file holds.\<close>

definition gu_dump_vdso ::
  "(u64 \<Rightarrow> u64 \<Rightarrow> bytes) \<Rightarrow> string list option \<Rightarrow> bool \<Rightarrow> bool \<Rightarrow> bytes option" where
  "gu_dump_vdso mem maps output_opens malloc_ok =
     (case maps of
        None \<Rightarrow> None
      | Some lines \<Rightarrow>
          (case vdso_range lines of
             None \<Rightarrow> None
           | Some (s, e) \<Rightarrow>
               if \<not> output_opens then None
               else if \<not> malloc_ok then Some []
               else Some (mem s (e - s))))"

subsection \<open>Paths\<close>

fun trim_rev :: "string \<Rightarrow> string" where
  "trim_rev [] = []"
| "trim_rev (c # s) = (if c = CHR 0x0a \<or> c = CHR '' '' then trim_rev s else c # s)"

definition trim_trailing_whitespace :: "string \<Rightarrow> string" where
  "trim_trailing_whitespace s = rev (trim_rev (rev s))"

definition gu_path_join :: "bool \<Rightarrow> string option \<Rightarrow> string option \<Rightarrow> string option" where
  "gu_path_join malloc_ok path1 path2 =
     (case (path1, path2) of
        (Some p1, Some p2) \<Rightarrow>
          let need_separator = p1 \<noteq> [] \<and> last p1 \<noteq> CHR ''/'' \<and> (p2 = [] \<or> hd p2 \<noteq> CHR ''/'') in
          if \<not> malloc_ok then None
          else Some (trim_trailing_whitespace (p1 @ (if need_separator then ''/'' else []) @ p2))
      | _ \<Rightarrow> None)"

subsection \<open>Memory maps\<close>

abbreviation (input) PERMISSION_R :: u8 where "PERMISSION_R \<equiv> 1"
abbreviation (input) PERMISSION_W :: u8 where "PERMISSION_W \<equiv> 2"
abbreviation (input) PERMISSION_X :: u8 where "PERMISSION_X \<equiv> 4"

record maps_info =
  map_path :: string
  map_start :: u64
  map_end :: u64
  map_offset :: u64
  map_permission :: u8
  map_deleted :: bool

text \<open>
  \<open>sscanf(line, "%lx-%lx %4s %lx %*s %*s %4095s", ...)\<close>: \<open>None\<close> when fewer than four values are
  assigned; the path stays empty when there is none.
\<close>

definition scan_path :: "string \<Rightarrow> string" where
  "scan_path s =
     (case Option.bind (scan_word s) (\<lambda>(_, r1). Option.bind (scan_word r1) (\<lambda>(_, r2). scan_s 4095 r2)) of
        None \<Rightarrow> [] | Some (p, _) \<Rightarrow> p)"

definition scan_maps_line :: "string \<Rightarrow> (u64 \<times> u64 \<times> string \<times> u64 \<times> string) option" where
  "scan_maps_line line =
     Option.bind (scan_lx line) (\<lambda>(s, r1).
     Option.bind (scan_char (CHR ''-'') r1) (\<lambda>r2.
     Option.bind (scan_lx r2) (\<lambda>(e, r3).
     Option.bind (scan_s 4 r3) (\<lambda>(perm, r4).
     Option.bind (scan_lx r4) (\<lambda>(off, r5).
       Some (s, e, perm, off, scan_path r5))))))"

text \<open>A character of the array \<open>perm\<close>: what follows the terminator was never written.\<close>

definition perm_char :: "string \<Rightarrow> nat \<Rightarrow> char cres" where
  "perm_char perm i =
     (if i < length perm then Ok (perm ! i) else if i = length perm then Ok NUL else Undef Uninitialised)"

definition perm_bit :: "string \<Rightarrow> nat \<Rightarrow> char \<Rightarrow> u8 \<Rightarrow> u8 \<Rightarrow> bool cres" where
  "perm_bit perm i c perm_flag flag =
     cbind (perm_char perm i) (\<lambda>p. Ok ((if p = c then perm_flag else 0) AND flag \<noteq> 0))"

definition perm_wanted :: "string \<Rightarrow> u8 \<Rightarrow> bool cres" where
  "perm_wanted perm flag =
     cbind (perm_bit perm 0 (CHR ''r'') PERMISSION_R flag) (\<lambda>r. if r then Ok True else
     cbind (perm_bit perm 1 (CHR ''w'') PERMISSION_W flag) (\<lambda>w. if w then Ok True else
     perm_bit perm 2 (CHR ''x'') PERMISSION_X flag))"

definition perm_chars :: "string \<Rightarrow> u8 cres" where
  "perm_chars perm =
     cbind (perm_char perm 0) (\<lambda>a. cbind (perm_char perm 1) (\<lambda>b. cbind (perm_char perm 2) (\<lambda>c.
       Ok (of_char a OR of_char b OR of_char c))))"

definition merges :: "maps_info \<Rightarrow> u64 \<Rightarrow> u64 \<Rightarrow> u8 \<Rightarrow> string \<Rightarrow> bool" where
  "merges m s off permission path \<longleftrightarrow>
     (let prev_size = map_end m - map_start m in
      map_end m = s \<and> map_offset m \<le> UINT64_MAX - prev_size \<and> map_offset m + prev_size = off \<and>
      map_permission m = permission \<and> map_path m = path)"

text \<open>\<open>realloc_ok n\<close> and \<open>strdup_ok n\<close> are the allocations made when \<open>n\<close> entries are stored.\<close>

definition add_map ::
  "(nat \<Rightarrow> bool) \<Rightarrow> (nat \<Rightarrow> bool) \<Rightarrow> u8 \<Rightarrow> string \<Rightarrow> maps_info list \<times> nat \<Rightarrow> (maps_info list \<times> nat) cres" where
  "add_map realloc_ok strdup_ok permission_flag line st =
     (case st of (info, allocated) \<Rightarrow>
      case scan_maps_line line of
        None \<Rightarrow> Ok (info, allocated)
      | Some (s, e, perm, off, path) \<Rightarrow>
          cbind (perm_wanted perm permission_flag) (\<lambda>wanted.
          if \<not> wanted then Ok (info, allocated)
          else if allocated \<le> length info \<and> \<not> realloc_ok (length info) then Fail
          else
            let allocated' = (if allocated \<le> length info then 2 * allocated else allocated) in
            cbind (perm_chars perm) (\<lambda>permission.
            if info \<noteq> [] \<and> merges (last info) s off permission path
            then Ok (butlast info @ [(last info)\<lparr>map_end := e\<rparr>], allocated')
            else if \<not> strdup_ok (length info) then Fail
            else Ok (info @ [\<lparr>map_path = path, map_start = s, map_end = e, map_offset = off,
                        map_permission = permission, map_deleted = strstr line '' (deleted)''\<rparr>], allocated'))))"

fun maps_loop ::
  "(nat \<Rightarrow> bool) \<Rightarrow> (nat \<Rightarrow> bool) \<Rightarrow> u8 \<Rightarrow> string list \<Rightarrow> maps_info list \<times> nat \<Rightarrow> (maps_info list \<times> nat) cres" where
  "maps_loop realloc_ok strdup_ok permission_flag [] st = Ok st"
| "maps_loop realloc_ok strdup_ok permission_flag (line # lines) st =
     cbind (add_map realloc_ok strdup_ok permission_flag line st)
       (maps_loop realloc_ok strdup_ok permission_flag lines)"

text \<open>\<open>lines\<close> is the opened file; the result is the array, \<open>Fail\<close> is NULL with a count of zero.\<close>

definition gu_get_maps_info ::
  "bool \<Rightarrow> (nat \<Rightarrow> bool) \<Rightarrow> (nat \<Rightarrow> bool) \<Rightarrow> bool \<Rightarrow> u8 \<Rightarrow> string list option \<Rightarrow> maps_info list cres" where
  "gu_get_maps_info malloc_ok realloc_ok strdup_ok shrink_ok permission_flag file =
     (case file of
        None \<Rightarrow> Fail
      | Some lines \<Rightarrow>
          if \<not> malloc_ok then Fail
          else
            cbind (maps_loop realloc_ok strdup_ok permission_flag lines ([], 64)) (\<lambda>(info, _).
            if info = [] then Fail
            else if \<not> shrink_ok then Fail
            else Ok info))"

subsection \<open>Process names and file copies\<close>

text \<open>
  \<open>content\<close> is what one \<open>read\<close> of the file delivers at most (\<open>None\<close> when it cannot be opened or
  read); the result is the return value and the string left in the buffer.
\<close>

definition gu_get_pid_comm :: "nat \<Rightarrow> string option \<Rightarrow> (int \<times> string) cres" where
  "gu_get_pid_comm comm_size content =
     (if comm_size = 0 then Fail
      else
        case content of
          None \<Rightarrow> Ok (- 1, [])
        | Some s \<Rightarrow>
            let comm = take (comm_size - 1) s in
            if comm = [] then Ok (- 1, [])
            else Ok (0, c_string (if last comm = CHR 0x0a then butlast comm else comm)))"

text \<open>
  Each step of the copy reads a chunk and writes it; \<open>written\<close> gives the byte counts \<open>write\<close>
  returns. \<open>None\<close> as a chunk is a read error. The result is the return value and the bytes that
  reached the destination.
\<close>

fun copy_loop :: "bytes option list \<Rightarrow> int list \<Rightarrow> bytes \<Rightarrow> int \<times> bytes" where
  "copy_loop [] ws dest = (0, dest)"
| "copy_loop (None # cs) ws dest = (- 1, dest)"
| "copy_loop (Some chunk # cs) ws dest =
     (if chunk = [] then (0, dest)
      else
        let n = (case ws of [] \<Rightarrow> - 1 | w # _ \<Rightarrow> w); dest' = dest @ take (nat n) chunk in
        if n \<noteq> int (length chunk) then (- 1, dest') else copy_loop cs (tl ws) dest')"

definition gu_copy_file :: "bytes option list option \<Rightarrow> bool \<Rightarrow> int list \<Rightarrow> int \<times> bytes option" where
  "gu_copy_file src dest_opens ws =
     (case src of
        None \<Rightarrow> (- 1, None)
      | Some chunks \<Rightarrow>
          if \<not> dest_opens then (- 1, None)
          else (case copy_loop chunks ws [] of (ret, dest) \<Rightarrow> (ret, Some dest)))"

subsection \<open>Reading back what the kernel prints\<close>

definition hex_char :: "nat \<Rightarrow> char" where
  "hex_char d = ''0123456789abcdef'' ! d"

fun hex_digits :: "nat \<Rightarrow> nat list" where
  "hex_digits n = (if n < 16 then [n] else hex_digits (n div 16) @ [n mod 16])"

declare hex_digits.simps [simp del]

text \<open>\<open>%08lx\<close>, and a line of \<open>/proc/<pid>/maps\<close>; \<open>rest\<close> is what follows the path.\<close>

definition print_hex :: "nat \<Rightarrow> string" where
  "print_hex n = map hex_char (replicate (8 - length (hex_digits n)) 0 @ hex_digits n)"

definition maps_line :: "u64 \<Rightarrow> u64 \<Rightarrow> string \<Rightarrow> u64 \<Rightarrow> string \<Rightarrow> string \<Rightarrow> string \<Rightarrow> string \<Rightarrow> string" where
  "maps_line s e perm off dev inode path rest =
     print_hex (unat s) @ ''-'' @ print_hex (unat e) @ '' '' @ perm @ '' '' @ print_hex (unat off) @ '' '' @
     dev @ '' '' @ inode @ '' '' @ path @ rest"

definition word :: "string \<Rightarrow> bool" where
  "word w \<longleftrightarrow> w \<noteq> [] \<and> (\<forall>c\<in>set w. \<not> isspace c)"

lemma hex_digit_hex_char: "d < 16 \<Longrightarrow> hex_digit (hex_char d) = Some d"
proof -
  have "\<forall>d\<in>{..<16}. hex_digit (hex_char d) = Some d"
    by (simp add: lessThan_nat_numeral lessThan_Suc hex_digit_def hex_char_def)
  then show "d < 16 \<Longrightarrow> hex_digit (hex_char d) = Some d" by simp
qed

lemma hex_digits_cases:
  "n < 16 \<Longrightarrow> hex_digits n = [n]" "\<not> n < 16 \<Longrightarrow> hex_digits n = hex_digits (n div 16) @ [n mod 16]"
  by (simp_all add: hex_digits.simps [of n])

lemma hex_digits_small: "d \<in> set (hex_digits n) \<Longrightarrow> d < 16"
proof (induction n rule: hex_digits.induct)
  case (1 n)
  then show ?case by (cases "n < 16") (auto simp: hex_digits_cases)
qed

lemma hex_digits_not_Nil [simp]: "hex_digits n \<noteq> []"
  by (cases "n < 16") (simp_all add: hex_digits_cases)

lemma hex_digits_value: "foldl (\<lambda>a d. 16 * a + d) 0 (hex_digits n) = n"
proof (induction n rule: hex_digits.induct)
  case (1 n)
  then show ?case by (cases "n < 16") (simp_all add: hex_digits_cases)
qed

lemma scan_digits_map:
  "\<forall>d\<in>set ds. d < 16 \<Longrightarrow>
     scan_digits acc (map hex_char ds @ r) = scan_digits (foldl (\<lambda>a d. 16 * a + d) acc ds) r"
  by (induction ds arbitrary: acc) (simp_all add: hex_digit_hex_char)

lemma scan_digits_stop: "r = [] \<or> hex_digit (hd r) = None \<Longrightarrow> scan_digits acc r = (acc, r)"
  by (cases r) auto

lemma foldl_zeros: "foldl (\<lambda>a d. 16 * a + d) 0 (replicate k 0) = (0 :: nat)"
  by (induction k) simp_all

lemma scan_lx_print:
  assumes "r = [] \<or> hex_digit (hd r) = None" "r = [] \<or> hd r \<noteq> CHR ''x'' \<and> hd r \<noteq> CHR ''X''"
  shows "scan_lx (print_hex (unat (w :: u64)) @ r) = Some (w, r)"
proof -
  let ?ds = "replicate (8 - length (hex_digits (unat w))) 0 @ hex_digits (unat w)"
  have small: "\<forall>d\<in>set ?ds. d < 16" using hex_digits_small by auto
  obtain d ds where ds: "?ds = d # ds" by (cases ?ds) auto
  then have d: "d < 16" "\<forall>d\<in>set ds. d < 16" using small by auto
  have first: "\<not> isspace (hex_char d)" "hex_char d \<noteq> CHR ''-''" "hex_char d \<noteq> CHR ''+''"
  proof -
    have "\<forall>d\<in>{..<16}. \<not> isspace (hex_char d) \<and> hex_char d \<noteq> CHR ''-'' \<and> hex_char d \<noteq> CHR ''+''"
      by (simp add: lessThan_nat_numeral lessThan_Suc isspace_def hex_char_def)
    then show "\<not> isspace (hex_char d)" "hex_char d \<noteq> CHR ''-''" "hex_char d \<noteq> CHR ''+''" using d(1) by auto
  qed
  have second: "hex_char k \<noteq> CHR ''x''" "hex_char k \<noteq> CHR ''X''" if "k < 16" for k
  proof -
    have "\<forall>d\<in>{..<16}. hex_char d \<noteq> CHR ''x'' \<and> hex_char d \<noteq> CHR ''X''"
      by (simp add: lessThan_nat_numeral lessThan_Suc hex_char_def)
    then show "hex_char k \<noteq> CHR ''x''" "hex_char k \<noteq> CHR ''X''" using that by auto
  qed
  have skip: "skip_0x (hex_char d # map hex_char ds @ r) = hex_char d # map hex_char ds @ r"
    using second d(2) assms(2) by (cases ds; cases r) (auto simp: skip_0x_def)
  have scan: "scan_digits 0 (hex_char d # map hex_char ds @ r) = (unat w, r)"
  proof -
    have "scan_digits 0 (map hex_char ?ds @ r) = scan_digits (unat w) r"
      using scan_digits_map [OF small, of 0 r] by (simp add: foldl_zeros hex_digits_value del: map_append)
    then show ?thesis using scan_digits_stop [OF assms(1)] by (simp add: ds)
  qed
  have "print_hex (unat w) = hex_char d # map hex_char ds" by (simp only: print_hex_def ds list.map)
  then show ?thesis
    using first d(1) scan skip unat_u64 [of w]
    by (simp add: scan_lx_def skip_space_def scan_sign_def hex_digit_hex_char clamp_u64_def)
qed

lemma scan_s_word:
  assumes "word w" "length w \<le> n" "r = [] \<or> isspace (hd r)"
  shows "scan_s n (CHR '' '' # w @ r) = Some (w, r)"
proof -
  have tw: "takeWhile (\<lambda>c. \<not> isspace c) (w @ r) = w"
    using assms(1,3) by (cases r) (auto simp: word_def takeWhile_append)
  have "skip_space (CHR '' '' # w @ r) = w @ r"
    using assms(1) by (cases w) (auto simp: skip_space_def word_def isspace_def)
  moreover have "0 < n" using assms(1,2) by (cases w) (auto simp: word_def)
  ultimately show ?thesis using assms(1,2) by (simp add: scan_s_def tw word_def Let_def)
qed

lemma scan_word_word:
  "word w \<Longrightarrow> r = [] \<or> isspace (hd r) \<Longrightarrow> scan_word (CHR '' '' # w @ r) = Some (w, r)"
  unfolding scan_word_def by (rule scan_s_word) simp_all

lemma scan_lx_space: "scan_lx (CHR '' '' # s) = scan_lx s"
  by (simp add: scan_lx_def skip_space_def isspace_def)

lemma scan_line_printed:
  assumes "word perm" "length perm = 4" "word dev" "word inode" "word path" "length path \<le> 4095"
    and "rest = [] \<or> isspace (hd rest)"
  shows "scan_maps_line (maps_line s e perm off dev inode path rest) = Some (s, e, perm, off, path)"
proof -
  have stops: "isspace (CHR '' '')" "hex_digit (CHR '' '') = None" "hex_digit (CHR ''-'') = None"
    by (simp_all add: isspace_def hex_digit_def)
  have path: "scan_path (CHR '' '' # dev @ CHR '' '' # inode @ CHR '' '' # path @ rest) = path"
    using scan_word_word [OF assms(3), of "CHR '' '' # inode @ CHR '' '' # path @ rest"]
      scan_word_word [OF assms(4), of "CHR '' '' # path @ rest"] scan_s_word [OF assms(5,6,7)] stops(1)
    by (simp add: scan_path_def)
  let ?r5 = "CHR '' '' # dev @ CHR '' '' # inode @ CHR '' '' # path @ rest"
  have "scan_lx (CHR '' '' # print_hex (unat off) @ ?r5) = Some (off, ?r5)"
    unfolding scan_lx_space by (rule scan_lx_print) (simp_all add: stops)
  moreover have "scan_s 4 (CHR '' '' # perm @ CHR '' '' # print_hex (unat off) @ ?r5) =
      Some (perm, CHR '' '' # print_hex (unat off) @ ?r5)"
    by (rule scan_s_word) (simp_all add: assms stops)
  moreover have "scan_lx (print_hex (unat e) @ CHR '' '' # q) = Some (e, CHR '' '' # q)" for q
    by (rule scan_lx_print) (simp_all add: stops)
  moreover have "scan_lx (print_hex (unat s) @ CHR ''-'' # q) = Some (s, CHR ''-'' # q)" for q
    by (rule scan_lx_print) (simp_all add: stops)
  ultimately show ?thesis
    by (simp add: maps_line_def scan_maps_line_def scan_char_def path)
qed

text \<open>
  A line of the memory map is read back exactly: addresses, permissions, file offset and path,
  for every 64-bit address and every path without blanks that fits the buffer; what follows the
  path, such as the deletion mark, is ignored.
\<close>

lemma maps_line_roundtrip:
  assumes "word perm" "length perm = 4" "word dev" "word inode" "word path" "length path \<le> 4095"
    and "rest = [] \<or> isspace (hd rest)"
  shows "scan_maps_line (maps_line s e perm off dev inode path rest) = Some (s, e, perm, off, path)"
  using assms by (rule scan_line_printed)

subsection \<open>Merging adjacent mappings\<close>

text \<open>
  A piece of the address space: what lies at an address is the path, the file offset and the
  permission characters.
\<close>

type_synonym piece = "u64 \<times> u64 \<times> u64 \<times> u8 \<times> string"

fun piece_at :: "piece \<Rightarrow> u64 \<Rightarrow> (string \<times> u64 \<times> u8) option" where
  "piece_at (s, e, off, p, path) a = (if s \<le> a \<and> a < e then Some (path, off + (a - s), p) else None)"

fun piece_ordered :: "piece \<Rightarrow> bool" where
  "piece_ordered (s, e, off, p, path) \<longleftrightarrow> s \<le> e"

definition piece_of :: "maps_info \<Rightarrow> piece" where
  "piece_of m = (map_start m, map_end m, map_offset m, map_permission m, map_path m)"

text \<open>The pieces the wanted lines of a file describe.\<close>

definition line_piece :: "u8 \<Rightarrow> string \<Rightarrow> piece option" where
  "line_piece flag line =
     (case scan_maps_line line of
        None \<Rightarrow> None
      | Some (s, e, perm, off, path) \<Rightarrow>
          (case (perm_wanted perm flag, perm_chars perm) of
             (Ok True, Ok p) \<Rightarrow> Some (s, e, off, p, path) | _ \<Rightarrow> None))"

definition file_pieces :: "u8 \<Rightarrow> string list \<Rightarrow> piece list" where
  "file_pieces flag lines = List.map_filter (line_piece flag) lines"

definition same_space :: "piece list \<Rightarrow> piece list \<Rightarrow> bool" where
  "same_space ps qs \<longleftrightarrow> (\<forall>a t. (\<exists>p\<in>set ps. piece_at p a = Some t) \<longleftrightarrow> (\<exists>q\<in>set qs. piece_at q a = Some t))"

lemma merged_piece:
  assumes "merges m s off p path" "map_start m \<le> map_end m" "s \<le> e"
  shows "piece_at (piece_of (m\<lparr>map_end := e\<rparr>)) a = Some t \<longleftrightarrow>
    piece_at (piece_of m) a = Some t \<or> piece_at (s, e, off, p, path) a = Some t"
proof -
  have m: "map_end m = s" "map_offset m + (s - map_start m) = off" "map_permission m = p" "map_path m = path"
    using assms(1) by (auto simp: merges_def Let_def)
  have off: "map_offset m + (a - map_start m) = off + (a - s)" using m(2) by (simp add: algebra_simps)
  show ?thesis
    using assms(2,3) off unfolding m(1) by (auto simp: piece_of_def m)
qed

lemma add_map_step:
  assumes "add_map r d flag line (info, n) = Ok (info', n')"
  shows "(line_piece flag line = None \<and> info' = info) \<or>
    (\<exists>s e off p path. line_piece flag line = Some (s, e, off, p, path) \<and>
      ((info \<noteq> [] \<and> merges (last info) s off p path \<and> info' = butlast info @ [(last info)\<lparr>map_end := e\<rparr>]) \<or>
       (\<exists>m. piece_of m = (s, e, off, p, path) \<and> info' = info @ [m])))"
proof (cases "scan_maps_line line")
  case None
  then show ?thesis using assms by (simp add: add_map_def line_piece_def)
next
  case (Some row)
  obtain s e perm off path where row: "row = (s, e, perm, off, path)" by (cases row)
  obtain wanted where w: "perm_wanted perm flag = Ok wanted"
    using assms by (auto simp: add_map_def Some row cbind_eq_Ok)
  show ?thesis
  proof (cases wanted)
    case False
    then show ?thesis using assms w by (simp add: add_map_def line_piece_def Some row split: cres.split)
  next
    case True
    then obtain p where p: "perm_chars perm = Ok p"
      using assms w by (auto simp: add_map_def Some row cbind_eq_Ok Let_def split: if_split_asm)
    have lp: "line_piece flag line = Some (s, e, off, p, path)" using w p True by (simp add: line_piece_def Some row)
    have "(info \<noteq> [] \<and> merges (last info) s off p path \<and> info' = butlast info @ [(last info)\<lparr>map_end := e\<rparr>]) \<or>
        info' = info @ [\<lparr>map_path = path, map_start = s, map_end = e, map_offset = off,
                        map_permission = p, map_deleted = strstr line '' (deleted)''\<rparr>]"
      using assms w True p by (simp add: add_map_def Some row Let_def split: if_split_asm)
    then show ?thesis
      using lp piece_of_def [of "\<lparr>map_path = path, map_start = s, map_end = e, map_offset = off,
                        map_permission = p, map_deleted = strstr line '' (deleted)''\<rparr>"] by auto
  qed
qed

lemma add_map_space:
  assumes "add_map r d flag line (info, n) = Ok (info', n')" "\<forall>m\<in>set info. piece_ordered (piece_of m)"
    and "\<forall>p. line_piece flag line = Some p \<longrightarrow> piece_ordered p"
  shows "same_space (map piece_of info') (map piece_of info @ file_pieces flag [line])"
    and "\<forall>m\<in>set info'. piece_ordered (piece_of m)"
proof -
  have "same_space (map piece_of info') (map piece_of info @ file_pieces flag [line]) \<and>
      (\<forall>m\<in>set info'. piece_ordered (piece_of m))"
    using add_map_step [OF assms(1)]
  proof (elim disjE exE conjE)
    assume "line_piece flag line = None" "info' = info"
    then show ?thesis using assms(2) by (simp add: same_space_def file_pieces_def List.map_filter_simps)
  next
    fix s e off p path m
    assume l: "line_piece flag line = Some (s, e, off, p, path)" "piece_of m = (s, e, off, p, path)" "info' = info @ [m]"
    then show ?thesis using assms(2,3) by (simp add: same_space_def file_pieces_def List.map_filter_simps)
  next
    fix s e off p path
    assume l: "line_piece flag line = Some (s, e, off, p, path)" "info \<noteq> []" "merges (last info) s off p path"
      "info' = butlast info @ [(last info)\<lparr>map_end := e\<rparr>]"
    obtain ms m where info: "info = ms @ [m]" using l(2) by (cases info rule: rev_cases) auto
    have o: "map_start m \<le> map_end m" "s \<le> e" "\<forall>m\<in>set ms. piece_ordered (piece_of m)"
      using assms(2,3) l(1) by (simp_all add: info piece_of_def)
    have "map_end m = s" using l(3) by (simp add: info merges_def Let_def)
    then have "map_start m \<le> e" using o by (meson order_trans)
    moreover note merged_piece [OF l(3) [unfolded info last_snoc] o(1,2)]
    ultimately show ?thesis
      using o(3) l(1) by (auto simp: l(4) info same_space_def file_pieces_def List.map_filter_simps piece_of_def)
  qed
  then show "same_space (map piece_of info') (map piece_of info @ file_pieces flag [line])"
    "\<forall>m\<in>set info'. piece_ordered (piece_of m)" by blast+
qed

lemma same_space_trans_append:
  "same_space ps qs \<Longrightarrow> same_space rs (ps @ xs) \<Longrightarrow> same_space rs (qs @ xs)"
  unfolding same_space_def set_append by blast

lemma maps_loop_space:
  "maps_loop r d flag lines (info, n) = Ok (info', n') \<Longrightarrow> \<forall>m\<in>set info. piece_ordered (piece_of m) \<Longrightarrow>
     \<forall>p\<in>set (file_pieces flag lines). piece_ordered p \<Longrightarrow>
     same_space (map piece_of info') (map piece_of info @ file_pieces flag lines)"
proof (induction lines arbitrary: info n)
  case Nil
  then show ?case by (simp add: same_space_def file_pieces_def List.map_filter_simps)
next
  case (Cons line lines)
  obtain info1 n1 where step: "add_map r d flag line (info, n) = Ok (info1, n1)"
      "maps_loop r d flag lines (info1, n1) = Ok (info', n')"
    using Cons.prems(1) by (auto simp: cbind_eq_Ok)
  have app: "file_pieces flag (line # lines) = file_pieces flag [line] @ file_pieces flag lines"
    by (simp add: file_pieces_def List.map_filter_simps split: option.split)
  have one: "\<forall>p. line_piece flag line = Some p \<longrightarrow> piece_ordered p"
    using Cons.prems(3) by (simp add: file_pieces_def List.map_filter_simps)
  have rest: "\<forall>p\<in>set (file_pieces flag lines). piece_ordered p" using Cons.prems(3) by (simp add: app)
  note s = add_map_space [OF step(1) Cons.prems(2) one]
  show ?case
    using same_space_trans_append [OF s(1) Cons.IH [OF step(2) s(2) rest]] by (simp add: app)
qed



end
