(* ===== verification/Elf_Debug.thy ===== *)
theory Elf_Debug
  imports Gu_Comm
begin

text \<open>
  Finding the debug information of an image, in \<open>src/gu_stacktrace.c\<close>: the build-id note, the
  path derived from it, the \<open>.gnu_debuglink\<close> section, its CRC-32, and the search for the file it
  names.

  \<^item> A section's data is what \<open>elf_getdata\<close> returns, \<open>None\<close> for NULL.
  \<^item> A candidate file is the sequence of results its \<open>read\<close>s deliver; the file system is a function
    from paths to them, \<open>None\<close> where there is no readable regular file.
\<close>

unbundle bit_operations_syntax

subsection \<open>Build-ids\<close>

abbreviation (input) STANDARD_BUILD_ID_LEN :: nat where "STANDARD_BUILD_ID_LEN \<equiv> 20"
abbreviation (input) PATH_MAX :: nat where "PATH_MAX \<equiv> 4096"

text \<open>\<open>%02x\<close>.\<close>

definition hex_byte :: "u8 \<Rightarrow> string" where
  "hex_byte b = [hex_char (unat b div 16), hex_char (unat b mod 16)]"

text \<open>\<open>snprintf\<close> into an array of \<open>n\<close> characters.\<close>

definition snprintf :: "nat \<Rightarrow> string \<Rightarrow> string" where
  "snprintf n s = take (n - 1) s"

definition get_debug_info_path_by_id :: "bytes \<Rightarrow> string cres" where
  "get_debug_info_path_by_id build_id =
     (if length build_id < STANDARD_BUILD_ID_LEN then Undef OutOfBounds
      else Ok (snprintf 73 (''/usr/lib/debug/.build-id/'' @ hex_byte (build_id ! 0) @ ''/'' @
             concat (map hex_byte (take 19 (drop 1 build_id))) @ ''.debug'')))"

text \<open>
  \<open>go\<close> and \<open>gnu\<close> are the two note sections, \<open>None\<close> when absent; a present section may have no
  data. The size is computed before it is known to be at least 16.
\<close>

definition get_elf_build_id ::
  "(u64 \<Rightarrow> bool) \<Rightarrow> bytes option option \<Rightarrow> bytes option option \<Rightarrow> bytes cres" where
  "get_elf_build_id malloc_ok go gnu =
     (case (case go of Some d \<Rightarrow> Some d | None \<Rightarrow> gnu) of
        None \<Rightarrow> Fail
      | Some None \<Rightarrow> Undef NullDeref
      | Some (Some d) \<Rightarrow>
          let build_id_size = of_nat (length d) - 16 in
          if \<not> malloc_ok build_id_size then Fail
          else if length d < 16 then Undef OutOfBounds
          else Ok (drop 16 d))"

subsection \<open>The debug link\<close>

abbreviation (input) GNU_DEBUGLINK_CRC_SIZE :: nat where "GNU_DEBUGLINK_CRC_SIZE \<equiv> 4"

definition byte_char :: "u8 \<Rightarrow> char" where
  "byte_char b = char_of (unat b)"

definition get_elf_gnu_debuglink :: "bytes option \<Rightarrow> nat \<Rightarrow> (string \<times> u32) option" where
  "get_elf_gnu_debuglink scn name_buf_size =
     (case scn of
        None \<Rightarrow> None
      | Some raw \<Rightarrow>
          if name_buf_size = 0 \<or> length raw \<le> GNU_DEBUGLINK_CRC_SIZE then None
          else
            let crc_offset = length raw - GNU_DEBUGLINK_CRC_SIZE;
                name = takeWhile (\<lambda>b. b \<noteq> 0) (take crc_offset raw) in
            if name = [] \<or> crc_offset \<le> length name \<or> name_buf_size \<le> length name then None
            else if CHR ''/'' \<in> set (map byte_char name) then None
            else Some (map byte_char name, ucast (le_word (drop crc_offset raw))))"

subsection \<open>CRC-32\<close>

definition crc_step :: "u32 \<Rightarrow> u32" where
  "crc_step c = (if c AND 1 \<noteq> 0 then 0xedb88320 XOR drop_bit 1 c else drop_bit 1 c)"

definition gu_crc32_table :: "u32 list" where
  "gu_crc32_table = map (\<lambda>i. (crc_step ^^ 8) (of_nat i)) [0..<256]"

definition crc_byte :: "u32 \<Rightarrow> u8 \<Rightarrow> u32" where
  "crc_byte crc b = gu_crc32_table ! unat ((crc XOR ucast b) AND 0xff) XOR drop_bit 8 crc"

definition gu_crc32_update :: "u32 \<Rightarrow> bytes \<Rightarrow> u32" where
  "gu_crc32_update crc buf = NOT (foldl crc_byte (NOT crc) buf)"

datatype read_result = Chunk bytes | Read_Eintr | Read_Error

fun crc_loop :: "u32 \<Rightarrow> u32 \<Rightarrow> read_result list \<Rightarrow> bool" where
  "crc_loop expected crc [] \<longleftrightarrow> crc = expected"
| "crc_loop expected crc (Read_Eintr # rs) \<longleftrightarrow> crc_loop expected crc rs"
| "crc_loop expected crc (Read_Error # rs) \<longleftrightarrow> False"
| "crc_loop expected crc (Chunk c # rs) \<longleftrightarrow>
     (if c = [] then crc = expected else crc_loop expected (gu_crc32_update crc c) rs)"

definition gu_debuglink_crc_matches :: "read_result list option \<Rightarrow> u32 \<Rightarrow> bool" where
  "gu_debuglink_crc_matches content expected_crc =
     (case content of None \<Rightarrow> False | Some rs \<Rightarrow> crc_loop expected_crc 0 rs)"

subsection \<open>The search\<close>

type_synonym debug_files = "string \<Rightarrow> read_result list option"

definition gu_debuglink_try_candidate :: "bool \<Rightarrow> debug_files \<Rightarrow> string \<Rightarrow> u32 \<Rightarrow> string option" where
  "gu_debuglink_try_candidate strdup_ok fs path expected_crc =
     (if fs path = None then None
      else if \<not> gu_debuglink_crc_matches (fs path) expected_crc then None
      else if strdup_ok then Some path else None)"

text \<open>The directory part: up to the last slash, empty when there is none.\<close>

definition object_dir :: "string \<Rightarrow> string" where
  "object_dir file_name =
     (let d = take (PATH_MAX - 1) file_name in
      if CHR ''/'' \<in> set d then rev (tl (dropWhile (\<lambda>c. c \<noteq> CHR ''/'') (rev d))) else [])"

definition debuglink_candidates :: "string \<Rightarrow> string \<Rightarrow> string \<Rightarrow> bool \<Rightarrow> bool \<Rightarrow> string list" where
  "debuglink_candidates obj_dir link_name pid_root_path live_mode deleted_mapping =
     (if \<not> deleted_mapping \<and> obj_dir \<noteq> []
      then [snprintf PATH_MAX (pid_root_path @ obj_dir @ ''/'' @ link_name),
            snprintf PATH_MAX (pid_root_path @ obj_dir @ ''/.debug/'' @ link_name)] else []) @
     map (\<lambda>root. snprintf PATH_MAX (root @ ''/usr/lib/debug'' @ obj_dir @ ''/'' @ link_name))
       (if live_mode then [pid_root_path, []] else [pid_root_path])"

fun first_candidate :: "bool \<Rightarrow> debug_files \<Rightarrow> u32 \<Rightarrow> string list \<Rightarrow> string option" where
  "first_candidate strdup_ok fs crc [] = None"
| "first_candidate strdup_ok fs crc (p # ps) =
     (case gu_debuglink_try_candidate strdup_ok fs p crc of
        Some r \<Rightarrow> Some r | None \<Rightarrow> first_candidate strdup_ok fs crc ps)"

definition find_debug_info_path_by_debuglink ::
  "bool \<Rightarrow> debug_files \<Rightarrow> bytes option \<Rightarrow> string \<Rightarrow> string \<Rightarrow> bool \<Rightarrow> bool \<Rightarrow> string option" where
  "find_debug_info_path_by_debuglink strdup_ok fs scn file_name pid_root_path live_mode deleted_mapping =
     (case get_elf_gnu_debuglink scn PATH_MAX of
        None \<Rightarrow> None
      | Some (link_name, expected_crc) \<Rightarrow>
          first_candidate strdup_ok fs expected_crc
            (debuglink_candidates (object_dir file_name) link_name pid_root_path live_mode deleted_mapping))"

subsection \<open>The table computes the polynomial division\<close>

text \<open>The bitwise reference: eight steps of the division for each byte.\<close>

definition crc_ref :: "u32 \<Rightarrow> bytes \<Rightarrow> u32" where
  "crc_ref crc buf = NOT (foldl (\<lambda>c b. (crc_step ^^ 8) (c XOR ucast b)) (NOT crc) buf)"

lemma crc_step_alt: "crc_step c = (if odd c then 0xedb88320 else 0) XOR drop_bit 1 c"
  by (simp add: crc_step_def and_one_eq odd_iff_mod_2_eq_one)

lemma crc_step_xor: "crc_step (x XOR y) = crc_step x XOR crc_step y"
proof -
  have "odd (x XOR y) \<longleftrightarrow> odd x \<noteq> odd y" by (simp add: even_xor_iff)
  then show ?thesis
    unfolding crc_step_alt
    by (cases "odd x"; cases "odd y") (rule bit_word_eqI, auto simp: bit_simps)+
qed

lemma crc_steps_xor: "(crc_step ^^ n) (x XOR y) = (crc_step ^^ n) x XOR (crc_step ^^ n) y"
  by (induction n) (simp_all add: crc_step_xor)

lemma crc_steps_low_zero: "take_bit n w = 0 \<Longrightarrow> (crc_step ^^ n) w = drop_bit n w"
proof (induction n arbitrary: w)
  case (Suc n)
  have bits: "\<not> bit w k" if "k < Suc n" for k
    using Suc.prems that by (metis bit_0_eq bit_take_bit_iff bot_apply bot_bool_def)
  have "crc_step w = drop_bit 1 w" using bits [of 0] by (simp add: crc_step_alt bit_0)
  moreover have "take_bit n (drop_bit 1 w) = 0"
    by (rule bit_word_eqI) (use bits in \<open>auto simp: bit_simps\<close>)
  ultimately show ?case
    using Suc.IH [of "drop_bit 1 w"] by (simp add: funpow_swap1 drop_bit_drop_bit del: funpow.simps) (simp add: funpow_swap1)
qed simp

lemma table_entry: "i < 256 \<Longrightarrow> gu_crc32_table ! i = (crc_step ^^ 8) (of_nat i)"
  by (simp add: gu_crc32_table_def)

lemma crc_byte_eq: "crc_byte crc b = (crc_step ^^ 8) (crc XOR ucast b)"
proof -
  let ?z = "crc XOR ucast b"
  have split: "?z = (?z AND 0xff) XOR (?z AND NOT 0xff)"
    by (rule bit_word_eqI) (auto simp: bit_simps)
  have mask: "(0xff :: u32) = mask 8" by (simp add: mask_eq_exp_minus_1)
  have "?z AND 0xff \<le> 0xff" by (rule word_and_le1)
  then have "unat (?z AND 0xff) < 256" by (simp add: word_le_nat_alt)
  then have low: "gu_crc32_table ! unat (?z AND 0xff) = (crc_step ^^ 8) (?z AND 0xff)"
    by (simp add: table_entry)
  have "take_bit 8 (?z AND NOT 0xff) = 0"
    unfolding mask by (rule bit_word_eqI) (auto simp: bit_simps)
  then have "(crc_step ^^ 8) (?z AND NOT 0xff) = drop_bit 8 (?z AND NOT 0xff)"
    by (rule crc_steps_low_zero)
  also have "\<dots> = drop_bit 8 crc"
    unfolding mask by (rule bit_word_eqI) (auto simp: bit_simps dest: bit_imp_le_length)
  finally show ?thesis
    unfolding crc_byte_def low by (subst split) (simp only: crc_steps_xor)
qed

lemma crc_update_ref: "gu_crc32_update crc buf = crc_ref crc buf"
proof -
  have "crc_byte = (\<lambda>c b. (crc_step ^^ 8) (c XOR ucast b))" by (simp add: fun_eq_iff crc_byte_eq)
  then show ?thesis by (simp add: gu_crc32_update_def crc_ref_def)
qed

lemma crc_update_append: "gu_crc32_update (gu_crc32_update crc xs) ys = gu_crc32_update crc (xs @ ys)"
  by (simp add: gu_crc32_update_def)

text \<open>
  C19. The table-driven checksum is the CRC-32 of the ISO polynomial computed bit by bit, for every
  start value and every buffer, and computing it in pieces gives the checksum of the whole.
\<close>

theorem crc32_table_correct:
  "gu_crc32_update crc buf = crc_ref crc buf \<and>
   gu_crc32_update (gu_crc32_update crc xs) ys = crc_ref crc (xs @ ys)"
  unfolding crc_update_append by (simp add: crc_update_ref)

subsection \<open>Only matching files are taken\<close>

text \<open>The bytes a file delivers, \<open>None\<close> when reading it fails.\<close>

fun file_bytes :: "read_result list \<Rightarrow> bytes option" where
  "file_bytes [] = Some []"
| "file_bytes (Read_Eintr # rs) = file_bytes rs"
| "file_bytes (Read_Error # rs) = None"
| "file_bytes (Chunk c # rs) = (if c = [] then Some [] else map_option ((@) c) (file_bytes rs))"

lemma crc_loop_iff: "crc_loop expected crc rs \<longleftrightarrow> (\<exists>bs. file_bytes rs = Some bs \<and> gu_crc32_update crc bs = expected)"
proof (induction expected crc rs rule: crc_loop.induct)
  case (1 expected crc)
  show ?case by (simp add: gu_crc32_update_def)
next
  case (4 expected crc c rs)
  then show ?case by (auto simp: gu_crc32_update_def [of crc "[]"] crc_update_append)
qed simp_all

definition crc_file :: "debug_files \<Rightarrow> u32 \<Rightarrow> string \<Rightarrow> bool" where
  "crc_file fs crc p \<longleftrightarrow> (\<exists>rs bs. fs p = Some rs \<and> file_bytes rs = Some bs \<and> crc_ref 0 bs = crc)"

lemma try_candidate_iff: "gu_debuglink_try_candidate True fs p crc = (if crc_file fs crc p then Some p else None)"
  by (auto simp: gu_debuglink_try_candidate_def gu_debuglink_crc_matches_def crc_file_def crc_loop_iff
      crc_update_ref split: option.split)

lemma first_candidate_find: "first_candidate True fs crc ps = find (crc_file fs crc) ps"
  by (induction ps) (simp_all add: try_candidate_iff)

text \<open>
  C20. The debug file found through a debug link is the first candidate, in the documented order,
  that can be read to its end and whose checksum is the one the link records; in particular no
  file with another checksum is taken, and for a deleted mapping nothing outside the global
  debug directories is looked at.
\<close>

theorem debuglink_first_match:
  assumes "get_elf_gnu_debuglink scn 4096 = Some (link, crc)"
  shows "find_debug_info_path_by_debuglink True fs scn file_name root live deleted =
      find (crc_file fs crc) (debuglink_candidates (object_dir file_name) link root live deleted) \<and>
    CHR ''/'' \<notin> set link \<and>
    (deleted \<longrightarrow> set (debuglink_candidates (object_dir file_name) link root live deleted) \<subseteq>
       (\<lambda>r. snprintf 4096 (r @ ''/usr/lib/debug'' @ object_dir file_name @ ''/'' @ link)) ` {root, []})"
proof -
  have "CHR ''/'' \<notin> set link"
    using assms by (auto simp: get_elf_gnu_debuglink_def Let_def split: option.split_asm if_split_asm)
  then show ?thesis
    using assms by (auto simp: find_debug_info_path_by_debuglink_def first_candidate_find debuglink_candidates_def)
qed

definition sample_link :: bytes where
  "sample_link = [0x61, 0x2e, 0x64, 0x62, 0x67, 0, 0, 0, 0, 0, 0, 0]"

theorem debuglink_first_match_witness:
  "get_elf_gnu_debuglink (Some sample_link) 4096 = Some (''a.dbg'', 0) \<and>
   find_debug_info_path_by_debuglink True (\<lambda>p. if p = ''/bin/.debug/a.dbg'' then Some [] else None) (Some sample_link)
     ''/bin/a'' [] False False = Some ''/bin/.debug/a.dbg''"
proof -
  have link: "get_elf_gnu_debuglink (Some sample_link) 4096 = Some (''a.dbg'', 0)"
    by (simp add: get_elf_gnu_debuglink_def sample_link_def byte_char_def char_of_def bit_numeral_rec bit_0 Let_def)
  have cand: "debuglink_candidates (object_dir ''/bin/a'') ''a.dbg'' [] False False =
      [''/bin/a.dbg'', ''/bin/.debug/a.dbg'', ''/usr/lib/debug/bin/a.dbg'']"
    by (simp add: debuglink_candidates_def object_dir_def snprintf_def Let_def)
  show ?thesis
    using debuglink_first_match [OF link, of "\<lambda>p. if p = ''/bin/.debug/a.dbg'' then Some [] else None" "''/bin/a''" "[]" False False] link
    by (simp add: cand crc_file_def crc_ref_def)
qed

end
