(* ===== verification/Elf_Ranges.thy ===== *)
theory Elf_Ranges
  imports Gu_Prelude
begin

text \<open>
  The executable load ranges of an ELF image, \<open>src/gu_elf.c\<close>. The program headers are what
  libelf returns: \<open>None\<close> when \<open>elf_getphdrnum\<close> fails, and an entry \<open>None\<close> when \<open>gelf_getphdr\<close>
  fails for that index. A \<open>struct gu_elf_exec_ranges\<close> is the list of its \<open>count\<close> ranges.
\<close>

record gelf_phdr =
  p_type :: u32
  p_flags :: u32
  p_offset :: u64
  p_vaddr :: u64
  p_memsz :: u64
  p_align :: u64

abbreviation (input) PT_LOAD :: u32 where "PT_LOAD \<equiv> 1"
abbreviation (input) PF_X :: u32 where "PF_X \<equiv> 1"

type_synonym elf_phdrs = "gelf_phdr option list option"

record gu_elf_exec_range =
  range_start :: u64
  range_end :: u64
  range_offset :: u64

type_synonym gu_elf_exec_ranges = "gu_elf_exec_range list"

definition align_down :: "u64 \<Rightarrow> u64 \<Rightarrow> u64" where
  "align_down v align = (if align = 0 then v else v - v mod align)"

definition align_up :: "u64 \<Rightarrow> u64 \<Rightarrow> u64" where
  "align_up v align =
     (if align = 0 then v
      else let rem = v mod align in if rem = 0 then v else v + (align - rem))"

text \<open>\<open>gu_elf_exec_ranges_destroy\<close> frees the array, if any, and empties the structure.\<close>

definition gu_elf_exec_ranges_destroy :: "gu_elf_exec_ranges option \<Rightarrow> gu_elf_exec_ranges option" where
  "gu_elf_exec_ranges_destroy ranges = (case ranges of None \<Rightarrow> None | Some _ \<Rightarrow> Some [])"

definition exec_load :: "gelf_phdr \<Rightarrow> bool" where
  "exec_load ph \<longleftrightarrow> p_type ph = PT_LOAD \<and> p_flags ph AND PF_X \<noteq> 0 \<and> p_memsz ph \<noteq> 0"

fun load_ranges :: "gelf_phdr option list \<Rightarrow> gu_elf_exec_ranges cres" where
  "load_ranges [] = Ok []"
| "load_ranges (None # phdrs) = Fail"
| "load_ranges (Some ph # phdrs) =
     (if \<not> exec_load ph then load_ranges phdrs
      else
        let s = align_down (p_vaddr ph) (p_align ph);
            e = align_up (p_vaddr ph + p_memsz ph) (p_align ph) in
        if e \<le> s then load_ranges phdrs
        else cbind (load_ranges phdrs) (\<lambda>rs.
          Ok (\<lparr>range_start = s, range_end = e, range_offset = align_down (p_offset ph) (p_align ph)\<rparr> # rs)))"

definition gu_elf_exec_ranges_load_from_elf :: "bool \<Rightarrow> elf_phdrs \<Rightarrow> gu_elf_exec_ranges cres" where
  "gu_elf_exec_ranges_load_from_elf calloc_ok elf =
     (case elf of
        None \<Rightarrow> Fail
      | Some phdrs \<Rightarrow> if \<not> calloc_ok then Fail else load_ranges phdrs)"

text \<open>
  \<open>gu_elf_exec_ranges_load\<close> with the handles it opens and closes. \<open>open_file\<close> and \<open>elf_begin\<close>
  are the system's and libelf's.
\<close>

datatype elf_handle = Open_Fd | Close_Fd | Elf_Begin | Elf_End

definition gu_elf_exec_ranges_load ::
  "bool \<Rightarrow> bool \<Rightarrow> (string \<Rightarrow> 'fd option) \<Rightarrow> ('fd \<Rightarrow> elf_phdrs option) \<Rightarrow> string \<Rightarrow>
     gu_elf_exec_ranges cres \<times> elf_handle list" where
  "gu_elf_exec_ranges_load version_ok calloc_ok open_file elf_begin path =
     (if \<not> version_ok then (Fail, [])
      else
        case open_file path of
          None \<Rightarrow> (Fail, [])
        | Some fd \<Rightarrow>
            (case elf_begin fd of
               None \<Rightarrow> (Fail, [Open_Fd, Close_Fd])
             | Some elf \<Rightarrow>
                 (gu_elf_exec_ranges_load_from_elf calloc_ok elf, [Open_Fd, Elf_Begin, Elf_End, Close_Fd])))"

definition gu_elf_exec_ranges_first_start :: "gu_elf_exec_ranges \<Rightarrow> u64" where
  "gu_elf_exec_ranges_first_start ranges = (case ranges of [] \<Rightarrow> 0 | r # _ \<Rightarrow> range_start r)"

fun find_range :: "gu_elf_exec_ranges \<Rightarrow> u64 \<Rightarrow> u64 \<Rightarrow> u64 option" where
  "find_range [] s e = None"
| "find_range (r # rs) s e =
     (if range_start r \<le> s \<and> e \<le> range_end r then Some s else find_range rs s e)"

definition gu_elf_exec_ranges_find :: "gu_elf_exec_ranges \<Rightarrow> u64 \<Rightarrow> u64 \<Rightarrow> u64 option" where
  "gu_elf_exec_ranges_find ranges s e = (if e \<le> s then None else find_range ranges s e)"

fun find_offset :: "gu_elf_exec_ranges \<Rightarrow> u64 \<Rightarrow> u64 \<Rightarrow> u64 option" where
  "find_offset [] off end_off = None"
| "find_offset (r # rs) off end_off =
     (if range_end r \<le> range_start r then find_offset rs off end_off
      else
        let range_size = range_end r - range_start r in
        if UINT64_MAX - range_size < range_offset r then find_offset rs off end_off
        else if range_offset r \<le> off \<and> end_off \<le> range_offset r + range_size
          then Some (range_start r + (off - range_offset r))
        else find_offset rs off end_off)"

definition gu_elf_exec_ranges_find_by_offset :: "gu_elf_exec_ranges \<Rightarrow> u64 \<Rightarrow> u64 \<Rightarrow> u64 option" where
  "gu_elf_exec_ranges_find_by_offset ranges off len =
     (if len = 0 then None
      else if UINT64_MAX - len < off then None
      else find_offset ranges off (off + len))"

subsection \<open>From program headers to ranges\<close>

definition range_of :: "gelf_phdr \<Rightarrow> gu_elf_exec_range" where
  "range_of ph = \<lparr>range_start = align_down (p_vaddr ph) (p_align ph),
     range_end = align_up (p_vaddr ph + p_memsz ph) (p_align ph),
     range_offset = align_down (p_offset ph) (p_align ph)\<rparr>"

lemma load_ranges_eq:
  "load_ranges phdrs = Ok rs \<Longrightarrow>
     rs = filter (\<lambda>r. range_start r < range_end r) (map range_of (filter exec_load (map the phdrs))) \<and>
     None \<notin> set phdrs"
  by (induction phdrs arbitrary: rs rule: load_ranges.induct)
     (auto simp: range_of_def Let_def cbind_eq_Ok not_le split: if_split_asm)

lemma align_down_eq_mod:
  fixes v w a :: u64
  assumes "v mod a = w mod a"
  shows "align_down v a - align_down w a = v - w"
  using assms by (simp add: align_down_def)

lemma find_offset_Some:
  assumes "find_offset rs off e = Some va"
  obtains r where "r \<in> set rs" "range_start r < range_end r" "range_offset r \<le> off"
    "range_offset r \<le> UINT64_MAX - (range_end r - range_start r)"
    "e \<le> range_offset r + (range_end r - range_start r)" "va = range_start r + (off - range_offset r)"
  using assms
  by (induction rs off e rule: find_offset.induct)
     (auto simp: Let_def not_le not_less split: if_split_asm)

lemma find_offset_None:
  "find_offset rs off e = None \<longleftrightarrow>
     (\<forall>r\<in>set rs. \<not> (range_start r < range_end r \<and>
        range_offset r \<le> UINT64_MAX - (range_end r - range_start r) \<and>
        range_offset r \<le> off \<and> e \<le> range_offset r + (range_end r - range_start r)))"
  by (induction rs off e rule: find_offset.induct) (auto simp: Let_def not_le not_less)

lemma add_no_wrap:
  fixes x n :: u64
  shows "x \<le> UINT64_MAX - n \<longleftrightarrow> unat x + unat n < 2 ^ 64"
proof -
  have "n \<le> UINT64_MAX" using unat_u64 [of n] by (simp add: word_le_nat_alt)
  then have "unat (UINT64_MAX - n) = 2 ^ 64 - 1 - unat n"
    by (simp add: unat_sub)
  then show ?thesis using unat_u64 [of n] by (simp add: word_le_nat_alt) linarith
qed

lemma unat_add_no_wrap: "unat (x :: u64) + unat n < 2 ^ 64 \<Longrightarrow> unat (x + n) = unat x + unat n"
  by (simp add: unat_word_ariths)

text \<open>
  The file range of a segment, after alignment, contains the \<open>len\<close> bytes at file offset \<open>off\<close>;
  the arithmetic is exact, on natural numbers.
\<close>

definition file_covers :: "gelf_phdr \<Rightarrow> u64 \<Rightarrow> u64 \<Rightarrow> bool" where
  "file_covers ph off len \<longleftrightarrow>
     (let r = range_of ph; range_size = unat (range_end r) - unat (range_start r) in
      unat (range_start r) < unat (range_end r) \<and> unat (range_offset r) + range_size < 2 ^ 64 \<and>
      unat (range_offset r) \<le> unat off \<and> unat off + unat len \<le> unat (range_offset r) + range_size)"

lemma file_covers_words:
  assumes "unat off + unat len < 2 ^ 64"
  shows "file_covers ph off len \<longleftrightarrow>
    (let r = range_of ph in
      range_start r < range_end r \<and> range_offset r \<le> UINT64_MAX - (range_end r - range_start r) \<and>
      range_offset r \<le> off \<and> off + len \<le> range_offset r + (range_end r - range_start r))"
proof -
  let ?r = "range_of ph"
  have e: "unat (off + len) = unat off + unat len" by (rule unat_add_no_wrap [OF assms])
  show ?thesis
  proof (cases "range_start ?r < range_end ?r")
    case True
    then have d: "unat (range_end ?r - range_start ?r) = unat (range_end ?r) - unat (range_start ?r)"
      by (simp add: unat_sub)
    note w = add_no_wrap [of "range_offset ?r" "range_end ?r - range_start ?r", unfolded d]
    show ?thesis
      unfolding file_covers_def Let_def w
      using True unat_add_no_wrap [of "range_offset ?r" "range_end ?r - range_start ?r"]
      by (auto simp: d e word_le_nat_alt word_less_nat_alt)
  next
    case False
    then show ?thesis by (simp add: file_covers_def Let_def word_less_nat_alt)
  qed
qed

lemma range_of_bias:
  assumes "p_vaddr ph mod p_align ph = p_offset ph mod p_align ph"
  shows "range_start (range_of ph) - range_offset (range_of ph) = p_vaddr ph - p_offset ph"
  using align_down_eq_mod [OF assms] by (simp add: range_of_def)

text \<open>
  C17. Resolving a file mapping against the executable segments of an image is exact. A mapping is
  resolved if and only if its bytes lie in the aligned file range of some executable segment; the
  address returned then lies inside that segment's aligned address range together with the whole
  mapping, and, for a segment that obeys the ELF alignment rule, it differs from the file offset
  by exactly the segment's own displacement, which is what makes the load bias right.
\<close>

theorem find_by_offset_exact:
  assumes "gu_elf_exec_ranges_load_from_elf calloc_ok (Some phdrs) = Ok ranges" "len \<noteq> 0"
  shows "case gu_elf_exec_ranges_find_by_offset ranges off len of
      None \<Rightarrow> \<not> (\<exists>ph. Some ph \<in> set phdrs \<and> exec_load ph \<and> file_covers ph off len)
    | Some va \<Rightarrow> \<exists>ph. Some ph \<in> set phdrs \<and> exec_load ph \<and> file_covers ph off len \<and>
        unat (range_start (range_of ph)) \<le> unat va \<and>
        unat va + unat len \<le> unat (range_end (range_of ph)) \<and>
        (p_vaddr ph mod p_align ph = p_offset ph mod p_align ph \<longrightarrow> va - off = p_vaddr ph - p_offset ph)"
proof -
  have "load_ranges phdrs = Ok ranges"
    using assms(1) by (simp add: gu_elf_exec_ranges_load_from_elf_def split: if_split_asm)
  then have rs: "ranges = filter (\<lambda>r. range_start r < range_end r) (map range_of (filter exec_load (map the phdrs)))"
      "None \<notin> set phdrs"
    using load_ranges_eq by blast+
  have mem: "r \<in> set ranges \<longleftrightarrow> (\<exists>ph. Some ph \<in> set phdrs \<and> exec_load ph \<and> r = range_of ph \<and> range_start r < range_end r)" for r
    using rs(2) unfolding rs(1) by (auto simp: image_iff) (metis option.collapse)+
  show ?thesis
  proof (cases "unat off + unat len < 2 ^ 64")
    case False
    then have "gu_elf_exec_ranges_find_by_offset ranges off len = None"
      using assms(2) by (simp add: gu_elf_exec_ranges_find_by_offset_def add_no_wrap not_le [symmetric])
    moreover have "\<not> file_covers ph off len" for ph
      using False by (auto simp: file_covers_def Let_def)
    ultimately show ?thesis by simp
  next
    case True
    then have find: "gu_elf_exec_ranges_find_by_offset ranges off len = find_offset ranges off (off + len)"
      using assms(2) by (simp add: gu_elf_exec_ranges_find_by_offset_def add_no_wrap not_le [symmetric])
    note cov = file_covers_words [OF True]
    show ?thesis
    proof (cases "find_offset ranges off (off + len)")
      case None
      then have "\<not> (\<exists>ph. Some ph \<in> set phdrs \<and> exec_load ph \<and> file_covers ph off len)"
        unfolding find_offset_None cov Let_def using mem by blast
      then show ?thesis unfolding find None by simp
    next
      case (Some va)
      then obtain r where r: "r \<in> set ranges" "range_start r < range_end r" "range_offset r \<le> off"
          "range_offset r \<le> UINT64_MAX - (range_end r - range_start r)"
          "off + len \<le> range_offset r + (range_end r - range_start r)"
          "va = range_start r + (off - range_offset r)"
        by (rule find_offset_Some)
      then obtain ph where ph: "Some ph \<in> set phdrs" "exec_load ph" "r = range_of ph" using mem by blast
      have c: "file_covers ph off len" using r ph(3) by (simp add: cov Let_def)
      have d: "unat (off - range_offset r) = unat off - unat (range_offset r)" using r(3) by (simp add: unat_sub)
      have lim: "unat (range_start r) + (unat off - unat (range_offset r)) + unat len \<le> unat (range_end r)"
        using c ph(3) by (auto simp: file_covers_def Let_def)
      then have "unat va = unat (range_start r) + (unat off - unat (range_offset r))"
        unfolding r(6) using unat_add_no_wrap [of "range_start r" "off - range_offset r"] unat_u64 [of "range_end r"] d
        by simp
      then have "unat (range_start r) \<le> unat va" "unat va + unat len \<le> unat (range_end r)" using lim by auto
      moreover have "va - off = range_start r - range_offset r" unfolding r(6) by simp
      ultimately show ?thesis
        unfolding find Some using ph c range_of_bias [of ph] by auto
    qed
  qed
qed

definition sample_phdrs :: "gelf_phdr option list" where
  "sample_phdrs =
     [Some \<lparr>p_type = 1, p_flags = 4, p_offset = 0, p_vaddr = 0x400000, p_memsz = 0x500, p_align = 0x1000\<rparr>,
      Some \<lparr>p_type = 1, p_flags = 5, p_offset = 0x1100, p_vaddr = 0x402100, p_memsz = 0x1e00, p_align = 0x1000\<rparr>]"

theorem find_by_offset_exact_witness:
  "\<exists>ranges. gu_elf_exec_ranges_load_from_elf True (Some sample_phdrs) = Ok ranges \<and>
     gu_elf_exec_ranges_find_by_offset ranges 0x1000 0x2000 = Some 0x402000 \<and>
     (\<exists>ph. Some ph \<in> set sample_phdrs \<and> exec_load ph \<and> file_covers ph 0x1000 0x2000)"
proof -
  let ?rs = "[\<lparr>range_start = 0x402000, range_end = 0x404000, range_offset = 0x1000\<rparr>]"
  have load: "gu_elf_exec_ranges_load_from_elf True (Some sample_phdrs) = Ok ?rs"
    by (simp add: gu_elf_exec_ranges_load_from_elf_def sample_phdrs_def exec_load_def align_down_def align_up_def Let_def)
  have find: "gu_elf_exec_ranges_find_by_offset ?rs 0x1000 0x2000 = Some 0x402000"
    by (simp add: gu_elf_exec_ranges_find_by_offset_def)
  show ?thesis
    using find_by_offset_exact [OF load, of "0x2000" "0x1000"] load find by auto
qed

end
