(* ===== verification/Cfi_Decode.thy ===== *)
theory Cfi_Decode
  imports Gu_Prelude
begin

text \<open>
  The bounded readers of \<open>src/gu_cfi_helper.c\<close> (lines 95-274): LEB128 numbers, the DW_EH_PE
  encodings, and the checks every later decoder goes through.

  A read pointer together with its \<open>end\<close> pointer is the list of bytes between them, so
  advancing the pointer drops a prefix and a read past \<open>end\<close> is \<open>Undef OutOfBounds\<close>.
  Encodings are the numbers of the DWARF and LSB standards, as \<open>dwarf.h\<close> of elfutils defines
  them. The left shift of the promoted \<open>int\<close> in \<open>decode_uleb128\<close> and the sign-extension shift
  in \<open>decode_sleb128\<close> are undefined outside the ranges ISO C allows (6.5.7), and the model
  says so.
\<close>

unbundle bit_operations_syntax

abbreviation (input) DW_EH_PE_absptr :: u8 where "DW_EH_PE_absptr \<equiv> 0x00"
abbreviation (input) DW_EH_PE_uleb128 :: u8 where "DW_EH_PE_uleb128 \<equiv> 0x01"
abbreviation (input) DW_EH_PE_udata2 :: u8 where "DW_EH_PE_udata2 \<equiv> 0x02"
abbreviation (input) DW_EH_PE_udata4 :: u8 where "DW_EH_PE_udata4 \<equiv> 0x03"
abbreviation (input) DW_EH_PE_udata8 :: u8 where "DW_EH_PE_udata8 \<equiv> 0x04"
abbreviation (input) DW_EH_PE_sleb128 :: u8 where "DW_EH_PE_sleb128 \<equiv> 0x09"
abbreviation (input) DW_EH_PE_sdata2 :: u8 where "DW_EH_PE_sdata2 \<equiv> 0x0a"
abbreviation (input) DW_EH_PE_sdata4 :: u8 where "DW_EH_PE_sdata4 \<equiv> 0x0b"
abbreviation (input) DW_EH_PE_sdata8 :: u8 where "DW_EH_PE_sdata8 \<equiv> 0x0c"
abbreviation (input) DW_EH_PE_pcrel :: u8 where "DW_EH_PE_pcrel \<equiv> 0x10"
abbreviation (input) DW_EH_PE_omit :: u8 where "DW_EH_PE_omit \<equiv> 0xff"

subsection \<open>LEB128\<close>

text \<open>
  One call of the loop is one pass of \<open>while (count < 8)\<close>, with the passes left as the first
  argument. \<open>(byte & 0x7F) << shift\<close> is an \<open>int\<close>: undefined for a shift of 32 or more and for a
  result that is not representable.
\<close>

fun uleb_loop :: "nat \<Rightarrow> nat \<Rightarrow> nat \<Rightarrow> u64 \<Rightarrow> bytes \<Rightarrow> (u64 \<times> nat) cres" where
  "uleb_loop 0 shift count result buffer = Ok (result, count)"
| "uleb_loop (Suc n) shift count result [] = Undef OutOfBounds"
| "uleb_loop (Suc n) shift count result (byte # buffer) =
     (if 32 \<le> shift then Undef ShiftTooFar
      else if 2 ^ 31 \<le> unat (byte AND 0x7f) * 2 ^ shift then Undef SignedOverflow
      else let result' = result OR push_bit shift (ucast (byte AND 0x7f)) in
        if byte AND 0x80 = 0 then Ok (result', Suc count)
        else uleb_loop n (shift + 7) (Suc count) result' buffer)"

definition decode_uleb128 :: "bytes \<Rightarrow> (u64 \<times> nat) cres" where
  "decode_uleb128 buffer = uleb_loop 8 0 0 0 buffer"

text \<open>The signed loop also hands back the last byte and shift, which the sign extension reads.\<close>

fun sleb_loop :: "nat \<Rightarrow> nat \<Rightarrow> nat \<Rightarrow> u64 \<Rightarrow> u8 \<Rightarrow> bytes \<Rightarrow> (u64 \<times> nat \<times> u8 \<times> nat) cres" where
  "sleb_loop 0 shift count result last_byte buffer = Ok (result, count, last_byte, shift)"
| "sleb_loop (Suc n) shift count result last_byte [] = Undef OutOfBounds"
| "sleb_loop (Suc n) shift count result last_byte (byte # buffer) =
     (if 64 \<le> shift then Undef ShiftTooFar
      else let result' = result OR push_bit shift (ucast (byte AND 0x7f)) in
        if byte AND 0x80 = 0 then Ok (result', Suc count, byte, shift)
        else sleb_loop n (shift + 7) (Suc count) result' byte buffer)"

definition decode_sleb128 :: "bytes \<Rightarrow> (u64 \<times> nat) cres" where
  "decode_sleb128 buffer =
     cbind (sleb_loop 10 0 0 0 0 buffer) (\<lambda>(result, count, byte, shift).
       if byte AND 0x40 \<noteq> 0 then
         (if 64 \<le> shift + 7 then Undef ShiftTooFar
          else Ok (result OR push_bit (shift + 7) (NOT 0), count))
       else Ok (result, count))"

subsection \<open>Encoded values\<close>

definition get_encoding_size :: "u8 \<Rightarrow> bytes \<Rightarrow> nat cres" where
  "get_encoding_size type test_buf =
     (if type = DW_EH_PE_omit then Ok 0
      else let t = type AND 0xf in
        if t = DW_EH_PE_uleb128 then cbind (decode_uleb128 test_buf) (\<lambda>(_, size). Ok size)
        else if t = DW_EH_PE_sleb128 then cbind (decode_sleb128 test_buf) (\<lambda>(_, size). Ok size)
        else if t = DW_EH_PE_udata2 \<or> t = DW_EH_PE_sdata2 then Ok 2
        else if t = DW_EH_PE_udata4 \<or> t = DW_EH_PE_sdata4 then Ok 4
        else if t = DW_EH_PE_udata8 \<or> t = DW_EH_PE_sdata8 then Ok 8
        else if t = DW_EH_PE_absptr then Ok 8
        else Ok 0)"

text \<open>A fixed-width load of \<open>n\<close> bytes, and the C conversions from the signed widths.\<close>

definition load_le :: "nat \<Rightarrow> bytes \<Rightarrow> (u64 \<times> bytes) cres" where
  "load_le n buf = (if n \<le> length buf then Ok (le_word (take n buf), drop n buf) else Undef OutOfBounds)"

definition sext16 :: "u64 \<Rightarrow> u64" where
  "sext16 w = scast (ucast w :: u16)"

definition sext32 :: "u64 \<Rightarrow> u64" where
  "sext32 w = scast (ucast w :: u32)"

definition map_fst_res :: "('a \<Rightarrow> 'a) \<Rightarrow> ('a \<times> 'b) cres \<Rightarrow> ('a \<times> 'b) cres" where
  "map_fst_res f m = cbind m (\<lambda>(v, r). Ok (f v, r))"

definition decode_read :: "bytes \<Rightarrow> u8 \<Rightarrow> (u64 \<times> bytes) cres" where
  "decode_read buf type =
     (let t = type AND 0xf in
      if t = DW_EH_PE_uleb128 then cbind (decode_uleb128 buf) (\<lambda>(v, size). Ok (v, drop size buf))
      else if t = DW_EH_PE_sleb128 then cbind (decode_sleb128 buf) (\<lambda>(v, size). Ok (v, drop size buf))
      else if t = DW_EH_PE_udata2 then load_le 2 buf
      else if t = DW_EH_PE_udata4 then load_le 4 buf
      else if t = DW_EH_PE_udata8 then load_le 8 buf
      else if t = DW_EH_PE_absptr then load_le 8 buf
      else if t = DW_EH_PE_sdata2 then map_fst_res sext16 (load_le 2 buf)
      else if t = DW_EH_PE_sdata4 then map_fst_res sext32 (load_le 4 buf)
      else if t = DW_EH_PE_sdata8 then load_le 8 buf
      else Fail)"

definition decode_read_fits :: "bytes \<Rightarrow> u8 \<Rightarrow> bool" where
  "decode_read_fits buf type =
     (let t = type AND 0xf in
      if t = DW_EH_PE_uleb128 then list_ex (\<lambda>b. b AND 0x80 = 0) (take 8 buf)
      else if t = DW_EH_PE_sleb128 then list_ex (\<lambda>b. b AND 0x80 = 0) (take 10 buf)
      else if t = DW_EH_PE_udata2 \<or> t = DW_EH_PE_sdata2 then 2 \<le> length buf
      else if t = DW_EH_PE_udata4 \<or> t = DW_EH_PE_sdata4 then 4 \<le> length buf
      else if t = DW_EH_PE_udata8 \<or> t = DW_EH_PE_sdata8 \<or> t = DW_EH_PE_absptr then 8 \<le> length buf
      else False)"

definition decode_read_checked :: "bytes \<Rightarrow> u8 \<Rightarrow> (u64 \<times> bytes) cres" where
  "decode_read_checked buf type =
     (if \<not> decode_read_fits buf type then Fail else decode_read buf type)"

definition block_fits :: "bytes \<Rightarrow> u64 \<Rightarrow> bool" where
  "block_fits data len \<longleftrightarrow> unat len \<le> length data"

subsection \<open>Bounds\<close>

abbreviation ends_within :: "nat \<Rightarrow> bytes \<Rightarrow> bool" where
  "ends_within n buf \<equiv> list_ex (\<lambda>b. b AND 0x80 = 0) (take n buf)"

lemma uleb_loop_count:
  "uleb_loop n shift count result buf = Ok (v, k) \<Longrightarrow>
   count \<le> k \<and> k \<le> count + n \<and> k - count \<le> length buf \<and> (n \<noteq> 0 \<longrightarrow> count < k)"
  by (induction n shift count result buf rule: uleb_loop.induct)
     (auto simp: Let_def split: if_splits)

lemma sleb_loop_count:
  "sleb_loop n shift count result b buf = Ok (v, k, b', s) \<Longrightarrow>
   count \<le> k \<and> k \<le> count + n \<and> k - count \<le> length buf \<and> (n \<noteq> 0 \<longrightarrow> count < k)"
  by (induction n shift count result b buf rule: sleb_loop.induct)
     (auto simp: Let_def split: if_splits)

lemma uleb_loop_in_bounds:
  "ends_within n buf \<Longrightarrow> uleb_loop n shift count result buf \<noteq> Undef OutOfBounds \<and>
     uleb_loop n shift count result buf \<noteq> Fail"
  by (induction n shift count result buf rule: uleb_loop.induct) (auto simp: Let_def)

lemma sleb_loop_in_bounds:
  "ends_within n buf \<Longrightarrow> sleb_loop n shift count result b buf \<noteq> Undef OutOfBounds \<and>
     sleb_loop n shift count result b buf \<noteq> Fail"
  by (induction n shift count result b buf rule: sleb_loop.induct) (auto simp: Let_def)

lemma decode_uleb128_count [decode_simps]:
  "decode_uleb128 buf = Ok (v, k) \<Longrightarrow> 0 < k \<and> k \<le> 8 \<and> k \<le> length buf"
  unfolding decode_uleb128_def by (drule uleb_loop_count) auto

lemma decode_sleb128_count [decode_simps]:
  "decode_sleb128 buf = Ok (v, k) \<Longrightarrow> 0 < k \<and> k \<le> 10 \<and> k \<le> length buf"
  unfolding decode_sleb128_def
  by (auto simp: cres_simps split: if_splits dest: sleb_loop_count)

lemma decode_uleb128_in_bounds:
  "ends_within 8 buf \<Longrightarrow> decode_uleb128 buf \<noteq> Undef OutOfBounds \<and> decode_uleb128 buf \<noteq> Fail"
  unfolding decode_uleb128_def by (rule uleb_loop_in_bounds)

lemma decode_sleb128_in_bounds:
  "ends_within 10 buf \<Longrightarrow> decode_sleb128 buf \<noteq> Undef OutOfBounds \<and> decode_sleb128 buf \<noteq> Fail"
  unfolding decode_sleb128_def using sleb_loop_in_bounds [of 10 buf 0 0 0 0]
  by (cases "sleb_loop 10 0 0 0 0 buf") (auto split: prod.splits)

lemma load_le_Ok: "load_le n buf = Ok (v, rest) \<longleftrightarrow> n \<le> length buf \<and> v = le_word (take n buf) \<and> rest = drop n buf"
  by (auto simp: load_le_def)

lemma map_fst_res_Ok: "map_fst_res f m = Ok (v, rest) \<longleftrightarrow> (\<exists>w. m = Ok (w, rest) \<and> v = f w)"
  by (auto simp: map_fst_res_def cres_simps)

abbreviation consumes :: "bytes \<Rightarrow> bytes \<Rightarrow> bool" where
  "consumes buf rest \<equiv> \<exists>k. 0 < k \<and> k \<le> 10 \<and> k \<le> length buf \<and> rest = drop k buf"

lemma consumes_load: "load_le n buf = Ok (v, rest) \<Longrightarrow> 0 < n \<Longrightarrow> n \<le> 10 \<Longrightarrow> consumes buf rest"
  by (auto simp: load_le_Ok)

lemma consumes_uleb:
  "cbind (decode_uleb128 buf) (\<lambda>(v, size). Ok (v, drop size buf)) = Ok (v, rest) \<Longrightarrow> consumes buf rest"
  by (auto simp: cres_simps dest!: decode_uleb128_count)

lemma consumes_sleb:
  "cbind (decode_sleb128 buf) (\<lambda>(v, size). Ok (v, drop size buf)) = Ok (v, rest) \<Longrightarrow> consumes buf rest"
  by (auto simp: cres_simps dest!: decode_sleb128_count)

lemma decode_read_consumes:
  assumes "decode_read buf type = Ok (v, rest)"
  shows "consumes buf rest"
  using assms unfolding decode_read_def Let_def map_fst_res_Ok
  by (auto simp only: map_fst_res_Ok split: if_splits
      elim!: consumes_load [rule_format] consumes_uleb consumes_sleb)

lemma decode_read_checked_consumes:
  assumes "decode_read_checked buf type = Ok (v, rest)"
  shows "\<exists>k. 0 < k \<and> k \<le> 10 \<and> k \<le> length buf \<and> rest = drop k buf"
  using assms decode_read_consumes by (auto simp: decode_read_checked_def split: if_splits)

lemma decode_read_checked_shorter:
  "decode_read_checked buf type = Ok (v, rest) \<Longrightarrow> length rest < length buf"
  by (drule decode_read_checked_consumes) auto

lemma decode_read_checked_in_bounds:
  "decode_read_checked buf type \<noteq> Undef OutOfBounds"
  unfolding decode_read_checked_def decode_read_def decode_read_fits_def Let_def
  using decode_uleb128_in_bounds [of buf] decode_sleb128_in_bounds [of buf]
  by (auto simp: cres_simps load_le_def map_fst_res_def)

subsection \<open>What can go wrong\<close>

text \<open>The only undefined outcomes of a checked read are those of the LEB128 shifts.\<close>

definition arith_undef :: "undef_kind \<Rightarrow> bool" where
  "arith_undef k \<longleftrightarrow> k = ShiftTooFar \<or> k = SignedOverflow"

lemma uleb_loop_kind: "uleb_loop n s c r buf = Undef k \<Longrightarrow> k = OutOfBounds \<or> arith_undef k"
  by (induction n s c r buf rule: uleb_loop.induct) (auto simp: Let_def arith_undef_def split: if_splits)

lemma sleb_loop_kind: "sleb_loop n s c r b buf = Undef k \<Longrightarrow> k = OutOfBounds \<or> arith_undef k"
  by (induction n s c r b buf rule: sleb_loop.induct) (auto simp: Let_def arith_undef_def split: if_splits)

lemma decode_read_kind: "decode_read buf t = Undef k \<Longrightarrow> k = OutOfBounds \<or> arith_undef k"
  unfolding decode_read_def decode_uleb128_def decode_sleb128_def map_fst_res_def load_le_def Let_def
  by (auto simp: cbind_eq_Undef arith_undef_def split: if_splits
      dest: uleb_loop_kind [unfolded arith_undef_def] sleb_loop_kind [unfolded arith_undef_def])

lemma decode_read_checked_kind: "decode_read_checked buf t = Undef k \<Longrightarrow> arith_undef k"
  using decode_read_checked_in_bounds [of buf t] decode_read_kind [of buf t k]
  by (auto simp: decode_read_checked_def split: if_splits)

text \<open>Rules that evaluate the readers on concrete bytes.\<close>

lemma uleb_loop_numeral:
  "uleb_loop (numeral v) shift count result (byte # buffer) =
     (if 32 \<le> shift then Undef ShiftTooFar
      else if 2 ^ 31 \<le> unat (byte AND 0x7f) * 2 ^ shift then Undef SignedOverflow
      else let result' = result OR push_bit shift (ucast (byte AND 0x7f)) in
        if byte AND 0x80 = 0 then Ok (result', Suc count)
        else uleb_loop (pred_numeral v) (shift + 7) (Suc count) result' buffer)"
  by (simp add: numeral_eq_Suc)

lemma sleb_loop_numeral:
  "sleb_loop (numeral v) shift count result last_byte (byte # buffer) =
     (if 64 \<le> shift then Undef ShiftTooFar
      else let result' = result OR push_bit shift (ucast (byte AND 0x7f)) in
        if byte AND 0x80 = 0 then Ok (result', Suc count, byte, shift)
        else sleb_loop (pred_numeral v) (shift + 7) (Suc count) result' byte buffer)"
  by (simp add: numeral_eq_Suc)

lemmas decode_eval = decode_read_checked_def decode_read_fits_def decode_read_def decode_uleb128_def
  decode_sleb128_def uleb_loop_numeral sleb_loop_numeral load_le_def map_fst_res_def block_fits_def
  mask_eq_exp_minus_1

subsection \<open>LEB128 against its definition\<close>

lemma byte_low: "(b :: u8) AND 0x7f = take_bit 7 b"
  by (simp add: take_bit_eq_mask mask_eq_exp_minus_1)

lemma byte_cont: "(b :: u8) AND 0x80 = 0 \<longleftrightarrow> \<not> bit b 7"
  using bit_iff_and_push_bit_not_eq_0 [of b 7] by simp

lemma byte_sign: "(b :: u8) AND 0x40 = 0 \<longleftrightarrow> \<not> bit b 6"
  using bit_iff_and_push_bit_not_eq_0 [of b 6] by simp

lemma or_shifted:
  fixes w :: u64
  assumes "a < 2 ^ s"
  shows "of_nat a OR push_bit s w = of_nat a + w * 2 ^ s"
proof -
  have "take_bit s a = a" using assms by (simp add: take_bit_nat_eq_self)
  then have "\<not> bit a n" if "s \<le> n" for n using that bit_take_bit_iff [of s a n] by simp
  then have "of_nat a + push_bit s w = of_nat a OR push_bit s w"
    by (intro disjunctive_add) (auto simp: bit_simps not_le)
  then show ?thesis by (simp add: push_bit_eq_mult)
qed

fun encode_uleb :: "nat \<Rightarrow> bytes" where
  "encode_uleb n = (if n < 128 then [of_nat n] else of_nat (n mod 128 + 128) # encode_uleb (n div 128))"

declare encode_uleb.simps [simp del]

lemma uleb_byte:
  assumes "m < 128"
  shows "(of_nat m :: u8) AND 0x7f = of_nat m" "(of_nat m :: u8) AND 0x80 = 0"
    "(of_nat m + 128 :: u8) AND 0x7f = of_nat m" "(of_nat m + 128 :: u8) AND 0x80 \<noteq> 0"
proof -
  have high: "(of_nat m + 128 :: u8) = of_nat (m + 128)" by simp
  have "(m + 128) div 128 = 1" using assms by (simp add: div_add_self2)
  then have odd: "bit (m + 128) 7" by (simp add: bit_iff_odd)
  show "(of_nat m :: u8) AND 0x7f = of_nat m" "(of_nat m :: u8) AND 0x80 = 0"
    "(of_nat m + 128 :: u8) AND 0x7f = of_nat m" "(of_nat m + 128 :: u8) AND 0x80 \<noteq> 0"
    unfolding byte_low byte_cont high using assms odd
    by (simp_all only: take_bit_of_nat bit_of_nat_iff)
       (simp_all add: take_bit_nat_eq_self take_bit_eq_mod bit_iff_odd)
qed

lemma unat_small_byte: "m < 128 \<Longrightarrow> unat (of_nat m :: u8) = m"
  by (simp add: unat_of_nat)

lemma ucast_small_byte: "m < 128 \<Longrightarrow> (ucast (of_nat m :: u8) :: u64) = of_nat m"
  by (metis unat_small_byte unsigned_def of_nat_unat)

lemma uleb_loop_encode:
  assumes "a < 2 ^ shift" "a + n * 2 ^ shift < 2 ^ 31" "shift < 32" "n < 128 ^ p" "0 < p"
  shows "uleb_loop p shift c (of_nat a) (encode_uleb n @ rest) =
    Ok (of_nat (a + n * 2 ^ shift), c + length (encode_uleb n))"
  using assms
proof (induction n arbitrary: p shift c a rule: encode_uleb.induct)
  case (1 n)
  then obtain q where p: "p = Suc q" by (cases p) auto
  let ?m = "n mod 128"
  have m: "?m * 2 ^ shift \<le> n * 2 ^ shift" by simp
  show ?case
  proof (cases "n < 128")
    case True
    then show ?thesis using 1
      by (subst (1 2) encode_uleb.simps)
         (simp add: p uleb_byte unat_small_byte ucast_small_byte or_shifted)
  next
    case False
    have eq: "a + ?m * 2 ^ shift + n div 128 * 2 ^ (shift + 7) = a + n * 2 ^ shift"
    proof -
      have "?m + 128 * (n div 128) = n" by simp
      then have "(?m + 128 * (n div 128)) * 2 ^ shift = n * 2 ^ shift" by simp
      then have "?m * 2 ^ shift + 128 * (n div 128) * 2 ^ shift = n * 2 ^ shift"
        by (simp only: distrib_right)
      then show ?thesis by (simp add: power_add ac_simps)
    qed
    have ge: "2 ^ (shift + 7) \<le> n * 2 ^ shift" using False by (simp add: power_add)
    then have sh: "shift + 7 < 32"
    proof -
      have "(2::nat) ^ (shift + 7) < 2 ^ 31" using ge 1(3) by linarith
      then show ?thesis using power_less_imp_less_exp [of "2::nat" "shift + 7" 31] by simp
    qed
    have lo: "a + ?m * 2 ^ shift < 2 ^ (shift + 7)"
    proof -
      have "?m \<le> 127" by simp
      then have "?m * 2 ^ shift \<le> 127 * 2 ^ shift" by (rule mult_right_mono) simp
      moreover have "(2::nat) ^ (shift + 7) = 128 * 2 ^ shift" by (simp add: power_add)
      ultimately show ?thesis using 1(2) by linarith
    qed
    have IH: "uleb_loop q (shift + 7) (Suc c) (of_nat (a + ?m * 2 ^ shift)) (encode_uleb (n div 128) @ rest)
        = Ok (of_nat (a + ?m * 2 ^ shift + n div 128 * 2 ^ (shift + 7)), Suc c + length (encode_uleb (n div 128)))"
      using False 1(3,5) lo sh p
      by (intro 1(1)) (auto simp: eq less_mult_imp_div_less intro: gr0I)
    moreover have "?m * 2 ^ shift < 2 ^ 31" using m 1(3) by linarith
    ultimately show ?thesis
      using False 1(2,4) unfolding eq
      by (subst (1 2) encode_uleb.simps)
         (simp add: p uleb_byte unat_small_byte ucast_small_byte or_shifted Let_def)
  qed
qed

lemma uleb_loop_too_big:
  assumes "2 ^ 31 \<le> n * 2 ^ shift" "n < 128 ^ p"
  shows "is_undef (uleb_loop p shift c r (encode_uleb n @ rest))"
  using assms
proof (induction n arbitrary: p shift c r rule: encode_uleb.induct)
  case (1 n)
  then obtain q where p: "p = Suc q" by (cases p) auto
  show ?case
  proof (cases "n < 128")
    case True
    then show ?thesis using 1
      by (subst encode_uleb.simps) (simp add: p uleb_byte unat_small_byte)
  next
    case False
    have "2 ^ 31 \<le> n div 128 * 2 ^ (shift + 7)" 
    proof (cases "shift \<le> 24")
      case True
      then have s: "(2::nat) ^ 31 = 2 ^ (24 - shift) * 128 * 2 ^ shift"
      proof -
        have "(2::nat) ^ 31 = 2 ^ ((24 - shift) + 7 + shift)" using True by simp
        then show ?thesis by (simp only: power_add) simp
      qed
      then have "2 ^ (24 - shift) * 128 * 2 ^ shift \<le> n * 2 ^ shift" using 1(2) by (simp only:)
      then have "2 ^ (24 - shift) * 128 \<le> n" by (rule mult_right_le_imp_le) simp
      then have "2 ^ (24 - shift) \<le> n div 128" by (simp add: less_eq_div_iff_mult_less_eq)
      then have "2 ^ (24 - shift) * (2 ^ shift * 128) \<le> n div 128 * (2 ^ shift * 128)" by (rule mult_right_mono) simp
      moreover have "(2::nat) ^ (shift + 7) = 2 ^ shift * 128" by (simp add: power_add)
      ultimately show ?thesis using s by (simp only: ac_simps)
    next
      case F: False
      then have "(2::nat) ^ 31 \<le> 2 ^ (shift + 7)" by (intro power_increasing) auto
      moreover have "1 \<le> n div 128" using False by simp
      ultimately show ?thesis by (metis mult_le_mono nat_mult_1)
    qed
    then have "is_undef (uleb_loop q (shift + 7) (Suc c) r' (encode_uleb (n div 128) @ rest))" for r'
      using False 1(3) p by (intro 1(1)) (auto simp: less_mult_imp_div_less)
    then show ?thesis
      using False by (subst encode_uleb.simps) (simp add: p uleb_byte unat_small_byte Let_def)
  qed
qed

lemma uleb_long:
  "128 ^ k \<le> n \<Longrightarrow> \<not> ends_within k (encode_uleb n @ rest)"
proof (induction k arbitrary: n)
  case 0
  show ?case by simp
next
  case (Suc k)
  have n: "\<not> n < 128" using Suc.prems order_trans [of 128 "128 ^ Suc k" n] by (simp add: not_less)
  have "128 ^ k \<le> n div 128" using Suc.prems by (simp add: less_eq_div_iff_mult_less_eq mult.commute)
  then have "\<not> ends_within k (encode_uleb (n div 128) @ rest)" by (rule Suc.IH)
  then show ?case using n by (subst encode_uleb.simps) (simp add: uleb_byte)
qed

lemma uleb_short: "n < 128 ^ k \<Longrightarrow> 0 < k \<Longrightarrow> ends_within k (encode_uleb n @ rest)"
proof (induction k arbitrary: n)
  case 0
  then show ?case by simp
next
  case (Suc k)
  show ?case
  proof (cases "n < 128")
    case True
    then show ?thesis by (subst encode_uleb.simps) (simp add: uleb_byte)
  next
    case False
    then have "0 < k" using Suc.prems by (cases k) auto
    then have "ends_within k (encode_uleb (n div 128) @ rest)"
      using Suc.prems by (intro Suc.IH) (simp_all add: less_mult_imp_div_less)
    then show ?thesis using False by (subst encode_uleb.simps) simp
  qed
qed

text \<open>
  C35. Reading the unsigned LEB128 encoding of a number: values below 2^31 come back exact with
  the pointer just past them; values from 2^31 up to 2^56 run into an undefined shift; longer
  encodings are rejected.
\<close>

theorem uleb128_read_roundtrip:
  "(n < 2 ^ 31 \<longrightarrow> decode_read_checked (encode_uleb n @ rest) DW_EH_PE_uleb128 = Ok (of_nat n, rest)) \<and>
   (2 ^ 31 \<le> n \<and> n < 2 ^ 56 \<longrightarrow> is_undef (decode_read_checked (encode_uleb n @ rest) DW_EH_PE_uleb128)) \<and>
   (2 ^ 56 \<le> n \<longrightarrow> decode_read_checked (encode_uleb n @ rest) DW_EH_PE_uleb128 = Fail)"
proof (intro conjI impI)
  have pow: "(128::nat) ^ 8 = 2 ^ 56" by simp
  have fits: "decode_read_fits (encode_uleb n @ rest) DW_EH_PE_uleb128 \<longleftrightarrow> n < 2 ^ 56"
    using uleb_short [of n 8 rest] uleb_long [of 8 n rest]
    unfolding pow decode_read_fits_def by (cases "n < 2 ^ 56") simp_all
  {
    assume n: "n < 2 ^ 31"
    then have "decode_uleb128 (encode_uleb n @ rest) = Ok (of_nat n, length (encode_uleb n))"
      using uleb_loop_encode [of 0 0 n 8 0 rest] by (simp add: decode_uleb128_def)
    then show "decode_read_checked (encode_uleb n @ rest) DW_EH_PE_uleb128 = Ok (of_nat n, rest)"
      using n fits by (simp add: decode_read_checked_def decode_read_def)
  next
    assume n: "2 ^ 31 \<le> n \<and> n < 2 ^ 56"
    then have "is_undef (decode_uleb128 (encode_uleb n @ rest))"
      using uleb_loop_too_big [of n 0 8 0 0 rest] by (simp add: decode_uleb128_def)
    then show "is_undef (decode_read_checked (encode_uleb n @ rest) DW_EH_PE_uleb128)"
      using n fits by (simp add: decode_read_checked_def decode_read_def is_undef_cbind)
  next
    assume "2 ^ 56 \<le> n"
    then show "decode_read_checked (encode_uleb n @ rest) DW_EH_PE_uleb128 = Fail"
      using fits by (simp add: decode_read_checked_def)
  }
qed

theorem uleb128_read_roundtrip_witness:
  "decode_read_checked ([0xe5, 0x8e, 0x26] @ [7, 9]) 0x01 = Ok (624485, [7, 9]) \<and>
   is_undef (decode_read_checked (encode_uleb (2 ^ 31) @ [7]) 0x01) \<and>
   decode_read_checked (encode_uleb (2 ^ 56) @ [7]) 0x01 = Fail"
proof -
  have "encode_uleb 624485 = [0xe5, 0x8e, 0x26]" by (simp add: encode_uleb.simps)
  then show ?thesis
    using uleb128_read_roundtrip [of 624485 "[7, 9]"] uleb128_read_roundtrip [of "2 ^ 31" "[7]"]
      uleb128_read_roundtrip [of "2 ^ 56" "[7]"]
    by simp
qed

text \<open>
  C36. The checked reader never reads past the end of its buffer, whatever the bytes and the
  encoding; when it succeeds it has consumed between one and ten bytes, all of them inside the
  buffer, and hands back the rest.
\<close>

theorem decode_read_checked_safe:
  "decode_read_checked buf type \<noteq> Undef OutOfBounds \<and>
   (\<forall>v rest. decode_read_checked buf type = Ok (v, rest) \<longrightarrow>
      (\<exists>k. 0 < k \<and> k \<le> 10 \<and> k \<le> length buf \<and> rest = drop k buf))"
  using decode_read_checked_in_bounds decode_read_checked_consumes by blast

theorem decode_read_checked_safe_witness:
  "\<exists>k. 0 < k \<and> k \<le> 10 \<and> k \<le> length [0x34, 0x12, 5 :: u8] \<and> [5] = drop k [0x34, 0x12, 5 :: u8]"
proof -
  have "decode_read_checked [0x34, 0x12, 5] 0x02 = Ok (0x1234, [5])"
    by (simp add: decode_read_checked_def decode_read_fits_def decode_read_def load_le_def)
  then show ?thesis using decode_read_checked_safe [of "[0x34, 0x12, 5]" "0x02"] by blast
qed

end
