(* ===== verification/Cfi_State.thy ===== *)
theory Cfi_State
  imports Cfi_Decode "HOL-Library.Sublist"
begin

text \<open>
  The call-frame instruction interpreter of \<open>src/gu_cfi_helper.c\<close> (lines 276-606) and its data
  (\<open>src/gu_cfi_helper.h\<close>): \<open>init_calc_ctx_by_ins\<close> runs the instructions of a CIE or an FDE on a
  rule context.

  \<^item> A pointer into the instructions is an \<open>ins_ptr\<close>: a byte position in \<open>cfi_data->d_buf\<close> or in
    the static array \<open>_default_init_cfi\<close>. The interpreter itself works on the bytes between
    \<open>ins\<close> and \<open>ins_end\<close>.
  \<^item> \<open>union cfa_data\<close> is kept as its words: the first is \<open>atom\<close> or \<open>length\<close>, the second \<open>number\<close>
    or the \<open>data\<close> pointer, so an instruction that writes one member through the other shows.
  \<^item> A register value is the 61-bit bit-field of the source.
  \<^item> The chain of saved contexts behind \<open>prev\<close> is a list, innermost first.
  \<^item> \<open>arch\<close> selects between the x86-64 and the \<open>GUNWINDER_ARM64\<close> build.
\<close>

unbundle bit_operations_syntax

subsection \<open>Registers\<close>

datatype arch = X86_64 | ARM64

fun reg_name_rsp :: "arch \<Rightarrow> int" where
  "reg_name_rsp X86_64 = 7"
| "reg_name_rsp ARM64 = 31"

fun reg_name_rbp :: "arch \<Rightarrow> int" where
  "reg_name_rbp X86_64 = 6"
| "reg_name_rbp ARM64 = 29"

fun reg_name_rip :: "arch \<Rightarrow> int" where
  "reg_name_rip X86_64 = 16"
| "reg_name_rip ARM64 = 32"

abbreviation reg_name_lr :: int where "reg_name_lr \<equiv> 30"

datatype cfi_reg_type = REG_TYPE_RIP | REG_TYPE_RBP | REG_TYPE_RSP | REG_TYPE_MAX

definition trans_reg_type :: "arch \<Rightarrow> int \<Rightarrow> cfi_reg_type" where
  "trans_reg_type a regno =
     (if regno = reg_name_rsp a then REG_TYPE_RSP
      else if a = ARM64 \<and> regno = reg_name_lr then REG_TYPE_RIP
      else if regno = reg_name_rip a then REG_TYPE_RIP
      else if regno = reg_name_rbp a then REG_TYPE_RBP
      else REG_TYPE_MAX)"

datatype dwarf_frame_rule =
  reg_unspecified | reg_undefined | reg_same_value | reg_offset | reg_val_offset | reg_register
| reg_expression | reg_val_expression

datatype dwarf_cfa_rule = cfa_undefined | cfa_offset | cfa_expr | cfa_invalid

record dwarf_frame_register =
  rule :: dwarf_frame_rule
  reg_value :: "61 word"

record frame_regs =
  rip_reg :: dwarf_frame_register
  rbp_reg :: dwarf_frame_register
  rsp_reg :: dwarf_frame_register

fun get_reg :: "cfi_reg_type \<Rightarrow> frame_regs \<Rightarrow> dwarf_frame_register option" where
  "get_reg REG_TYPE_RIP r = Some (rip_reg r)"
| "get_reg REG_TYPE_RBP r = Some (rbp_reg r)"
| "get_reg REG_TYPE_RSP r = Some (rsp_reg r)"
| "get_reg REG_TYPE_MAX r = None"

fun set_reg :: "cfi_reg_type \<Rightarrow> dwarf_frame_register \<Rightarrow> frame_regs \<Rightarrow> frame_regs" where
  "set_reg REG_TYPE_RIP v r = r\<lparr>rip_reg := v\<rparr>"
| "set_reg REG_TYPE_RBP v r = r\<lparr>rbp_reg := v\<rparr>"
| "set_reg REG_TYPE_RSP v r = r\<lparr>rsp_reg := v\<rparr>"
| "set_reg REG_TYPE_MAX v r = r"

subsection \<open>Contexts\<close>

datatype ins_ptr = Cfi_Data nat | Default_Cfi nat

text \<open>\<open>Dwarf_Op\<close> and the union it shares with \<open>Dwarf_Block\<close>.\<close>

record dwarf_op =
  atom :: u8
  number :: u64
  number2 :: u64
  op_offset :: u64

datatype union_word = Number u64 | Block_Data ins_ptr

record cfa_union =
  word0 :: u64
  word1 :: union_word
  cfa_number2 :: u64
  cfa_op_offset :: u64

record calc_rules =
  cfa_rule :: dwarf_cfa_rule
  cfa_data :: cfa_union
  regs :: frame_regs

record gu_cfi_calc_ctx = calc_rules +
  prev :: "calc_rules list"

record gu_cfi_cie =
  cie_offset :: u64
  code_alignment_factor :: u64
  data_alignment_factor :: u64
  return_address_register :: u64
  fde_augmentation_data_size :: u64
  initial_instructions :: ins_ptr
  initial_instructions_end :: ins_ptr
  fde_encoding :: u8
  lsda_encoding :: u8
  sized_augmentation_data :: bool
  signal_frame :: bool
  cie_calc_ctx :: gu_cfi_calc_ctx

record gu_cfi_fde =
  fde_cie :: "gu_cfi_cie option"
  fde_start :: u64
  fde_end :: u64
  instructions :: ins_ptr
  instructions_end :: ins_ptr

text \<open>The all-zero context a \<open>calloc\<close> or a static initialiser gives.\<close>

definition zero_reg :: dwarf_frame_register where
  "zero_reg = \<lparr>rule = reg_unspecified, reg_value = 0\<rparr>"

definition zero_ctx :: gu_cfi_calc_ctx where
  "zero_ctx = \<lparr>cfa_rule = cfa_undefined,
     cfa_data = \<lparr>word0 = 0, word1 = Number 0, cfa_number2 = 0, cfa_op_offset = 0\<rparr>,
     regs = \<lparr>rip_reg = zero_reg, rbp_reg = zero_reg, rsp_reg = zero_reg\<rparr>, prev = []\<rparr>"

subsection \<open>Instruction bytes\<close>

abbreviation (input) DW_OP_bregx :: u8 where "DW_OP_bregx \<equiv> 0x92"
abbreviation (input) DW_CFA_set_loc :: u8 where "DW_CFA_set_loc \<equiv> 0x01"
abbreviation (input) DW_CFA_advance_loc1 :: u8 where "DW_CFA_advance_loc1 \<equiv> 0x02"
abbreviation (input) DW_CFA_advance_loc2 :: u8 where "DW_CFA_advance_loc2 \<equiv> 0x03"
abbreviation (input) DW_CFA_advance_loc4 :: u8 where "DW_CFA_advance_loc4 \<equiv> 0x04"
abbreviation (input) DW_CFA_offset_extended :: u8 where "DW_CFA_offset_extended \<equiv> 0x05"
abbreviation (input) DW_CFA_restore_extended :: u8 where "DW_CFA_restore_extended \<equiv> 0x06"
abbreviation (input) DW_CFA_undefined :: u8 where "DW_CFA_undefined \<equiv> 0x07"
abbreviation (input) DW_CFA_same_value :: u8 where "DW_CFA_same_value \<equiv> 0x08"
abbreviation (input) DW_CFA_register :: u8 where "DW_CFA_register \<equiv> 0x09"
abbreviation (input) DW_CFA_remember_state :: u8 where "DW_CFA_remember_state \<equiv> 0x0a"
abbreviation (input) DW_CFA_restore_state :: u8 where "DW_CFA_restore_state \<equiv> 0x0b"
abbreviation (input) DW_CFA_def_cfa :: u8 where "DW_CFA_def_cfa \<equiv> 0x0c"
abbreviation (input) DW_CFA_def_cfa_register :: u8 where "DW_CFA_def_cfa_register \<equiv> 0x0d"
abbreviation (input) DW_CFA_def_cfa_offset :: u8 where "DW_CFA_def_cfa_offset \<equiv> 0x0e"
abbreviation (input) DW_CFA_def_cfa_expression :: u8 where "DW_CFA_def_cfa_expression \<equiv> 0x0f"
abbreviation (input) DW_CFA_expression :: u8 where "DW_CFA_expression \<equiv> 0x10"
abbreviation (input) DW_CFA_offset_extended_sf :: u8 where "DW_CFA_offset_extended_sf \<equiv> 0x11"
abbreviation (input) DW_CFA_def_cfa_sf :: u8 where "DW_CFA_def_cfa_sf \<equiv> 0x12"
abbreviation (input) DW_CFA_def_cfa_offset_sf :: u8 where "DW_CFA_def_cfa_offset_sf \<equiv> 0x13"
abbreviation (input) DW_CFA_val_offset :: u8 where "DW_CFA_val_offset \<equiv> 0x14"
abbreviation (input) DW_CFA_val_offset_sf :: u8 where "DW_CFA_val_offset_sf \<equiv> 0x15"
abbreviation (input) DW_CFA_val_expression :: u8 where "DW_CFA_val_expression \<equiv> 0x16"
abbreviation (input) DW_CFA_MIPS_advance_loc8 :: u8 where "DW_CFA_MIPS_advance_loc8 \<equiv> 0x1d"
abbreviation (input) DW_CFA_GNU_args_size :: u8 where "DW_CFA_GNU_args_size \<equiv> 0x2e"
abbreviation (input) DW_CFA_GNU_negative_offset_extended :: u8 where
  "DW_CFA_GNU_negative_offset_extended \<equiv> 0x2f"
abbreviation (input) DW_CFA_advance_loc :: u8 where "DW_CFA_advance_loc \<equiv> 0x40"
abbreviation (input) DW_CFA_offset :: u8 where "DW_CFA_offset \<equiv> 0x80"
abbreviation (input) DW_CFA_restore :: u8 where "DW_CFA_restore \<equiv> 0xc0"

fun default_init_cfi :: "arch \<Rightarrow> bytes" where
  "default_init_cfi X86_64 =
     [DW_CFA_def_cfa, 7, 8, DW_CFA_offset + 16, 1, DW_CFA_same_value, 6, DW_CFA_val_offset, 7, 0]"
| "default_init_cfi ARM64 = [DW_CFA_same_value, 6, DW_CFA_val_offset, 7, 0]"

subsection \<open>The interpreter\<close>

text \<open>
  \<open>ins_back\<close> is the pointer \<open>n\<close> bytes before \<open>p\<close>: with \<open>p\<close> the end of the window and \<open>n\<close> the
  bytes left, it is the current \<open>ins\<close>. \<open>data_offset\<close> is \<open>ins - d_buf\<close>.
\<close>

fun ins_back :: "ins_ptr \<Rightarrow> nat \<Rightarrow> ins_ptr" where
  "ins_back (Cfi_Data e) n = Cfi_Data (e - n)"
| "ins_back (Default_Cfi e) n = Default_Cfi (e - n)"

fun data_offset :: "ins_ptr \<Rightarrow> u64 cres" where
  "data_offset (Cfi_Data n) = Ok (of_nat n)"
| "data_offset (Default_Cfi n) = Undef WildPointer"

text \<open>The bytes between two pointers, in the section data \<open>buf\<close> or the static array.\<close>

fun ins_window :: "arch \<Rightarrow> bytes \<Rightarrow> ins_ptr \<Rightarrow> ins_ptr \<Rightarrow> bytes cres" where
  "ins_window a buf (Cfi_Data s) (Cfi_Data e) =
     (if e \<le> s then Ok [] else if e \<le> length buf then Ok (take (e - s) (drop s buf)) else Undef OutOfBounds)"
| "ins_window a buf (Default_Cfi s) (Default_Cfi e) =
     (if e \<le> s then Ok []
      else if e \<le> length (default_init_cfi a) then Ok (take (e - s) (drop s (default_init_cfi a)))
      else Undef OutOfBounds)"
| "ins_window a buf _ _ = Undef WildPointer"

text \<open>
  A step consumes the operands of one opcode and yields the context, the location, the bytes
  left, and whether control reaches the \<open>find_pc < loc\<close> test (\<open>break\<close>) or not (\<open>continue\<close>).
\<close>

type_synonym cfi_step_res = "(gu_cfi_calc_ctx \<times> u64 \<times> bytes \<times> bool) cres"

definition cfi_advance :: "gu_cfi_cie \<Rightarrow> gu_cfi_calc_ctx \<Rightarrow> u64 \<Rightarrow> u8 \<Rightarrow> bytes \<Rightarrow> cfi_step_res" where
  "cfi_advance cie ctx loc op ins =
     (if op = DW_CFA_advance_loc1 then
        (case ins of [] \<Rightarrow> Fail
         | b # ins' \<Rightarrow> Ok (ctx, loc + ucast b * code_alignment_factor cie, ins', True))
      else if op AND 0xc0 = DW_CFA_advance_loc then
        Ok (ctx, loc + ucast (op AND 0x3f) * code_alignment_factor cie, ins, True)
      else if op = DW_CFA_advance_loc2 then
        cbind (decode_read_checked ins DW_EH_PE_udata2) (\<lambda>(operand, ins').
          Ok (ctx, loc + operand * code_alignment_factor cie, ins', True))
      else if op = DW_CFA_advance_loc4 then
        cbind (decode_read_checked ins DW_EH_PE_udata4) (\<lambda>(operand, ins').
          Ok (ctx, loc + operand * code_alignment_factor cie, ins', True))
      else if op = DW_CFA_MIPS_advance_loc8 then
        cbind (decode_read_checked ins DW_EH_PE_udata8) (\<lambda>(operand, ins').
          Ok (ctx, loc + operand * code_alignment_factor cie, ins', True))
      else
        cbind (decode_read_checked ins (fde_encoding cie)) (\<lambda>(loc', ins').
          Ok (ctx, loc', ins', True)))"

definition set_cfa_offset :: "u64 \<Rightarrow> u64 \<Rightarrow> gu_cfi_calc_ctx \<Rightarrow> gu_cfi_calc_ctx" where
  "set_cfa_offset reg off ctx = ctx\<lparr>cfa_rule := cfa_offset,
     cfa_data := \<lparr>word0 = (word0 (cfa_data ctx) AND NOT 0xff) OR ucast DW_OP_bregx,
       word1 = Number reg, cfa_number2 = off, cfa_op_offset = 0\<rparr>\<rparr>"

definition cfi_def_cfa ::
  "gu_cfi_cie \<Rightarrow> ins_ptr \<Rightarrow> gu_cfi_calc_ctx \<Rightarrow> u64 \<Rightarrow> u8 \<Rightarrow> bytes \<Rightarrow> cfi_step_res" where
  "cfi_def_cfa cie ins_end ctx loc op ins =
     (if op = DW_CFA_def_cfa then
        cbind (decode_read_checked ins DW_EH_PE_uleb128) (\<lambda>(operand, ins').
        cbind (decode_read_checked ins' DW_EH_PE_uleb128) (\<lambda>(off, ins'').
          Ok (set_cfa_offset operand off ctx, loc, ins'', False)))
      else if op = DW_CFA_def_cfa_sf then
        cbind (decode_read_checked ins DW_EH_PE_uleb128) (\<lambda>(operand, ins').
        cbind (decode_read_checked ins' DW_EH_PE_sleb128) (\<lambda>(sf_off, ins'').
          Ok (set_cfa_offset operand (sf_off * data_alignment_factor cie) ctx, loc, ins'', False)))
      else if op = DW_CFA_def_cfa_register then
        cbind (decode_read_checked ins DW_EH_PE_uleb128) (\<lambda>(operand, ins').
          Ok (ctx\<lparr>cfa_data := (cfa_data ctx)\<lparr>word1 := Number operand\<rparr>\<rparr>, loc, ins', False))
      else if op = DW_CFA_def_cfa_offset then
        cbind (decode_read_checked ins DW_EH_PE_uleb128) (\<lambda>(off, ins').
          Ok (ctx\<lparr>cfa_data := (cfa_data ctx)\<lparr>cfa_number2 := off\<rparr>\<rparr>, loc, ins', False))
      else if op = DW_CFA_def_cfa_offset_sf then
        cbind (decode_read_checked ins DW_EH_PE_sleb128) (\<lambda>(sf_off, ins').
          Ok (ctx\<lparr>cfa_data := (cfa_data ctx)\<lparr>cfa_number2 := sf_off * data_alignment_factor cie\<rparr>\<rparr>,
              loc, ins', False))
      else
        cbind (decode_read_checked ins DW_EH_PE_uleb128) (\<lambda>(operand, ins').
          if \<not> block_fits ins' operand then Fail
          else Ok (ctx\<lparr>cfa_rule := cfa_expr,
                 cfa_data := (cfa_data ctx)\<lparr>word1 := Block_Data (ins_back ins_end (length ins')),
                                           word0 := operand\<rparr>\<rparr>,
               loc, drop (unat operand) ins', False)))"

text \<open>The common tail of the register instructions: unknown registers are skipped.\<close>

definition update_reg ::
  "arch \<Rightarrow> u64 \<Rightarrow> dwarf_frame_rule \<Rightarrow> u64 \<Rightarrow> gu_cfi_calc_ctx \<Rightarrow> gu_cfi_calc_ctx" where
  "update_reg a regno r v ctx =
     ctx\<lparr>regs := set_reg (trans_reg_type a (to_int regno)) \<lparr>rule = r, reg_value = ucast v\<rparr> (regs ctx)\<rparr>"

definition cfi_state_stack ::
  "arch \<Rightarrow> bool \<Rightarrow> gu_cfi_calc_ctx \<Rightarrow> u64 \<Rightarrow> u8 \<Rightarrow> bytes \<Rightarrow> cfi_step_res" where
  "cfi_state_stack a malloc_ok ctx loc op ins =
     (if op = DW_CFA_undefined then
        cbind (decode_read_checked ins DW_EH_PE_uleb128) (\<lambda>(regno, ins').
          Ok (update_reg a regno reg_undefined 0 ctx, loc, ins', False))
      else if op = DW_CFA_same_value then
        cbind (decode_read_checked ins DW_EH_PE_uleb128) (\<lambda>(regno, ins').
          Ok (update_reg a regno reg_same_value 0 ctx, loc, ins', False))
      else if op = DW_CFA_remember_state then
        (if malloc_ok then Ok (ctx\<lparr>prev := calc_rules.truncate ctx # prev ctx\<rparr>, loc, ins, False)
         else Fail)
      else
        (case prev ctx of
           [] \<Rightarrow> Fail
         | saved # rest \<Rightarrow> Ok (calc_rules.extend saved (gu_cfi_calc_ctx.fields rest), loc, ins, False)))"

definition cfi_reg_offset ::
  "arch \<Rightarrow> gu_cfi_cie \<Rightarrow> gu_cfi_calc_ctx \<Rightarrow> u64 \<Rightarrow> u8 \<Rightarrow> bytes \<Rightarrow> cfi_step_res" where
  "cfi_reg_offset a cie ctx loc op ins =
     (if op AND 0xc0 = DW_CFA_offset then
        cbind (decode_read_checked ins DW_EH_PE_uleb128) (\<lambda>(off, ins').
          Ok (update_reg a (ucast (op AND 0x3f)) reg_offset (off * data_alignment_factor cie) ctx,
              loc, ins', False))
      else if op = DW_CFA_offset_extended then
        cbind (decode_read_checked ins DW_EH_PE_uleb128) (\<lambda>(operand, ins').
        cbind (decode_read_checked ins' DW_EH_PE_uleb128) (\<lambda>(off, ins'').
          Ok (update_reg a operand reg_offset (off * data_alignment_factor cie) ctx, loc, ins'', False)))
      else if op = DW_CFA_offset_extended_sf then
        cbind (decode_read_checked ins DW_EH_PE_uleb128) (\<lambda>(operand, ins').
        cbind (decode_read_checked ins' DW_EH_PE_sleb128) (\<lambda>(sf_off, ins'').
          Ok (update_reg a operand reg_offset (sf_off * data_alignment_factor cie) ctx, loc, ins'', False)))
      else if op = DW_CFA_GNU_negative_offset_extended then
        cbind (decode_read_checked ins DW_EH_PE_uleb128) (\<lambda>(operand, ins').
        cbind (decode_read_checked ins' DW_EH_PE_uleb128) (\<lambda>(off, ins'').
          Ok (update_reg a operand reg_offset ((- off) * data_alignment_factor cie) ctx, loc, ins'', False)))
      else if op = DW_CFA_val_offset then
        cbind (decode_read_checked ins DW_EH_PE_uleb128) (\<lambda>(operand, ins').
        cbind (decode_read_checked ins' DW_EH_PE_uleb128) (\<lambda>(off, ins'').
          Ok (update_reg a operand reg_val_offset (off * data_alignment_factor cie) ctx, loc, ins'', False)))
      else
        cbind (decode_read_checked ins DW_EH_PE_uleb128) (\<lambda>(operand, ins').
        cbind (decode_read_checked ins' DW_EH_PE_sleb128) (\<lambda>(sf_off, ins'').
          Ok (update_reg a operand reg_val_offset (sf_off * data_alignment_factor cie) ctx, loc, ins'', False))))"

definition cfi_reg_other ::
  "arch \<Rightarrow> ins_ptr \<Rightarrow> gu_cfi_calc_ctx \<Rightarrow> u64 \<Rightarrow> u8 \<Rightarrow> bytes \<Rightarrow> cfi_step_res" where
  "cfi_reg_other a ins_end ctx loc op ins =
     (if op = DW_CFA_register then
        cbind (decode_read_checked ins DW_EH_PE_uleb128) (\<lambda>(regno, ins').
        cbind (decode_read_checked ins' DW_EH_PE_uleb128) (\<lambda>(operand, ins'').
          Ok (update_reg a regno reg_register operand ctx, loc, ins'', False)))
      else
        cbind (decode_read_checked ins DW_EH_PE_uleb128) (\<lambda>(regno, ins').
        cbind (data_offset (ins_back ins_end (length ins'))) (\<lambda>off.
        cbind (decode_read_checked ins' DW_EH_PE_uleb128) (\<lambda>(operand, ins'').
          if \<not> block_fits ins'' operand then Fail
          else Ok (update_reg a regno
                     (if op = DW_CFA_expression then reg_expression else reg_val_expression) off ctx,
                   loc, drop (unat operand) ins'', False)))))"

text \<open>\<open>restore\<close> takes a register back to what the CIE established; inside the CIE it does nothing.\<close>

definition restore_reg :: "arch \<Rightarrow> gu_cfi_cie \<Rightarrow> bool \<Rightarrow> u64 \<Rightarrow> gu_cfi_calc_ctx \<Rightarrow> gu_cfi_calc_ctx" where
  "restore_reg a cie in_cie operand ctx =
     (if in_cie then ctx
      else let t = trans_reg_type a (to_int operand) in
        (case get_reg t (regs (cie_calc_ctx cie)) of
           None \<Rightarrow> ctx
         | Some r \<Rightarrow> ctx\<lparr>regs := set_reg t r (regs ctx)\<rparr>))"

definition cfi_restore ::
  "arch \<Rightarrow> gu_cfi_cie \<Rightarrow> bool \<Rightarrow> gu_cfi_calc_ctx \<Rightarrow> u64 \<Rightarrow> u8 \<Rightarrow> bytes \<Rightarrow> cfi_step_res" where
  "cfi_restore a cie in_cie ctx loc op ins =
     (if op = DW_CFA_restore_extended then
        cbind (decode_read_checked ins DW_EH_PE_uleb128) (\<lambda>(operand, ins').
          Ok (restore_reg a cie in_cie operand ctx, loc, ins', False))
      else if op AND 0xc0 = DW_CFA_restore then
        Ok (restore_reg a cie in_cie (ucast (op AND 0x3f)) ctx, loc, ins, False)
      else if op = DW_CFA_GNU_args_size then
        cbind (decode_read_checked ins DW_EH_PE_uleb128) (\<lambda>(operand, ins'). Ok (ctx, loc, ins', False))
      else Ok (ctx, loc, ins, False))"

definition cfi_step ::
  "arch \<Rightarrow> bool \<Rightarrow> gu_cfi_cie \<Rightarrow> bool \<Rightarrow> ins_ptr \<Rightarrow> gu_cfi_calc_ctx \<Rightarrow> u64 \<Rightarrow> u8 \<Rightarrow> bytes \<Rightarrow> cfi_step_res" where
  "cfi_step a malloc_ok cie in_cie ins_end ctx loc op ins =
     (if op AND 0xc0 = DW_CFA_advance_loc \<or>
         op \<in> set [DW_CFA_advance_loc1, DW_CFA_advance_loc2, DW_CFA_advance_loc4,
                   DW_CFA_MIPS_advance_loc8, DW_CFA_set_loc]
      then cfi_advance cie ctx loc op ins
      else if op \<in> set [DW_CFA_def_cfa, DW_CFA_def_cfa_sf, DW_CFA_def_cfa_register,
                   DW_CFA_def_cfa_offset, DW_CFA_def_cfa_offset_sf, DW_CFA_def_cfa_expression]
      then cfi_def_cfa cie ins_end ctx loc op ins
      else if op \<in> set [DW_CFA_undefined, DW_CFA_same_value, DW_CFA_remember_state, DW_CFA_restore_state]
      then cfi_state_stack a malloc_ok ctx loc op ins
      else if op AND 0xc0 = DW_CFA_offset \<or>
         op \<in> set [DW_CFA_offset_extended, DW_CFA_offset_extended_sf,
                   DW_CFA_GNU_negative_offset_extended, DW_CFA_val_offset, DW_CFA_val_offset_sf]
      then cfi_reg_offset a cie ctx loc op ins
      else if op \<in> set [DW_CFA_register, DW_CFA_expression, DW_CFA_val_expression]
      then cfi_reg_other a ins_end ctx loc op ins
      else cfi_restore a cie in_cie ctx loc op ins)"

text \<open>Every group leaves at most the bytes it was given.\<close>

lemma decode_suffix: "decode_read_checked ins t = Ok (v, ins') \<Longrightarrow> suffix ins' ins"
  by (auto dest!: decode_read_checked_consumes simp: suffix_drop)

lemma decode_suffix_trans:
  "decode_read_checked ins t = Ok (v, ins') \<Longrightarrow> suffix zs ins' \<Longrightarrow> suffix zs ins"
  using decode_suffix suffix_order.trans by blast

lemmas group_defs = cfi_advance_def cfi_def_cfa_def cfi_state_stack_def cfi_reg_offset_def
  cfi_reg_other_def cfi_restore_def

lemma cfi_step_suffix:
  "cfi_step a m cie in_cie e ctx loc op ins = Ok (ctx', loc', ins', chk) \<Longrightarrow> suffix ins' ins"
  unfolding cfi_step_def group_defs
  by (auto simp: cbind_eq_Ok split: if_splits list.splits
      intro: decode_suffix_trans suffix_drop decode_suffix suffix_ConsI)
     (blast intro: decode_suffix_trans suffix_drop)+

function cfi_loop ::
  "arch \<Rightarrow> bool \<Rightarrow> gu_cfi_cie \<Rightarrow> bool \<Rightarrow> ins_ptr \<Rightarrow> u64 \<Rightarrow> gu_cfi_calc_ctx \<Rightarrow> u64 \<Rightarrow> bytes \<Rightarrow> gu_cfi_calc_ctx cres"
where
  "cfi_loop a malloc_ok cie in_cie ins_end find_pc ctx loc [] = Ok ctx"
| "cfi_loop a malloc_ok cie in_cie ins_end find_pc ctx loc (op # ins) =
     cbind (cfi_step a malloc_ok cie in_cie ins_end ctx loc op ins) (\<lambda>(ctx', loc', ins', chk).
       if chk \<and> find_pc < loc' then Ok ctx'
       else cfi_loop a malloc_ok cie in_cie ins_end find_pc ctx' loc' ins')"
  by pat_completeness auto
termination
  by (relation "measure (\<lambda>(a, m, cie, i, e, pc, ctx, loc, ins). length ins)")
     (auto dest!: cfi_step_suffix suffix_length_le)

definition init_calc_ctx_by_ins ::
  "arch \<Rightarrow> bool \<Rightarrow> bytes \<Rightarrow> gu_cfi_cie \<Rightarrow> gu_cfi_calc_ctx \<Rightarrow> ins_ptr \<Rightarrow> ins_ptr \<Rightarrow> u64 \<Rightarrow> u64 \<Rightarrow> gu_cfi_calc_ctx cres"
where
  "init_calc_ctx_by_ins a malloc_ok buf cie calc_ctx ins_start ins_end loc find_pc =
     cbind (ins_window a buf ins_start ins_end) (\<lambda>ins.
       cfi_loop a malloc_ok cie (ins_start = initial_instructions cie) ins_end find_pc calc_ctx loc ins)"

lemmas cfi_eval = decode_eval init_calc_ctx_by_ins_def cfi_step_def group_defs

subsection \<open>Memory safety of the interpreter\<close>

fun in_data :: "ins_ptr \<Rightarrow> bool" where
  "in_data (Cfi_Data n) = True"
| "in_data (Default_Cfi n) = False"

lemma data_offset_in_data: "in_data p \<Longrightarrow> data_offset (ins_back p n) \<noteq> Undef k"
  by (cases p) auto

lemma cfi_step_kind:
  assumes "in_data e" "cfi_step a m cie in_cie e ctx loc op ins = Undef k"
  shows "arith_undef k"
  using assms data_offset_in_data [OF assms(1)] unfolding cfi_step_def group_defs
  by (auto simp: cbind_eq_Undef split: if_splits list.splits dest: decode_read_checked_kind)

lemma cfi_loop_kind:
  "in_data e \<Longrightarrow> cfi_loop a m cie in_cie e pc ctx loc ins = Undef k \<Longrightarrow> arith_undef k"
  by (induction a m cie in_cie e pc ctx loc ins rule: cfi_loop.induct)
     (auto simp: cbind_eq_Undef split: if_splits dest: cfi_step_kind)

text \<open>
  C13. Running call-frame instructions that lie inside the section data never reads outside them
  and never follows a stray pointer, whatever the bytes: the only undefined outcomes are the
  LEB128 shifts. Every run ends.
\<close>

theorem init_calc_ctx_by_ins_safe:
  assumes "e \<le> length buf"
    and "init_calc_ctx_by_ins a m buf cie ctx (Cfi_Data s) (Cfi_Data e) loc find_pc = Undef k"
  shows "k = ShiftTooFar \<or> k = SignedOverflow"
  using assms cfi_loop_kind [of "Cfi_Data e"]
  by (auto simp: init_calc_ctx_by_ins_def cbind_eq_Undef arith_undef_def split: if_splits)

definition sample_cie :: gu_cfi_cie where
  "sample_cie = \<lparr>cie_offset = 0, code_alignment_factor = 1, data_alignment_factor = - 8,
     return_address_register = 16, fde_augmentation_data_size = 0,
     initial_instructions = Cfi_Data 0, initial_instructions_end = Cfi_Data 0,
     fde_encoding = 0x1b, lsda_encoding = 0xff, sized_augmentation_data = True,
     signal_frame = False, cie_calc_ctx = zero_ctx\<rparr>"

theorem init_calc_ctx_by_ins_safe_witness:
  "\<exists>k. init_calc_ctx_by_ins X86_64 True [0x0e, 0x80, 0x80, 0x80, 0x80, 0x08] sample_cie zero_ctx
      (Cfi_Data 0) (Cfi_Data 6) 0 0 = Undef k \<and> (k = ShiftTooFar \<or> k = SignedOverflow)"
proof -
  have "init_calc_ctx_by_ins X86_64 True [0x0e, 0x80, 0x80, 0x80, 0x80, 0x08] sample_cie zero_ctx
      (Cfi_Data 0) (Cfi_Data 6) 0 0 = Undef SignedOverflow"
    by (simp add: cfi_eval)
  then show ?thesis using init_calc_ctx_by_ins_safe [of 6 "[0x0e, 0x80, 0x80, 0x80, 0x80, 0x08]"] by force
qed

subsection \<open>Remember and restore\<close>

abbreviation rules_of :: "gu_cfi_calc_ctx \<Rightarrow> calc_rules" where
  "rules_of \<equiv> calc_rules.truncate"

lemma step_keeps_prev:
  assumes "op \<noteq> DW_CFA_remember_state" "op \<noteq> DW_CFA_restore_state"
    "cfi_step a m cie in_cie e ctx loc op ins = Ok (ctx', loc', ins', chk)"
  shows "prev ctx' = prev ctx"
  using assms unfolding cfi_step_def group_defs
  by (auto simp: cbind_eq_Ok set_cfa_offset_def update_reg_def restore_reg_def Let_def
      split: if_splits list.splits option.splits)

lemma step_remember:
  "cfi_step a True cie in_cie e ctx loc DW_CFA_remember_state ins =
     Ok (ctx\<lparr>prev := rules_of ctx # prev ctx\<rparr>, loc, ins, False)"
  by (simp add: cfi_step_def cfi_state_stack_def)

lemma step_restore:
  "cfi_step a m cie in_cie e ctx loc DW_CFA_restore_state ins =
     (case prev ctx of [] \<Rightarrow> Fail
      | saved # rest \<Rightarrow> Ok (calc_rules.extend saved (gu_cfi_calc_ctx.fields rest), loc, ins, False))"
  by (simp add: cfi_step_def cfi_state_stack_def)

text \<open>Runs in which every \<open>restore_state\<close> answers a \<open>remember_state\<close> of the same run.\<close>

inductive balanced_run ::
  "arch \<Rightarrow> gu_cfi_cie \<Rightarrow> bool \<Rightarrow> ins_ptr \<Rightarrow> gu_cfi_calc_ctx \<times> u64 \<times> bytes \<Rightarrow> gu_cfi_calc_ctx \<times> u64 \<times> bytes \<Rightarrow> bool"
  for a cie in_cie e
where
  stop: "balanced_run a cie in_cie e c c"
| plain: "op \<noteq> DW_CFA_remember_state \<Longrightarrow> op \<noteq> DW_CFA_restore_state \<Longrightarrow>
    cfi_step a True cie in_cie e ctx loc op ins = Ok (ctx', loc', ins', chk) \<Longrightarrow>
    balanced_run a cie in_cie e (ctx', loc', ins') c \<Longrightarrow>
    balanced_run a cie in_cie e (ctx, loc, op # ins) c"
| nested: "cfi_step a True cie in_cie e ctx loc DW_CFA_remember_state ins = Ok (ctx1, loc1, ins1, chk1) \<Longrightarrow>
    balanced_run a cie in_cie e (ctx1, loc1, ins1) (ctx2, loc2, DW_CFA_restore_state # ins2) \<Longrightarrow>
    cfi_step a True cie in_cie e ctx2 loc2 DW_CFA_restore_state ins2 = Ok (ctx3, loc3, ins3, chk3) \<Longrightarrow>
    balanced_run a cie in_cie e (ctx3, loc3, ins3) c \<Longrightarrow>
    balanced_run a cie in_cie e (ctx, loc, DW_CFA_remember_state # ins) c"

lemma balanced_prev: "balanced_run a cie in_cie e c c' \<Longrightarrow> prev (fst c') = prev (fst c)"
proof (induction rule: balanced_run.induct)
  case (plain op ctx loc ins ctx' loc' ins' chk c)
  then show ?case by (simp add: step_keeps_prev)
next
  case (nested ctx loc ins ctx1 loc1 ins1 chk1 ctx2 loc2 ins2 ctx3 loc3 ins3 chk3 c)
  then show ?case
    by (auto simp: step_remember step_restore gu_cfi_calc_ctx.defs calc_rules.defs)
qed simp

text \<open>
  C14. \<open>DW_CFA_restore_state\<close> undoes everything since its \<open>DW_CFA_remember_state\<close>: after a
  balanced run in between, the context is again exactly the one that was saved, the CFA rule,
  all register rules and the chain of older saved states included.
\<close>

theorem remember_restore_roundtrip:
  assumes "cfi_step a True cie in_cie e ctx loc DW_CFA_remember_state ins = Ok (ctx1, loc1, ins1, chk1)"
    and "balanced_run a cie in_cie e (ctx1, loc1, ins1) (ctx2, loc2, DW_CFA_restore_state # ins2)"
  shows "cfi_step a True cie in_cie e ctx2 loc2 DW_CFA_restore_state ins2 = Ok (ctx, loc2, ins2, False)"
  using assms balanced_prev [OF assms(2)]
  by (auto simp: step_remember step_restore gu_cfi_calc_ctx.defs calc_rules.defs)

theorem remember_restore_roundtrip_witness:
  "\<exists>ctx2. ctx2 \<noteq> zero_ctx \<and>
     cfi_step X86_64 True sample_cie False (Cfi_Data 4) zero_ctx 0 DW_CFA_remember_state [0x0c, 7, 8, 0x0b] =
       Ok (zero_ctx\<lparr>prev := [rules_of zero_ctx]\<rparr>, 0, [0x0c, 7, 8, 0x0b], False) \<and>
     cfi_step X86_64 True sample_cie False (Cfi_Data 4) ctx2 0 DW_CFA_restore_state [] = Ok (zero_ctx, 0, [], False)"
proof -
  define c1 where "c1 = zero_ctx\<lparr>prev := [rules_of zero_ctx]\<rparr>"
  define c2 where "c2 = set_cfa_offset 7 8 c1"
  have r: "cfi_step X86_64 True sample_cie False (Cfi_Data 4) zero_ctx 0 DW_CFA_remember_state [0x0c, 7, 8, 0x0b] =
       Ok (c1, 0, [0x0c, 7, 8, 0x0b], False)"
    unfolding c1_def by (simp add: cfi_eval zero_ctx_def)
  have "cfi_step X86_64 True sample_cie False (Cfi_Data 4) c1 0 0x0c [7, 8, 0x0b] = Ok (c2, 0, [0x0b], False)"
    unfolding c1_def c2_def by (simp add: cfi_eval)
  then have "balanced_run X86_64 sample_cie False (Cfi_Data 4) (c1, 0, [0x0c, 7, 8, 0x0b]) (c2, 0, [0x0b])"
    by (rule balanced_run.plain [rotated 2, OF _ balanced_run.stop]) simp_all
  then have "cfi_step X86_64 True sample_cie False (Cfi_Data 4) c2 0 DW_CFA_restore_state [] = Ok (zero_ctx, 0, [], False)"
    using remember_restore_roundtrip [OF r] by blast
  moreover have "c2 \<noteq> zero_ctx" unfolding c1_def c2_def by (simp add: set_cfa_offset_def zero_ctx_def)
  ultimately show ?thesis using r unfolding c1_def by blast
qed

end
