(* ===== verification/Interval_Array.thy ===== *)
theory Interval_Array
  imports Gu_Prelude "HOL-Library.Multiset"
begin

text \<open>
  \<open>src/gu_interval_array.h\<close> and \<open>src/gu_interval_array.c\<close>: the sorted, binary-searched index
  over half-open address intervals that holds a process's executable mappings, an ELF's
  symbols, an ELF's FDEs and the kernel symbols.

  A payload pointer is its 64-bit value, because the code keeps an ownership tag in bit 63.
  The two backing arrays are lists behind an option (None is the NULL pointer). The success
  of each \<open>calloc\<close> is an argument of \<open>gu_interval_array_init\<close>. The C library's \<open>qsort\<close> is
  modelled by a stable sort on the start; \<open>qsort_unique\<close> shows that when the starts are
  distinct every sort that meets the C standard gives the same array.
\<close>

subsection \<open>Data\<close>

record interval_array_item_u32 =
  start_u32 :: u32
  end_u32 :: u32
  private_u32 :: u64

record interval_array_item =
  ia_start :: u64
  ia_end :: u64
  ia_private :: u64

datatype interval_array_type = INTERVAL_ARRAY_TYPE_U32 | INTERVAL_ARRAY_TYPE_U64

record interval_array =
  items_u32 :: "interval_array_item_u32 list option"
  items_u64 :: "interval_array_item list option"
  ia_count :: int
  ia_type :: interval_array_type
  ia_min :: u64
  ia_max :: u64

subsection \<open>Ownership tags\<close>

definition mark_interval_array_pointer_no_free :: "u64 \<Rightarrow> u64" where
  "mark_interval_array_pointer_no_free p = (p OR push_bit 63 1)"

definition get_interval_array_pointer :: "u64 \<Rightarrow> u64 \<times> bool" where
  "get_interval_array_pointer p = (p AND NOT (push_bit 63 1), p AND push_bit 63 1 \<noteq> 0)"

subsection \<open>Building an array\<close>

definition compare_intervals :: "interval_array_item \<Rightarrow> interval_array_item \<Rightarrow> int" where
  "compare_intervals a b =
     of_bool (ia_start a > ia_start b) - of_bool (ia_start a < ia_start b)"

definition clear_interval_array_item :: "interval_array_item option \<Rightarrow> interval_array_item option"
  where
  "clear_interval_array_item item =
     map_option (\<lambda>_. \<lparr>ia_start = 0, ia_end = 0, ia_private = 0\<rparr>) item"

definition qsort_items :: "interval_array_item list \<Rightarrow> interval_array_item list" where
  "qsort_items items = sort_key ia_start items"

fun fill_ends :: "interval_array_item list \<Rightarrow> interval_array_item list" where
  "fill_ends [] = []"
| "fill_ends [x] =
     [if ia_end x = 0
      then (if ia_start x < UINT32_MAX then x\<lparr>ia_end := UINT32_MAX - 1\<rparr>
            else x\<lparr>ia_end := UINT64_MAX - 1\<rparr>)
      else x]"
| "fill_ends (x # y # rest) =
     (if ia_end x = 0 then x\<lparr>ia_end := ia_start y\<rparr> else x) # fill_ends (y # rest)"

definition narrow_item :: "interval_array_item \<Rightarrow> interval_array_item_u32" where
  "narrow_item it =
     \<lparr>start_u32 = ucast (ia_start it), end_u32 = ucast (ia_end it), private_u32 = ia_private it\<rparr>"

definition gu_interval_array_init ::
    "bool \<Rightarrow> bool \<Rightarrow> interval_array_item list \<Rightarrow> interval_array option \<times> interval_array_item list"
  where
  "gu_interval_array_init calloc_array calloc_items items =
     (if items = [] then (None, items)
      else if \<not> calloc_array then (None, items)
      else let xs = fill_ends (qsort_items items) in
        if ia_end (last xs) < UINT32_MAX then
          (if \<not> calloc_items then (None, xs)
           else let ys = map narrow_item xs in
             (Some \<lparr>items_u32 = Some ys, items_u64 = None, ia_count = int (length items),
                    ia_type = INTERVAL_ARRAY_TYPE_U32,
                    ia_min = ucast (start_u32 (hd ys)), ia_max = ucast (end_u32 (last ys))\<rparr>, xs))
        else
          (if \<not> calloc_items then (None, xs)
           else (Some \<lparr>items_u32 = None, items_u64 = Some xs, ia_count = int (length items),
                       ia_type = INTERVAL_ARRAY_TYPE_U64,
                       ia_min = ia_start (hd xs), ia_max = ia_end (last xs)\<rparr>, xs)))"

subsection \<open>Visiting and destroying\<close>

text \<open>The visitor loop over one backing array, and the two loops in the order of the code.\<close>

definition visit_payloads :: "(u64 \<Rightarrow> 's \<Rightarrow> 's) \<Rightarrow> u64 list \<Rightarrow> 's \<Rightarrow> 's" where
  "visit_payloads func ps s =
     fold (\<lambda>p s. if p \<noteq> 0 then func (fst (get_interval_array_pointer p)) s else s) ps s"

definition gu_interval_array_for_each_private ::
    "interval_array option \<Rightarrow> (u64 \<Rightarrow> 's \<Rightarrow> 's) \<Rightarrow> 's \<Rightarrow> 's" where
  "gu_interval_array_for_each_private array func s =
     (case array of None \<Rightarrow> s
      | Some arr \<Rightarrow>
          let s' = (case items_u32 arr of None \<Rightarrow> s
                    | Some xs \<Rightarrow> visit_payloads func (map private_u32 xs) s)
          in (case items_u64 arr of None \<Rightarrow> s'
              | Some xs \<Rightarrow> visit_payloads func (map ia_private xs) s'))"

text \<open>Destroying an array is the sequence of payload pointers it passes to \<open>free\<close>.\<close>

fun freed_payloads :: "u64 list \<Rightarrow> u64 list" where
  "freed_payloads [] = []"
| "freed_payloads (p # ps) =
     (if p \<noteq> 0 then
        (let (ptr, no_free) = get_interval_array_pointer p in
         if \<not> no_free then ptr # freed_payloads ps else freed_payloads ps)
      else freed_payloads ps)"

definition gu_interval_array_destroy :: "interval_array option \<Rightarrow> u64 list" where
  "gu_interval_array_destroy array =
     (case array of None \<Rightarrow> []
      | Some arr \<Rightarrow>
          (case items_u32 arr of None \<Rightarrow> [] | Some xs \<Rightarrow> freed_payloads (map private_u32 xs)) @
          (case items_u64 arr of None \<Rightarrow> [] | Some xs \<Rightarrow> freed_payloads (map ia_private xs)))"

subsection \<open>Searching\<close>

text \<open>
  The binary search over either backing array: the bounds of the probed item come from the
  accessors \<open>st\<close> and \<open>en\<close>, widened to 64 bits as the comparison in C widens them.
\<close>

function search_loop ::
    "('i \<Rightarrow> u64) \<Rightarrow> ('i \<Rightarrow> u64) \<Rightarrow> 'i list \<Rightarrow> u64 \<Rightarrow> int \<Rightarrow> int \<Rightarrow> int option" where
  "search_loop st en xs addr left right =
     (if left \<le> right then
        (let mid = left + (right - left) div 2; it = xs ! nat mid in
         if addr \<ge> st it \<and> addr < en it then Some mid
         else if addr < st it then search_loop st en xs addr left (mid - 1)
         else search_loop st en xs addr (mid + 1) right)
      else None)"
  by pat_completeness auto
termination
  by (relation "measure (\<lambda>(st, en, xs, addr, left, right). nat (right - left + 1))")
     (auto simp: Let_def)

declare search_loop.simps [simp del]

definition gu_interval_array_search_aux ::
    "interval_array option \<Rightarrow> u64 \<Rightarrow> interval_array_item option \<Rightarrow> bool
     \<Rightarrow> int \<times> interval_array_item option \<times> interval_array option" where
  "gu_interval_array_search_aux array addr item set_no_free =
     (case (array, item) of
        (Some arr, Some it0) \<Rightarrow>
          (if ia_count arr \<le> 0 \<or> (items_u32 arr = None \<and> items_u64 arr = None)
           then (-1, clear_interval_array_item item, array)
           else if addr < ia_min arr \<or> addr > ia_max arr
           then (-1, clear_interval_array_item item, array)
           else
             (case ia_type arr of
                INTERVAL_ARRAY_TYPE_U32 \<Rightarrow>
                  (let xs = the (items_u32 arr) in
                   case search_loop (ucast \<circ> start_u32) (ucast \<circ> end_u32) xs addr 0 (ia_count arr - 1) of
                     Some mid \<Rightarrow>
                       (let it = xs ! nat mid; (ptr, no_free) = get_interval_array_pointer (private_u32 it) in
                        (mid,
                         Some \<lparr>ia_start = ucast (start_u32 it), ia_end = ucast (end_u32 it), ia_private = ptr\<rparr>,
                         Some (if set_no_free \<and> \<not> no_free
                               then arr\<lparr>items_u32 := Some (xs[nat mid :=
                                      it\<lparr>private_u32 := mark_interval_array_pointer_no_free (private_u32 it)\<rparr>])\<rparr>
                               else arr)))
                   | None \<Rightarrow> (-1, clear_interval_array_item item, array))
              | INTERVAL_ARRAY_TYPE_U64 \<Rightarrow>
                  (let xs = the (items_u64 arr) in
                   case search_loop ia_start ia_end xs addr 0 (ia_count arr - 1) of
                     Some mid \<Rightarrow>
                       (let it = xs ! nat mid; (ptr, no_free) = get_interval_array_pointer (ia_private it) in
                        (mid,
                         Some \<lparr>ia_start = ia_start it, ia_end = ia_end it, ia_private = ptr\<rparr>,
                         Some (if set_no_free \<and> \<not> no_free
                               then arr\<lparr>items_u64 := Some (xs[nat mid :=
                                      it\<lparr>ia_private := mark_interval_array_pointer_no_free (ia_private it)\<rparr>])\<rparr>
                               else arr)))
                   | None \<Rightarrow> (-1, clear_interval_array_item item, array))))
      | _ \<Rightarrow> (-1, clear_interval_array_item item, array))"

definition gu_interval_array_search ::
    "interval_array option \<Rightarrow> u64 \<Rightarrow> interval_array_item option \<Rightarrow> int \<times> interval_array_item option"
  where
  "gu_interval_array_search array addr item =
     (let (ret, out, _) = gu_interval_array_search_aux array addr item False in (ret, out))"

definition gu_interval_array_search_set_no_free ::
    "interval_array option \<Rightarrow> u64 \<Rightarrow> interval_array_item option
     \<Rightarrow> int \<times> interval_array_item option \<times> interval_array option" where
  "gu_interval_array_search_set_no_free array addr item =
     gu_interval_array_search_aux array addr item True"

subsection \<open>Tags and sorting\<close>

lemma get_interval_array_pointer_eq:
  "get_interval_array_pointer p = (unset_bit 63 p, bit p 63)"
  unfolding get_interval_array_pointer_def unset_bit_def
  by (simp only: bit_iff_and_push_bit_not_eq_0)

lemma mark_interval_array_pointer_eq:
  "mark_interval_array_pointer_no_free p = set_bit 63 p"
  by (simp only: mark_interval_array_pointer_no_free_def set_bit_def)

lemmas tag_eqs = get_interval_array_pointer_eq mark_interval_array_pointer_eq

lemma get_mark [simp]:
  "get_interval_array_pointer (mark_interval_array_pointer_no_free p) =
     (fst (get_interval_array_pointer p), True)"
  by (auto simp: tag_eqs bit_simps intro: bit_word_eqI)

lemma get_plain [simp]: "\<not> bit p 63 \<Longrightarrow> get_interval_array_pointer p = (p, False)"
  by (auto simp: tag_eqs bit_simps intro!: bit_word_eqI)

lemma get_idem: "fst (get_interval_array_pointer (fst (get_interval_array_pointer p))) =
    fst (get_interval_array_pointer p)"
  by (auto simp: tag_eqs bit_simps intro!: bit_word_eqI)

lemma mark_nonzero [simp]: "mark_interval_array_pointer_no_free p \<noteq> 0"
proof -
  have "bit (mark_interval_array_pointer_no_free p) 63" by (simp add: tag_eqs bit_simps)
  then show ?thesis by auto
qed

lemma compare_intervals_le: "compare_intervals a b \<le> 0 \<longleftrightarrow> ia_start a \<le> ia_start b"
  by (auto simp: compare_intervals_def)

lemma qsort_unique:
  assumes "mset ys = mset items"
    and "sorted_wrt (\<lambda>a b. compare_intervals a b \<le> 0) ys"
    and "distinct (map ia_start items)"
  shows "ys = qsort_items items"
proof (rule map_inj_on)
  have set_eq: "set ys = set items" "mset (map ia_start ys) = mset (map ia_start items)"
    using assms(1) by (auto dest: mset_eq_setD)
  have "distinct (map ia_start ys)"
    using set_eq(2) assms(3) by (metis mset_eq_imp_distinct_iff)
  moreover have "distinct (map ia_start (qsort_items items))"
    using assms(3) unfolding qsort_items_def
    by (metis mset_eq_imp_distinct_iff mset_map mset_sort)
  moreover have "sorted (map ia_start ys)"
    using assms(2) by (simp add: sorted_map compare_intervals_le)
  ultimately show "map ia_start ys = map ia_start (qsort_items items)"
    by (intro sorted_distinct_set_unique) (simp_all add: qsort_items_def set_eq)
  show "inj_on ia_start (set ys \<union> set (qsort_items items))"
    using assms(3) set_eq by (simp add: qsort_items_def distinct_map)
qed

subsection \<open>The search loop\<close>

definition covers :: "('i \<Rightarrow> u64) \<Rightarrow> ('i \<Rightarrow> u64) \<Rightarrow> 'i \<Rightarrow> u64 \<Rightarrow> bool" where
  "covers st en it addr \<longleftrightarrow> st it \<le> addr \<and> addr < en it"

lemma search_loop_step:
  assumes "left \<le> right" "mid = left + (right - left) div 2"
  shows "search_loop st en xs addr left right =
     (if covers st en (xs ! nat mid) addr then Some mid
      else if addr < st (xs ! nat mid) then search_loop st en xs addr left (mid - 1)
      else search_loop st en xs addr (mid + 1) right)"
  using assms by (subst search_loop.simps) (auto simp: Let_def covers_def)

lemma search_loop_empty: "right < left \<Longrightarrow> search_loop st en xs addr left right = None"
  by (subst search_loop.simps) simp

text \<open>Induction over the shrinking window, in terms of the probe index.\<close>

lemma window_induct [case_names Empty Probe]:
  fixes left right :: int
  assumes "\<And>left right. right < left \<Longrightarrow> P left right"
    and "\<And>left right mid. left \<le> mid \<Longrightarrow> mid \<le> right \<Longrightarrow> mid = left + (right - left) div 2 \<Longrightarrow>
           P left (mid - 1) \<Longrightarrow> P (mid + 1) right \<Longrightarrow> P left right"
  shows "P left right"
proof (induction "nat (right - left + 1)" arbitrary: left right rule: less_induct)
  case less
  show ?case
  proof (cases "left \<le> right")
    case False
    then show ?thesis by (intro assms(1)) simp
  next
    case True
    define mid where "mid = left + (right - left) div 2"
    have mid: "left \<le> mid" "mid \<le> right" using True by (auto simp: mid_def)
    show ?thesis
      by (rule assms(2) [OF mid mid_def]; rule less) (use mid in auto)
  qed
qed

lemma search_loop_sound:
  "search_loop st en xs addr left right = Some i \<Longrightarrow>
   left \<le> i \<and> i \<le> right \<and> covers st en (xs ! nat i) addr"
proof (induction left right rule: window_induct)
  case (Empty left right)
  then show ?case by (simp add: search_loop_empty)
next
  case (Probe left right mid)
  then show ?case
    by (auto simp: search_loop_step [OF _ Probe(3)] split: if_splits)
qed

definition disjoint_sorted :: "('i \<Rightarrow> u64) \<Rightarrow> ('i \<Rightarrow> u64) \<Rightarrow> 'i list \<Rightarrow> bool" where
  "disjoint_sorted st en xs \<longleftrightarrow>
     sorted_wrt (\<lambda>a b. en a \<le> st b) xs \<and> (\<forall>x\<in>set xs. st x \<le> en x)"

lemma disjoint_sorted_nth:
  assumes "disjoint_sorted st en xs" "i < j" "j < length xs"
  shows "st (xs ! i) \<le> en (xs ! i)" "en (xs ! i) \<le> st (xs ! j)" "st (xs ! j) \<le> en (xs ! j)"
  using assms by (auto simp: disjoint_sorted_def sorted_wrt_iff_nth_less)

lemma search_loop_complete:
  assumes ds: "disjoint_sorted st en xs"
  shows "0 \<le> left \<Longrightarrow> right < int (length xs) \<Longrightarrow> left \<le> j \<Longrightarrow> j \<le> right \<Longrightarrow>
    covers st en (xs ! nat j) addr \<Longrightarrow> search_loop st en xs addr left right = Some j"
proof (induction left right rule: window_induct)
  case (Empty left right)
  then show ?case by simp
next
  case (Probe left right mid)
  note step = search_loop_step [OF _ Probe(3)]
  consider "j = mid" | "j < mid" | "mid < j" by linarith
  then show ?case
  proof cases
    case 1
    then show ?thesis using Probe by (simp add: step)
  next
    case 2
    then have "en (xs ! nat j) \<le> st (xs ! nat mid)"
      using Probe by (intro disjoint_sorted_nth(2) [OF ds]) auto
    then have "addr < st (xs ! nat mid)" using Probe.prems by (auto simp: covers_def)
    then show ?thesis using 2 Probe by (auto simp: step covers_def)
  next
    case 3
    then have "en (xs ! nat mid) \<le> st (xs ! nat j)" "st (xs ! nat mid) \<le> en (xs ! nat mid)"
      using Probe by (auto intro!: disjoint_sorted_nth(1,2) [OF ds])
    then have "\<not> addr < en (xs ! nat mid)" "\<not> addr < st (xs ! nat mid)"
      using Probe.prems by (auto simp: covers_def)
    then show ?thesis using 3 Probe by (auto simp: step covers_def)
  qed
qed

lemma search_loop_in_bounds:
  assumes "0 \<le> left" "right < int (length xs)"
  shows "search_loop st en (xs @ ys) addr left right = search_loop st en xs addr left right"
  using assms
proof (induction left right rule: window_induct)
  case (Empty left right)
  then show ?case by (simp add: search_loop_empty)
next
  case (Probe left right mid)
  then have "nat mid < length xs" by linarith
  then have "(xs @ ys) ! nat mid = xs ! nat mid" by (simp add: nth_append)
  with Probe show ?case by (simp add: search_loop_step [OF _ Probe(3)])
qed

lemma search_loop_map:
  assumes "0 \<le> left" "right < int (length xs)"
  shows "search_loop st en (map f xs) addr left right = search_loop (st \<circ> f) (en \<circ> f) xs addr left right"
  using assms
proof (induction left right rule: window_induct)
  case (Empty left right)
  then show ?case by (simp add: search_loop_empty)
next
  case (Probe left right mid)
  then have "nat mid < length xs" "left \<le> right" by linarith+
  with Probe(1,2,4-) show ?case by (auto simp: search_loop_step [OF _ Probe(3)] covers_def)
qed

subsection \<open>Arrays as interval lists\<close>

definition widen_item :: "interval_array_item_u32 \<Rightarrow> interval_array_item" where
  "widen_item it =
     \<lparr>ia_start = ucast (start_u32 it), ia_end = ucast (end_u32 it), ia_private = private_u32 it\<rparr>"

definition array_view :: "interval_array \<Rightarrow> interval_array_item list" where
  "array_view arr =
     (case ia_type arr of
        INTERVAL_ARRAY_TYPE_U32 \<Rightarrow> map widen_item (the (items_u32 arr))
      | INTERVAL_ARRAY_TYPE_U64 \<Rightarrow> the (items_u64 arr))"

definition ia_ok :: "interval_array \<Rightarrow> bool" where
  "ia_ok arr \<longleftrightarrow>
     (case ia_type arr of
        INTERVAL_ARRAY_TYPE_U32 \<Rightarrow> items_u32 arr \<noteq> None \<and> items_u64 arr = None
      | INTERVAL_ARRAY_TYPE_U64 \<Rightarrow> items_u32 arr = None \<and> items_u64 arr \<noteq> None) \<and>
     array_view arr \<noteq> [] \<and> ia_count arr = int (length (array_view arr)) \<and>
     ia_min arr = ia_start (hd (array_view arr)) \<and> ia_max arr = ia_end (last (array_view arr))"

definition untag_item :: "interval_array_item \<Rightarrow> interval_array_item" where
  "untag_item it = it\<lparr>ia_private := fst (get_interval_array_pointer (ia_private it))\<rparr>"

lemma widen_sel [simp]:
  "ia_start (widen_item x) = ucast (start_u32 x)" "ia_end (widen_item x) = ucast (end_u32 x)"
  "ia_private (widen_item x) = private_u32 x"
  by (simp_all add: widen_item_def)

lemma widen_comp [simp]:
  "ia_start \<circ> widen_item = ucast \<circ> start_u32" "ia_end \<circ> widen_item = ucast \<circ> end_u32"
  by (auto simp: fun_eq_iff)

lemma untag_sel [simp]:
  "ia_start (untag_item x) = ia_start x" "ia_end (untag_item x) = ia_end x"
  by (simp_all add: untag_item_def)

text \<open>On a consistent array the search is the loop over its interval list.\<close>

lemma search_view:
  assumes ok: "ia_ok arr"
  shows "gu_interval_array_search (Some arr) addr (Some it0) =
     (if addr < ia_min arr \<or> addr > ia_max arr then (-1, clear_interval_array_item (Some it0))
      else case search_loop ia_start ia_end (array_view arr) addr 0 (int (length (array_view arr)) - 1) of
             None \<Rightarrow> (-1, clear_interval_array_item (Some it0))
           | Some mid \<Rightarrow> (mid, Some (untag_item (array_view arr ! nat mid))))"
proof (cases "ia_type arr")
  case INTERVAL_ARRAY_TYPE_U32
  then obtain xs where xs: "items_u32 arr = Some xs" "array_view arr = map widen_item xs"
      "xs \<noteq> []" "ia_count arr = int (length xs)"
    using ok by (auto simp: ia_ok_def array_view_def)
  have map: "search_loop ia_start ia_end (map widen_item xs) addr 0 (int (length xs) - 1) =
      search_loop (ucast \<circ> start_u32) (ucast \<circ> end_u32) xs addr 0 (int (length xs) - 1)"
    using xs by (subst search_loop_map) auto
  have range: "search_loop (ucast \<circ> start_u32) (ucast \<circ> end_u32) xs addr 0 (int (length xs) - 1) = Some i
      \<Longrightarrow> nat i < length xs" for i
    by (drule search_loop_sound) auto
  show ?thesis
    using INTERVAL_ARRAY_TYPE_U32 xs range
    by (auto simp: gu_interval_array_search_def gu_interval_array_search_aux_def Let_def map
        untag_item_def widen_item_def split: option.splits prod.splits)
next
  case INTERVAL_ARRAY_TYPE_U64
  then obtain xs where xs: "items_u64 arr = Some xs" "array_view arr = xs"
      "xs \<noteq> []" "ia_count arr = int (length xs)"
    using ok by (auto simp: ia_ok_def array_view_def)
  show ?thesis
    using INTERVAL_ARRAY_TYPE_U64 xs
    by (auto simp: gu_interval_array_search_def gu_interval_array_search_aux_def Let_def
        untag_item_def split: option.splits prod.splits)
qed

lemma fill_ends_length [simp]: "length (fill_ends xs) = length xs"
  by (induction xs rule: fill_ends.induct) auto

lemma fill_ends_starts [simp]: "map ia_start (fill_ends xs) = map ia_start xs"
  by (induction xs rule: fill_ends.induct) auto

lemma fill_ends_privates [simp]: "map ia_private (fill_ends xs) = map ia_private xs"
  by (induction xs rule: fill_ends.induct) auto

lemma fill_ends_closed: "(\<forall>x\<in>set xs. ia_end x \<noteq> 0) \<Longrightarrow> fill_ends xs = xs"
  by (induction xs rule: fill_ends.induct) auto

lemma fill_ends_Nil_iff [simp]: "fill_ends xs = [] \<longleftrightarrow> xs = []"
  by (cases xs rule: fill_ends.cases) auto

definition built :: "interval_array_item list \<Rightarrow> interval_array_item list" where
  "built items = fill_ends (qsort_items items)"

lemma built_length [simp]: "length (built items) = length items"
  by (simp add: built_def qsort_items_def)

lemma built_Nil_iff [simp]: "built items = [] \<longleftrightarrow> items = []"
  by (simp flip: length_0_conv)

lemma built_sorted: "sorted (map ia_start (built items))"
  by (simp add: built_def qsort_items_def)

lemma mset_built_privates: "mset (map ia_private (built items)) = mset (map ia_private items)"
  by (simp add: built_def qsort_items_def)

lemma widen_narrow:
  assumes "ia_start x \<le> UINT32_MAX" "ia_end x \<le> UINT32_MAX"
  shows "widen_item (narrow_item x) = x"
proof -
  have *: "ucast (ucast w :: u32) = w" if "w \<le> UINT32_MAX" for w :: u64
  proof -
    have "take_bit 32 (uint w) = uint w"
      using that by (intro take_bit_int_eq_self) (auto simp: word_le_def)
    then show ?thesis by transfer (simp add: take_bit_take_bit [symmetric])
  qed
  show ?thesis using assms by (simp add: widen_item_def narrow_item_def *)
qed

definition proper :: "interval_array_item list \<Rightarrow> bool" where
  "proper items \<longleftrightarrow> disjoint_sorted ia_start ia_end (built items)"

lemma disjoint_sorted_last:
  assumes "disjoint_sorted st en xs" "x \<in> set xs"
  shows "st x \<le> en (last xs)" "en x \<le> en (last xs)"
proof -
  have "en x \<le> en (last xs)"
    using assms
    by (induction xs) (fastforce simp: disjoint_sorted_def intro: order_trans dest: last_in_set)+
  then show "en x \<le> en (last xs)" .
  then show "st x \<le> en (last xs)" using assms by (auto simp: disjoint_sorted_def intro: order_trans)
qed

lemma init_Some_cases:
  assumes "fst (gu_interval_array_init ca ci items) = Some arr"
  obtains (narrow) "items \<noteq> []" "ia_end (last (built items)) < UINT32_MAX"
      "arr = \<lparr>items_u32 = Some (map narrow_item (built items)), items_u64 = None,
        ia_count = int (length items), ia_type = INTERVAL_ARRAY_TYPE_U32,
        ia_min = ucast (start_u32 (hd (map narrow_item (built items)))),
        ia_max = ucast (end_u32 (last (map narrow_item (built items))))\<rparr>"
  | (wide) "items \<noteq> []" "\<not> ia_end (last (built items)) < UINT32_MAX"
      "arr = \<lparr>items_u32 = None, items_u64 = Some (built items),
        ia_count = int (length items), ia_type = INTERVAL_ARRAY_TYPE_U64,
        ia_min = ia_start (hd (built items)), ia_max = ia_end (last (built items))\<rparr>"
  using assms unfolding gu_interval_array_init_def
  by (auto simp: Let_def built_def split: if_splits)

lemma init_ok: "fst (gu_interval_array_init ca ci items) = Some arr \<Longrightarrow> ia_ok arr"
  by (erule init_Some_cases) (simp_all add: ia_ok_def array_view_def hd_map last_map)

lemma init_view:
  assumes "fst (gu_interval_array_init ca ci items) = Some arr" "proper items"
  shows "array_view arr = built items"
  using assms(1)
proof (cases rule: init_Some_cases)
  case narrow
  have "widen_item (narrow_item x) = x" if "x \<in> set (built items)" for x
    using disjoint_sorted_last [OF assms(2) [unfolded proper_def] that] narrow(2)
    by (intro widen_narrow) auto
  then have "map (widen_item \<circ> narrow_item) (built items) = built items"
    by (simp add: map_idI)
  then show ?thesis by (simp add: narrow array_view_def)
next
  case wide
  then show ?thesis by (simp add: array_view_def)
qed

lemma init_alloc_ok: "items \<noteq> [] \<Longrightarrow> \<exists>arr. fst (gu_interval_array_init True True items) = Some arr"
  by (auto simp: gu_interval_array_init_def Let_def)

subsection \<open>Which inputs index correctly\<close>

definition disjoint_items :: "interval_array_item list \<Rightarrow> bool" where
  "disjoint_items items \<longleftrightarrow>
     distinct items \<and> (\<forall>x\<in>set items. ia_start x < ia_end x) \<and>
     (\<forall>x\<in>set items. \<forall>y\<in>set items. x \<noteq> y \<longrightarrow> ia_end x \<le> ia_start y \<or> ia_end y \<le> ia_start x)"

lemma sorted_wrt_from_pairs:
  assumes "sorted (map f xs)"
    and "\<And>i j. i < j \<Longrightarrow> j < length xs \<Longrightarrow> f (xs ! i) \<le> f (xs ! j) \<Longrightarrow> R (xs ! i) (xs ! j)"
  shows "sorted_wrt R xs"
  using assms by (auto simp: sorted_wrt_iff_nth_less sorted_map)

lemma built_closed:
  "(\<forall>x\<in>set items. ia_end x \<noteq> 0) \<Longrightarrow> built items = qsort_items items"
  by (simp add: built_def qsort_items_def fill_ends_closed)

lemma proper_disjoint_items:
  assumes "disjoint_items items"
  shows "proper items"
proof -
  have pos: "\<forall>x\<in>set items. ia_end x \<noteq> 0"
    using assms by (auto simp: disjoint_items_def word_less_nat_alt)
  let ?xs = "qsort_items items"
  have m: "mset ?xs = mset items" "set ?xs = set items" by (auto simp: qsort_items_def)
  have "sorted_wrt (\<lambda>a b. ia_end a \<le> ia_start b) ?xs"
  proof (rule sorted_wrt_from_pairs)
    show "sorted (map ia_start ?xs)" by (simp add: qsort_items_def)
  next
    fix i j assume ij: "i < j" "j < length ?xs" "ia_start (?xs ! i) \<le> ia_start (?xs ! j)"
    have "?xs ! i \<noteq> ?xs ! j"
      using assms ij by (auto simp: disjoint_items_def qsort_items_def nth_eq_iff_index_eq)
    moreover have "?xs ! i \<in> set items" "?xs ! j \<in> set items"
      using ij m(2) nth_mem [of i ?xs] nth_mem [of j ?xs] by auto
    ultimately have "ia_end (?xs ! i) \<le> ia_start (?xs ! j) \<or> ia_end (?xs ! j) \<le> ia_start (?xs ! i)"
      using assms by (auto simp: disjoint_items_def)
    moreover have "ia_start (?xs ! j) < ia_end (?xs ! j)"
      using assms ij m(2) nth_mem [of j ?xs] by (auto simp: disjoint_items_def)
    ultimately show "ia_end (?xs ! i) \<le> ia_start (?xs ! j)" using ij(3) by auto
  qed
  moreover have "\<forall>x\<in>set ?xs. ia_start x \<le> ia_end x"
    using assms m(2) by (auto simp: disjoint_items_def)
  ultimately show ?thesis
    by (simp add: proper_def disjoint_sorted_def built_closed [OF pos])
qed

text \<open>Zero ends are open: an item without a size reaches to the next start.\<close>

definition open_items :: "interval_array_item list \<Rightarrow> bool" where
  "open_items items \<longleftrightarrow>
     (\<forall>x\<in>set items. ia_end x = 0 \<and> ia_start x \<noteq> UINT64_MAX)"

lemma fill_ends_open:
  assumes "sorted (map ia_start xs)" "\<forall>x\<in>set xs. ia_end x = 0 \<and> ia_start x \<noteq> UINT64_MAX"
  shows "disjoint_sorted ia_start ia_end (fill_ends xs)"
  using assms
proof (induction xs rule: fill_ends.induct)
  case 1
  show ?case by (simp add: disjoint_sorted_def)
next
  case (2 x)
  have "ia_start x \<le> UINT64_MAX - 1" if "ia_start x \<noteq> UINT64_MAX"
    using that by (rule u64_below_max)
  then show ?case using 2 
    by (auto simp: disjoint_sorted_def word_less_def word_le_def)
next
  case (3 x y rest)
  have ds: "disjoint_sorted ia_start ia_end (fill_ends (y # rest))" using 3 by simp
  have "ia_start y \<le> ia_start e" if "e \<in> set (fill_ends (y # rest))" for e
  proof -
    have "ia_start e \<in> set (map ia_start (fill_ends (y # rest)))"
      using that unfolding set_map by (rule imageI)
    then show ?thesis using 3(2) unfolding fill_ends_starts by auto
  qed
  then show ?case using ds 3(2,3) by (auto simp: disjoint_sorted_def)
qed

lemma proper_open_items: "open_items items \<Longrightarrow> proper items"
  unfolding proper_def built_def open_items_def
  by (rule fill_ends_open) (simp_all add: qsort_items_def)

subsection \<open>The interface its clients use\<close>

definition interval_build :: "interval_array_item list \<Rightarrow> interval_array option" where
  "interval_build items = fst (gu_interval_array_init True True items)"

definition interval_find :: "interval_array \<Rightarrow> u64 \<Rightarrow> interval_array_item option" where
  "interval_find arr addr =
     (let (ret, out) = gu_interval_array_search (Some arr) addr
                         (Some \<lparr>ia_start = 0, ia_end = 0, ia_private = 0\<rparr>)
      in if ret < 0 then None else out)"

abbreviation item_covers :: "interval_array_item \<Rightarrow> u64 \<Rightarrow> bool" where
  "item_covers it addr \<equiv> ia_start it \<le> addr \<and> addr < ia_end it"

locale interval_index =
  fixes build :: "interval_array_item list \<Rightarrow> 'a option"
    and find :: "'a \<Rightarrow> u64 \<Rightarrow> interval_array_item option"
    and admissible :: "interval_array_item list \<Rightarrow> bool"
    and entries :: "interval_array_item list \<Rightarrow> interval_array_item set"
  assumes find_iff: "build items = Some a \<Longrightarrow> admissible items \<Longrightarrow>
      find a addr = Some it \<longleftrightarrow> (\<exists>e\<in>entries items. item_covers e addr \<and> it = untag_item e)"
    and one_cover: "admissible items \<Longrightarrow> e \<in> entries items \<Longrightarrow> e' \<in> entries items \<Longrightarrow>
      item_covers e addr \<Longrightarrow> item_covers e' addr \<Longrightarrow> e = e'"
begin

lemma find_covers:
  "build items = Some a \<Longrightarrow> admissible items \<Longrightarrow> find a addr = Some it \<Longrightarrow> item_covers it addr"
  by (auto simp: find_iff)

lemma find_hit:
  "build items = Some a \<Longrightarrow> admissible items \<Longrightarrow> e \<in> entries items \<Longrightarrow> item_covers e addr \<Longrightarrow>
   find a addr = Some (untag_item e)"
  by (auto simp: find_iff)

lemma find_miss:
  "build items = Some a \<Longrightarrow> admissible items \<Longrightarrow>
   find a addr = None \<longleftrightarrow> (\<forall>e\<in>entries items. \<not> item_covers e addr)"
  using find_iff by (metis not_Some_eq)

text \<open>A result stays valid for every address of its interval, so a client may cache it.\<close>

lemma find_cached:
  assumes "build items = Some a" "admissible items" "find a addr = Some it" "item_covers it addr'"
  shows "find a addr' = Some it"
  using assms by (auto simp: find_iff)

lemma find_offset:
  assumes "build items = Some a" "admissible items" "find a addr = Some it"
  shows "addr - ia_start it < ia_end it - ia_start it"
proof -
  have "ia_start it \<le> addr" "addr < ia_end it" using find_covers [OF assms] by auto
  then show ?thesis by (simp add: word_less_nat_alt word_le_nat_alt unat_sub_if_size)
qed

end

lemma interval_find_view:
  assumes "ia_ok arr"
  shows "interval_find arr addr =
    (if addr < ia_min arr \<or> addr > ia_max arr then None
     else map_option (\<lambda>i. untag_item (array_view arr ! nat i))
            (search_loop ia_start ia_end (array_view arr) addr 0 (int (length (array_view arr)) - 1)))"
  using search_view [OF assms]
  by (auto simp: interval_find_def Let_def split: option.splits dest: search_loop_sound)

lemma interval_find_iff:
  assumes "interval_build items = Some arr" "proper items"
  shows "interval_find arr addr = Some it \<longleftrightarrow>
    (\<exists>e\<in>set (built items). item_covers e addr \<and> it = untag_item e)"
proof -
  let ?xs = "built items"
  have b: "fst (gu_interval_array_init True True items) = Some arr"
    using assms(1) by (simp add: interval_build_def)
  have view: "array_view arr = ?xs" by (rule init_view [OF b assms(2)])
  have ds: "disjoint_sorted ia_start ia_end ?xs" using assms(2) by (simp add: proper_def)
  have ok: "ia_ok arr" by (rule init_ok [OF b])
  then have ne: "?xs \<noteq> []" and mm: "ia_min arr = ia_start (hd ?xs)" "ia_max arr = ia_end (last ?xs)"
    by (auto simp: ia_ok_def view)
  have eq: "interval_find arr addr =
    (if addr < ia_min arr \<or> addr > ia_max arr then None
     else map_option (\<lambda>i. untag_item (?xs ! nat i))
            (search_loop ia_start ia_end ?xs addr 0 (int (length ?xs) - 1)))"
    using interval_find_view [OF ok] by (simp add: view)
  show ?thesis
  proof
    assume "interval_find arr addr = Some it"
    then obtain i where i: "search_loop ia_start ia_end ?xs addr 0 (int (length ?xs) - 1) = Some i"
        "it = untag_item (?xs ! nat i)"
      by (auto simp: eq split: if_splits)
    with search_loop_sound [OF i(1)] have "nat i < length ?xs" "item_covers (?xs ! nat i) addr"
      by (auto simp: covers_def)
    with i(2) show "\<exists>e\<in>set ?xs. item_covers e addr \<and> it = untag_item e" by (metis nth_mem)
  next
    assume "\<exists>e\<in>set ?xs. item_covers e addr \<and> it = untag_item e"
    then obtain j where j: "j < length ?xs" "item_covers (?xs ! j) addr" "it = untag_item (?xs ! j)"
      by (auto simp: in_set_conv_nth)
    have "search_loop ia_start ia_end ?xs addr 0 (int (length ?xs) - 1) = Some (int j)"
      using j by (intro search_loop_complete [OF ds]) (auto simp: covers_def)
    moreover have "ia_start (hd ?xs) \<le> ia_start (?xs ! j)"
      using j(1) ne built_sorted [of items] by (cases ?xs) (auto simp: nth_Cons split: nat.splits)
    moreover have "ia_end (?xs ! j) \<le> ia_end (last ?xs)"
      using disjoint_sorted_last(2) [OF ds] j(1) by auto
    ultimately show "interval_find arr addr = Some it"
      using j(2,3) by (auto simp: eq mm)
  qed
qed

lemma proper_one_cover:
  assumes "proper items" "e \<in> set (built items)" "e' \<in> set (built items)"
    and "item_covers e addr" "item_covers e' addr"
  shows "e = e'"
proof -
  have ds: "disjoint_sorted ia_start ia_end (built items)" using assms(1) by (simp add: proper_def)
  obtain i j where "i < length (built items)" "j < length (built items)"
      "e = built items ! i" "e' = built items ! j"
    using assms(2,3) by (auto simp: in_set_conv_nth)
  with assms(4,5) disjoint_sorted_nth(2) [OF ds, of i j] disjoint_sorted_nth(2) [OF ds, of j i]
  show ?thesis by (cases i j rule: linorder_cases) auto
qed

interpretation ia: interval_index interval_build interval_find proper "\<lambda>items. set (built items)"
  by unfold_locales (auto simp: interval_find_iff dest: proper_one_cover)

subsection \<open>Properties\<close>

lemma interval_build_Some: "items \<noteq> [] \<Longrightarrow> \<exists>arr. interval_build items = Some arr"
  by (simp add: interval_build_def init_alloc_ok)

lemma search_via_find:
  "ia_ok arr \<Longrightarrow> gu_interval_array_search (Some arr) addr (Some it\<^sub>0) =
     (case interval_find arr addr of
        None \<Rightarrow> (-1, clear_interval_array_item (Some it\<^sub>0))
      | Some it \<Rightarrow> (fst (gu_interval_array_search (Some arr) addr (Some it\<^sub>0)), Some it)) \<and>
   (interval_find arr addr \<noteq> None \<longrightarrow> 0 \<le> fst (gu_interval_array_search (Some arr) addr (Some it\<^sub>0)))"
  by (simp add: search_view interval_find_view split: option.splits)
     (auto dest: search_loop_sound)

text \<open>
  C32. Searching the index built from non-empty, pairwise disjoint intervals is exact: an
  address inside an input interval yields a non-negative index and that interval with the
  ownership tag removed from its payload, and any other address yields -1 and a zeroed item.
\<close>

theorem interval_search_correct:
  assumes "disjoint_items items" "items \<noteq> []"
  shows "\<exists>arr. fst (gu_interval_array_init True True items) = Some arr \<and>
    (\<forall>e\<in>set items. item_covers e addr \<longrightarrow>
       (\<exists>i\<ge>0. gu_interval_array_search (Some arr) addr (Some it\<^sub>0) = (i, Some (untag_item e)))) \<and>
    ((\<forall>e\<in>set items. \<not> item_covers e addr) \<longrightarrow>
       gu_interval_array_search (Some arr) addr (Some it\<^sub>0) =
         (-1, Some \<lparr>ia_start = 0, ia_end = 0, ia_private = 0\<rparr>))"
proof -
  obtain arr where arr: "interval_build items = Some arr"
    using interval_build_Some [OF assms(2)] by blast
  have p: "proper items" by (rule proper_disjoint_items [OF assms(1)])
  have "\<forall>x\<in>set items. ia_end x \<noteq> 0"
    using assms(1) by (auto simp: disjoint_items_def word_less_nat_alt)
  then have set: "set (built items) = set items"
    by (simp add: built_closed qsort_items_def)
  have ok: "ia_ok arr" using arr by (auto simp: interval_build_def intro: init_ok)
  note hit = ia.find_hit [OF arr p] and miss = ia.find_miss [OF arr p]
  have "\<exists>i\<ge>0. gu_interval_array_search (Some arr) addr (Some it\<^sub>0) = (i, Some (untag_item e))"
    if "e \<in> set items" "item_covers e addr" for e
    using search_via_find [OF ok, of addr it\<^sub>0] hit [of e addr] that set by auto
  moreover have "gu_interval_array_search (Some arr) addr (Some it\<^sub>0) =
         (-1, Some \<lparr>ia_start = 0, ia_end = 0, ia_private = 0\<rparr>)"
    if "\<forall>e\<in>set items. \<not> item_covers e addr"
    using search_via_find [OF ok, of addr it\<^sub>0] miss [of addr] that set
    by (auto simp: clear_interval_array_item_def)
  ultimately show ?thesis using arr unfolding interval_build_def by blast
qed

theorem interval_search_correct_witness:
  "\<exists>arr. fst (gu_interval_array_init True True
       [\<lparr>ia_start = 0x2000, ia_end = 0x3000, ia_private = 8\<rparr>,
        \<lparr>ia_start = 0x1000, ia_end = 0x1800, ia_private = 16\<rparr>]) = Some arr \<and>
    (\<exists>i\<ge>0. gu_interval_array_search (Some arr) 0x1400
        (Some \<lparr>ia_start = 0, ia_end = 0, ia_private = 0\<rparr>) =
        (i, Some (untag_item \<lparr>ia_start = 0x1000, ia_end = 0x1800, ia_private = 16\<rparr>)))"
proof -
  have d: "disjoint_items
      [\<lparr>ia_start = 0x2000, ia_end = 0x3000, ia_private = 8\<rparr>,
       \<lparr>ia_start = 0x1000, ia_end = 0x1800, ia_private = 16\<rparr>]"
    by (simp add: disjoint_items_def)
  show ?thesis
    using interval_search_correct [OF d, where addr = "0x1400"
        and it\<^sub>0 = "\<lparr>ia_start = 0, ia_end = 0, ia_private = 0\<rparr>"]
    by auto
qed

lemma freed_payloads_eq:
  "freed_payloads ps = map (fst \<circ> get_interval_array_pointer)
     (filter (\<lambda>p. p \<noteq> 0 \<and> \<not> snd (get_interval_array_pointer p)) ps)"
  by (induction ps) (auto split: prod.splits)

lemma destroy_view:
  "ia_ok arr \<Longrightarrow> gu_interval_array_destroy (Some arr) = freed_payloads (map ia_private (array_view arr))"
  by (auto simp: gu_interval_array_destroy_def ia_ok_def array_view_def comp_def
      split: interval_array_type.splits)

lemma mset_freed_update:
  assumes "i < length ps" "ps ! i \<noteq> 0" "\<not> bit (ps ! i) 63"
  shows "mset (freed_payloads ps) =
    add_mset (ps ! i) (mset (freed_payloads (ps[i := mark_interval_array_pointer_no_free (ps ! i)])))"
proof -
  have ps: "ps = take i ps @ ps ! i # drop (Suc i) ps" by (rule id_take_nth_drop [OF assms(1)])
  have app: "freed_payloads (xs @ ys) = freed_payloads xs @ freed_payloads ys" for xs ys
    by (induction xs) (auto split: prod.splits)
  have "mset (freed_payloads (take i ps @ ps ! i # drop (Suc i) ps)) = add_mset (ps ! i)
      (mset (freed_payloads (take i ps @ mark_interval_array_pointer_no_free (ps ! i) # drop (Suc i) ps)))"
    using assms(2,3) by (simp add: app)
  then show ?thesis using assms(1) ps by (simp add: upd_conv_take_nth_drop)
qed

lemma last_list_update_eq:
  "f v = f (xs ! i) \<Longrightarrow> i < length xs \<Longrightarrow> f (last (xs[i := v])) = f (last xs)"
  by (cases "xs = []") (auto simp: last_conv_nth nth_list_update)

lemma hd_list_update_eq:
  "f v = f (xs ! i) \<Longrightarrow> i < length xs \<Longrightarrow> f (hd (xs[i := v])) = f (hd xs)"
  by (cases i; cases xs) auto

lemma widen_private [simp]:
  "widen_item (x\<lparr>private_u32 := p\<rparr>) = (widen_item x)\<lparr>ia_private := p\<rparr>"
  by (simp add: widen_item_def)

lemma search_aux_hit:
  assumes ok: "ia_ok arr" and i: "0 \<le> i"
    and aux: "gu_interval_array_search_aux (Some arr) addr (Some it\<^sub>0) flag = (i, out, Some arr')"
  shows "nat i < length (array_view arr) \<and> out = Some (untag_item (array_view arr ! nat i)) \<and> ia_ok arr' \<and>
    array_view arr' =
      (let it = array_view arr ! nat i in
       if flag \<and> \<not> bit (ia_private it) 63
       then (array_view arr)[nat i := it\<lparr>ia_private := mark_interval_array_pointer_no_free (ia_private it)\<rparr>]
       else array_view arr)"
proof (cases "ia_type arr")
  case INTERVAL_ARRAY_TYPE_U32
  then obtain xs where xs: "items_u32 arr = Some xs" "items_u64 arr = None" "array_view arr = map widen_item xs"
      "xs \<noteq> []" "ia_count arr = int (length xs)"
    using ok by (auto simp: ia_ok_def array_view_def)
  have loop: "search_loop (ucast \<circ> start_u32) (ucast \<circ> end_u32) xs addr 0 (int (length xs) - 1) = Some i"
    and out: "out = Some (untag_item (widen_item (xs ! nat i)))"
    and arr': "arr' = (if flag \<and> \<not> bit (private_u32 (xs ! nat i)) 63 then arr\<lparr>items_u32 := Some (xs[nat i :=
         (xs ! nat i)\<lparr>private_u32 := mark_interval_array_pointer_no_free (private_u32 (xs ! nat i))\<rparr>])\<rparr> else arr)"
    using aux i INTERVAL_ARRAY_TYPE_U32 xs
    by (auto simp: gu_interval_array_search_aux_def Let_def get_interval_array_pointer_eq untag_item_def
        widen_item_def split: if_splits option.splits)
  from search_loop_sound [OF loop] have "nat i < length xs" by auto
  then show ?thesis
    using ok xs INTERVAL_ARRAY_TYPE_U32 out
    by (auto simp: arr' ia_ok_def array_view_def Let_def map_update
        hd_list_update_eq [where f = ia_start] last_list_update_eq [where f = ia_end])
next
  case INTERVAL_ARRAY_TYPE_U64
  then obtain xs where xs: "items_u64 arr = Some xs" "items_u32 arr = None" "array_view arr = xs"
      "xs \<noteq> []" "ia_count arr = int (length xs)"
    using ok by (auto simp: ia_ok_def array_view_def)
  have loop: "search_loop ia_start ia_end xs addr 0 (int (length xs) - 1) = Some i"
    and out: "out = Some (untag_item (xs ! nat i))"
    and arr': "arr' = (if flag \<and> \<not> bit (ia_private (xs ! nat i)) 63 then arr\<lparr>items_u64 := Some (xs[nat i :=
         (xs ! nat i)\<lparr>ia_private := mark_interval_array_pointer_no_free (ia_private (xs ! nat i))\<rparr>])\<rparr> else arr)"
    using aux i INTERVAL_ARRAY_TYPE_U64 xs
    by (auto simp: gu_interval_array_search_aux_def Let_def get_interval_array_pointer_eq untag_item_def
        split: if_splits option.splits)
  from search_loop_sound [OF loop] have "nat i < length xs" by auto
  then show ?thesis
    using ok xs INTERVAL_ARRAY_TYPE_U64 out
    by (auto simp: arr' ia_ok_def array_view_def Let_def
        hd_list_update_eq [where f = ia_start] last_list_update_eq [where f = ia_end])
qed

text \<open>
  C33. The tag in bit 63 transfers ownership: after a search that sets it, destroying the
  array passes every owned payload to \<open>free\<close> as before except the one the search returned.
\<close>

theorem search_set_no_free_keeps_payload:
  assumes ok: "ia_ok arr"
    and found: "gu_interval_array_search_set_no_free (Some arr) addr (Some it\<^sub>0) = (i, Some it, Some arr')"
      "0 \<le> i"
    and owned: "ia_private (array_view arr ! nat i) \<noteq> 0" "\<not> bit (ia_private (array_view arr ! nat i)) 63"
  shows "mset (gu_interval_array_destroy (Some arr)) =
    add_mset (ia_private it) (mset (gu_interval_array_destroy (Some arr')))"
proof -
  have "nat i < length (array_view arr)" "it = untag_item (array_view arr ! nat i)" "ia_ok arr'"
    "array_view arr' = (array_view arr)[nat i := (array_view arr ! nat i)\<lparr>ia_private :=
       mark_interval_array_pointer_no_free (ia_private (array_view arr ! nat i))\<rparr>]"
    using search_aux_hit [OF ok found(2) found(1) [unfolded gu_interval_array_search_set_no_free_def]] owned(2)
    by (auto simp: Let_def)
  then show ?thesis
    using mset_freed_update [of "nat i" "map ia_private (array_view arr)"] owned
    by (simp add: destroy_view [OF ok] destroy_view map_update untag_item_def)
qed

theorem search_set_no_free_keeps_payload_witness:
  "mset (gu_interval_array_destroy (Some
     \<lparr>items_u32 = None, items_u64 = Some [\<lparr>ia_start = 1, ia_end = UINT64_MAX, ia_private = 64\<rparr>], ia_count = 1,
      ia_type = INTERVAL_ARRAY_TYPE_U64, ia_min = 1, ia_max = UINT64_MAX\<rparr>)) = {#64#}"
proof -
  let ?it = "\<lparr>ia_start = 1, ia_end = UINT64_MAX, ia_private = 64\<rparr>"
  let ?arr = "\<lparr>items_u32 = None, items_u64 = Some [?it], ia_count = 1,
      ia_type = INTERVAL_ARRAY_TYPE_U64, ia_min = 1, ia_max = UINT64_MAX\<rparr>"
  let ?arr' = "\<lparr>items_u32 = None, items_u64 = Some [?it\<lparr>ia_private := mark_interval_array_pointer_no_free 64\<rparr>],
      ia_count = 1, ia_type = INTERVAL_ARRAY_TYPE_U64, ia_min = 1, ia_max = UINT64_MAX\<rparr>"
  have ok: "ia_ok ?arr" by (simp add: ia_ok_def array_view_def)
  have s: "search_loop ia_start ia_end [?it] 5 0 0 = Some 0"
    by (subst search_loop.simps) simp
  have f: "gu_interval_array_search_set_no_free (Some ?arr) 5 (Some ?it) = (0, Some ?it, Some ?arr')"
    by (simp add: gu_interval_array_search_set_no_free_def gu_interval_array_search_aux_def s
        get_interval_array_pointer_def)
  have "gu_interval_array_destroy (Some ?arr') = []"
    by (simp add: gu_interval_array_destroy_def)
  then show ?thesis
    using search_set_no_free_keeps_payload [OF ok f] by (simp add: array_view_def)
qed


end
