(* ===== verification/Cfi_Tables.thy ===== *)
theory Cfi_Tables
  imports Cfi_State Interval_Array
begin

text \<open>
  Building the unwind tables of one ELF file, \<open>src/gu_cfi_helper.c\<close> lines 608-1040: a CIE is
  decoded into its initial rule context, an FDE into its address range and instructions, and
  the FDEs are indexed by an interval array, either through \<open>.eh_frame_hdr\<close> or by scanning.

  \<^item> \<open>dwarf_next_cfi\<close> of libdw is the argument \<open>next_cfi\<close>: an offset to the entry there and the
    next offset, or \<open>None\<close> for a non-zero return. Its pointers are positions in the section data.
  \<^item> Whether an allocation succeeds is the argument \<open>mem\<close>, one answer per allocation site.
  \<^item> \<open>cie_list\<close> is the uthash table in insertion order. \<open>HASH_FIND_INT\<close> compares
    \<open>sizeof(int)\<close> bytes, so the key is the low half of the 64-bit offset.
  \<^item> The FDE at index \<open>i\<close> has the address \<open>fdes_base + 40 * i\<close>; the interval payloads hold it.
  \<^item> \<open>sizeof\<close> values in the memory counters are those of the LP64 layouts.
\<close>

unbundle bit_operations_syntax

datatype alloc_site = A_Saved | A_Cie | A_Items | A_Fdes | A_Array | A_Array_Items
  | A_Cfi | A_Ident | A_Data | A_Data_Buf

type_synonym allocs = "alloc_site \<Rightarrow> bool"

record dwarf_cie =
  d_code_alignment_factor :: u64
  d_data_alignment_factor :: u64
  d_return_address_register :: u64
  d_augmentation :: string
  d_augmentation_data :: "nat option"
  d_initial_instructions :: nat
  d_initial_instructions_end :: nat

record dwarf_fde =
  CIE_pointer :: u64
  d_start :: nat
  d_end :: nat

datatype cfi_entry = CIE_Entry dwarf_cie | FDE_Entry dwarf_fde

type_synonym next_cfi = "u64 \<Rightarrow> (u64 \<times> cfi_entry) option"

record gu_cfi_cached_ops =
  cached_size :: nat
  cached_ops :: "dwarf_op list"

record gu_cfi_parse_cache_entry =
  pce_valid :: bool
  pce_pc :: u64
  pce_signal_frame :: bool
  pce_rip :: gu_cfi_cached_ops
  pce_rbp :: gu_cfi_cached_ops
  pce_rsp :: gu_cfi_cached_ops
  pce_cfa :: gu_cfi_cached_ops

record gu_cfi =
  hdr_interval_array :: "interval_array option"
  sh_off :: u64
  eh_frame :: bool
  cfi_mem_usage :: u64
  cfi_data_mem_usage :: u64
  cie_list :: "gu_cfi_cie list"
  fde_count :: u64
  fdes_base :: u64
  fdes :: "gu_cfi_fde list"
  cfi_data :: bytes
  parse_cache :: "gu_cfi_parse_cache_entry list"
  freed_chains :: "u64 list"

text \<open>The two file-scope variables behind the default rules.\<close>

record cfi_globals =
  default_init :: bool
  default_calc_ctx :: gu_cfi_calc_ctx

subsection \<open>CIEs\<close>

text \<open>\<open>augmentation_data\<close> may be NULL; \<open>*data++\<close> is not checked against the section.\<close>

definition next_byte :: "bytes \<Rightarrow> nat option \<Rightarrow> (u8 \<times> nat) cres" where
  "next_byte buf data =
     (case data of
        None \<Rightarrow> Undef NullDeref
      | Some d \<Rightarrow> if d < length buf then Ok (buf ! d, Suc d) else Undef OutOfBounds)"

fun augmentation_loop :: "bytes \<Rightarrow> string \<Rightarrow> nat option \<Rightarrow> gu_cfi_cie \<Rightarrow> gu_cfi_cie cres" where
  "augmentation_loop buf [] data cie = Ok cie"
| "augmentation_loop buf (c # cs) data cie =
     (if c = CHR ''z'' then augmentation_loop buf cs data (cie\<lparr>sized_augmentation_data := True\<rparr>)
      else if c = CHR ''S'' then augmentation_loop buf cs data (cie\<lparr>signal_frame := True\<rparr>)
      else if c = CHR ''L'' then
        cbind (next_byte buf data) (\<lambda>(enc, data').
          if \<not> sized_augmentation_data cie then
            cbind (get_encoding_size enc (drop data' buf)) (\<lambda>size.
              augmentation_loop buf cs (Some data') (cie\<lparr>lsda_encoding := enc,
                fde_augmentation_data_size := fde_augmentation_data_size cie + of_nat size\<rparr>))
          else augmentation_loop buf cs (Some data') (cie\<lparr>lsda_encoding := enc\<rparr>))
      else if c = CHR ''R'' then
        cbind (next_byte buf data) (\<lambda>(enc, data').
          augmentation_loop buf cs (Some data') (cie\<lparr>fde_encoding := enc\<rparr>))
      else if c = CHR ''P'' then
        cbind (next_byte buf data) (\<lambda>(enc, data').
        cbind (get_encoding_size enc (drop data' buf)) (\<lambda>size.
          augmentation_loop buf cs (Some (data' + size)) cie))
      else if sized_augmentation_data cie then augmentation_loop buf cs data cie
      else Ok cie)"

definition sizeof_cie :: u64 where "sizeof_cie = 192"
definition sizeof_fde :: u64 where "sizeof_fde = 40"
definition sizeof_item :: u64 where "sizeof_item = 24"
definition sizeof_elf_data :: u64 where "sizeof_elf_data = 40"

definition blank_cie :: "u64 \<Rightarrow> dwarf_cie \<Rightarrow> gu_cfi_cie" where
  "blank_cie cie_off d = \<lparr>cie_offset = cie_off,
     code_alignment_factor = d_code_alignment_factor d,
     data_alignment_factor = d_data_alignment_factor d,
     return_address_register = d_return_address_register d,
     fde_augmentation_data_size = 0,
     initial_instructions = Cfi_Data (d_initial_instructions d),
     initial_instructions_end = Cfi_Data (d_initial_instructions_end d),
     fde_encoding = DW_EH_PE_absptr, lsda_encoding = DW_EH_PE_omit,
     sized_augmentation_data = False, signal_frame = False, cie_calc_ctx = zero_ctx\<rparr>"

text \<open>
  The default rules are computed once, with the alignment factors of the first CIE seen. The
  call's return value is ignored; it never fails on these bytes (\<open>default_rules_total\<close> below).
\<close>

definition init_default ::
  "arch \<Rightarrow> allocs \<Rightarrow> bytes \<Rightarrow> gu_cfi_cie \<Rightarrow> cfi_globals \<Rightarrow> cfi_globals cres" where
  "init_default a mem buf cie g =
     (if default_init g then Ok g
      else
        (case init_calc_ctx_by_ins a (mem A_Saved) buf cie (default_calc_ctx g)
               (Default_Cfi 0) (Default_Cfi (length (default_init_cfi a))) 0 UINT64_MAX of
           Ok ctx \<Rightarrow> Ok (g\<lparr>default_init := True, default_calc_ctx := ctx\<rparr>)
         | Fail \<Rightarrow> Ok (g\<lparr>default_init := True\<rparr>)
         | Undef k \<Rightarrow> Undef k))"

definition init_cie_from_buf ::
  "arch \<Rightarrow> allocs \<Rightarrow> cfi_globals \<Rightarrow> gu_cfi \<Rightarrow> u64 \<Rightarrow> dwarf_cie \<Rightarrow>
     (cfi_globals \<times> gu_cfi \<times> gu_cfi_cie option) cres" where
  "init_cie_from_buf a mem g cfi cie_off d =
     (if \<not> mem A_Cie then Ok (g, cfi, None)
      else let cfi' = cfi\<lparr>cfi_mem_usage := cfi_mem_usage cfi + sizeof_cie\<rparr> in
        cbind (augmentation_loop (cfi_data cfi) (d_augmentation d) (d_augmentation_data d)
                 (blank_cie cie_off d)) (\<lambda>cie.
        let cie' = (if fde_encoding cie AND 0xf = DW_EH_PE_absptr
                    then cie\<lparr>fde_encoding := fde_encoding cie OR DW_EH_PE_udata8\<rparr> else cie) in
        cbind (init_default a mem (cfi_data cfi) cie' g) (\<lambda>g'.
        let cie'' = cie'\<lparr>cie_calc_ctx := (default_calc_ctx g')\<lparr>prev := []\<rparr>\<rparr> in
        (case init_calc_ctx_by_ins a (mem A_Saved) (cfi_data cfi) cie'' (cie_calc_ctx cie'')
                (initial_instructions cie'') (initial_instructions_end cie'') 0 UINT64_MAX of
           Ok ctx \<Rightarrow> Ok (g', cfi', Some (cie''\<lparr>cie_calc_ctx := ctx\<rparr>))
         | Fail \<Rightarrow> Ok (g', cfi', None)
         | Undef k \<Rightarrow> Undef k))))"

subsection \<open>FDEs\<close>

definition hash_key :: "u64 \<Rightarrow> u32" where
  "hash_key off = ucast off"

definition find_cie :: "gu_cfi_cie list \<Rightarrow> u64 \<Rightarrow> gu_cfi_cie option" where
  "find_cie cies off = find (\<lambda>c. hash_key (cie_offset c) = hash_key off) cies"

text \<open>
  The CIE of an FDE: found, or read and added. \<open>HASH_ADD_INT\<close> writes through the new pointer
  without a NULL check.
\<close>

definition lookup_cie ::
  "arch \<Rightarrow> allocs \<Rightarrow> next_cfi \<Rightarrow> cfi_globals \<Rightarrow> gu_cfi \<Rightarrow> u64 \<Rightarrow>
     (cfi_globals \<times> gu_cfi \<times> gu_cfi_cie option) cres" where
  "lookup_cie a mem next_cfi g cfi off_cie =
     (case find_cie (cie_list cfi) off_cie of
        Some cie \<Rightarrow> Ok (g, cfi, Some cie)
      | None \<Rightarrow>
          (case next_cfi off_cie of
             None \<Rightarrow> Ok (g, cfi, None)
           | Some (_, FDE_Entry _) \<Rightarrow> Ok (g, cfi, None)
           | Some (_, CIE_Entry d) \<Rightarrow>
               cbind (init_cie_from_buf a mem g cfi off_cie d) (\<lambda>(g', cfi', r).
                 case r of
                   None \<Rightarrow> Undef NullDeref
                 | Some cie \<Rightarrow> Ok (g', cfi'\<lparr>cie_list := cie_list cfi' @ [cie]\<rparr>, Some cie))))"

definition skip_augmentation :: "gu_cfi_cie \<Rightarrow> bytes \<Rightarrow> bytes cres" where
  "skip_augmentation cie buf =
     (if sized_augmentation_data cie then
        cbind (decode_read_checked buf DW_EH_PE_uleb128) (\<lambda>(len, buf').
          if \<not> block_fits buf' len then Fail else Ok (drop (unat len) buf'))
      else if \<not> block_fits buf (fde_augmentation_data_size cie) then Fail
      else Ok (drop (unat (fde_augmentation_data_size cie)) buf))"

definition decode_fde :: "arch \<Rightarrow> u64 \<Rightarrow> bytes \<Rightarrow> gu_cfi_cie \<Rightarrow> dwarf_fde \<Rightarrow> gu_cfi_fde cres" where
  "decode_fde a shoff data cie d =
     cbind (ins_window a data (Cfi_Data (d_start d)) (Cfi_Data (d_end d))) (\<lambda>buf.
     cbind (decode_read_checked buf (fde_encoding cie)) (\<lambda>(pc, buf1).
     cbind (decode_read_checked buf1 (fde_encoding cie)) (\<lambda>(size, buf2).
     cbind (skip_augmentation cie buf2) (\<lambda>buf3.
       let pc' = (if fde_encoding cie AND 0x70 = DW_EH_PE_pcrel
                  then shoff + of_nat (d_start d) + pc else pc) in
       if pc' + size < pc' then Fail
       else Ok \<lparr>fde_cie = Some cie, fde_start = pc', fde_end = pc' + size,
                instructions = Cfi_Data (d_end d - length buf3),
                instructions_end = Cfi_Data (d_end d)\<rparr>))))"

definition init_fde_from_entry ::
  "arch \<Rightarrow> allocs \<Rightarrow> next_cfi \<Rightarrow> cfi_globals \<Rightarrow> gu_cfi \<Rightarrow> dwarf_fde \<Rightarrow>
     (cfi_globals \<times> gu_cfi \<times> gu_cfi_fde option) cres" where
  "init_fde_from_entry a mem next_cfi g cfi d =
     cbind (lookup_cie a mem next_cfi g cfi (CIE_pointer d)) (\<lambda>(g', cfi', r).
       case r of
         None \<Rightarrow> Ok (g', cfi', None)
       | Some cie \<Rightarrow>
           (case decode_fde a (sh_off cfi') (cfi_data cfi') cie d of
              Ok fde \<Rightarrow> Ok (g', cfi', Some fde)
            | Fail \<Rightarrow> Ok (g', cfi', None)
            | Undef k \<Rightarrow> Undef k))"

subsection \<open>The FDE index\<close>

text \<open>A \<open>Dwarf_CFI_Entry\<close> read as an FDE: the union overlays a CIE's instruction pointers.\<close>

fun entry_fde :: "cfi_entry \<Rightarrow> dwarf_fde" where
  "entry_fde (FDE_Entry d) = d"
| "entry_fde (CIE_Entry d) =
     \<lparr>CIE_pointer = UINT64_MAX, d_start = d_initial_instructions d, d_end = d_initial_instructions_end d\<rparr>"

definition fde_addr :: "gu_cfi \<Rightarrow> nat \<Rightarrow> u64" where
  "fde_addr cfi i = fdes_base cfi + sizeof_fde * of_nat i"

definition fde_item :: "gu_cfi \<Rightarrow> nat \<Rightarrow> gu_cfi_fde \<Rightarrow> interval_array_item" where
  "fde_item cfi i fde = \<lparr>ia_start = fde_start fde, ia_end = fde_end fde,
     ia_private = mark_interval_array_pointer_no_free (fde_addr cfi i)\<rparr>"

type_synonym build = "cfi_globals \<times> gu_cfi \<times> interval_array_item list"

definition add_fde :: "cfi_globals \<Rightarrow> gu_cfi \<Rightarrow> interval_array_item list \<Rightarrow> gu_cfi_fde \<Rightarrow> build" where
  "add_fde g cfi items fde =
     (g, cfi\<lparr>fdes := fdes cfi @ [fde]\<rparr>, items @ [fde_item cfi (length items) fde])"

text \<open>
  One pass of the loop over the header's table; \<open>Some buf'\<close> is the rest of the table when the
  loop goes on, \<open>None\<close> when it ends or breaks.
\<close>

definition hdr_step ::
  "arch \<Rightarrow> allocs \<Rightarrow> next_cfi \<Rightarrow> u64 \<Rightarrow> u64 \<Rightarrow> bytes \<Rightarrow> build \<Rightarrow> (build \<times> bytes option) cres" where
  "hdr_step a mem next_cfi eh_frame_ptr nfdes buf b =
     (case b of (g, cfi, items) \<Rightarrow>
      if \<not> (of_nat (length items) < nfdes \<and> buf \<noteq> []) then Ok (b, None)
      else
        (case decode_read_checked buf DW_EH_PE_sdata4 of
           Undef k \<Rightarrow> Undef k | Fail \<Rightarrow> Ok (b, None)
         | Ok (loc, buf1) \<Rightarrow>
        (case decode_read_checked buf1 DW_EH_PE_sdata4 of
           Undef k \<Rightarrow> Undef k | Fail \<Rightarrow> Ok (b, None)
         | Ok (addr, buf2) \<Rightarrow>
        (case next_cfi (addr - (eh_frame_ptr + 4)) of
           None \<Rightarrow> Ok (b, None)
         | Some (_, e) \<Rightarrow>
             cbind (init_fde_from_entry a mem next_cfi g cfi (entry_fde e)) (\<lambda>(g', cfi', r).
               case r of
                 None \<Rightarrow> Ok ((g', cfi', items), None)
               | Some fde \<Rightarrow> Ok (add_fde g' cfi' items fde, Some buf2))))))"

lemmas asm_splits = if_split_asm cres.split_asm option.split_asm prod.split_asm cfi_entry.split_asm

lemma hdr_step_shorter:
  "hdr_step a mem nc p n buf b = Ok (b', Some buf') \<Longrightarrow> length buf' < length buf"
  unfolding hdr_step_def
  by (auto elim!: cbind_OkE dest!: decode_read_checked_shorter split: asm_splits)

function hdr_loop ::
  "arch \<Rightarrow> allocs \<Rightarrow> next_cfi \<Rightarrow> u64 \<Rightarrow> u64 \<Rightarrow> bytes \<Rightarrow> build \<Rightarrow> build cres" where
  "hdr_loop a mem next_cfi eh_frame_ptr nfdes buf b =
     cbind (hdr_step a mem next_cfi eh_frame_ptr nfdes buf b) (\<lambda>(b', r).
       case r of None \<Rightarrow> Ok b'
       | Some buf' \<Rightarrow> hdr_loop a mem next_cfi eh_frame_ptr nfdes buf' b')"
  by pat_completeness auto
termination
  by (relation "measure (\<lambda>(a, m, nc, p, c, buf, b). length buf)") (auto dest!: hdr_step_shorter)

declare hdr_loop.simps [simp del]

text \<open>Both builders end by sorting the items into the index.\<close>

definition finish_index :: "allocs \<Rightarrow> u64 \<Rightarrow> build \<Rightarrow> cfi_globals \<times> gu_cfi option" where
  "finish_index mem item_cost b =
     (case b of (g, cfi, items) \<Rightarrow>
        (case fst (gu_interval_array_init (mem A_Array) (mem A_Array_Items) items) of
           None \<Rightarrow> (g, None)
         | Some arr \<Rightarrow>
             (g, Some (cfi\<lparr>hdr_interval_array := Some arr,
                            cfi_mem_usage := cfi_mem_usage cfi + of_nat (length items) * item_cost\<rparr>))))"

definition gu_cfi_hdr_init_by_hdr ::
  "arch \<Rightarrow> allocs \<Rightarrow> next_cfi \<Rightarrow> cfi_globals \<Rightarrow> gu_cfi \<Rightarrow> bytes \<Rightarrow> (cfi_globals \<times> gu_cfi option) cres" where
  "gu_cfi_hdr_init_by_hdr a mem next_cfi g cfi buf =
     (if length buf < 4 then Ok (g, None)
      else if buf ! 0 \<noteq> 1 then Ok (g, None)
      else if buf ! 1 = DW_EH_PE_omit \<or> buf ! 2 = DW_EH_PE_omit \<or> buf ! 3 = DW_EH_PE_omit
      then Ok (g, None)
      else
        (case decode_read_checked (drop 4 buf) (buf ! 1) of
           Undef k \<Rightarrow> Undef k | Fail \<Rightarrow> Ok (g, None)
         | Ok (eh_frame_ptr, buf1) \<Rightarrow>
        (case decode_read_checked buf1 (buf ! 2) of
           Undef k \<Rightarrow> Undef k | Fail \<Rightarrow> Ok (g, None)
         | Ok (nfdes, buf2) \<Rightarrow>
           if \<not> mem A_Items \<or> \<not> mem A_Fdes then Ok (g, None)
           else
             cbind (hdr_loop a mem next_cfi eh_frame_ptr nfdes buf2
                      (g, cfi\<lparr>eh_frame := True, fde_count := nfdes,
                             cfi_mem_usage := cfi_mem_usage cfi + nfdes * sizeof_fde\<rparr>, [])) (\<lambda>b.
               Ok (finish_index mem sizeof_item b)))))"

subsection \<open>Building by a scan\<close>

fun scan_count :: "nat \<Rightarrow> next_cfi \<Rightarrow> u64 \<Rightarrow> nat \<Rightarrow> nat option" where
  "scan_count 0 next_cfi off nfdes = None"
| "scan_count (Suc fuel) next_cfi off nfdes =
     (case next_cfi off of
        None \<Rightarrow> Some nfdes
      | Some (next_off, CIE_Entry _) \<Rightarrow> scan_count fuel next_cfi next_off nfdes
      | Some (next_off, FDE_Entry _) \<Rightarrow> scan_count fuel next_cfi next_off (Suc nfdes))"

fun scan_fdes ::
  "nat \<Rightarrow> arch \<Rightarrow> allocs \<Rightarrow> next_cfi \<Rightarrow> nat \<Rightarrow> u64 \<Rightarrow> build \<Rightarrow> build cres option" where
  "scan_fdes 0 a mem next_cfi n off b = None"
| "scan_fdes (Suc fuel) a mem next_cfi n off (g, cfi, items) =
     (case next_cfi off of
        None \<Rightarrow> Some (Ok (g, cfi, items))
      | Some (next_off, CIE_Entry _) \<Rightarrow> scan_fdes fuel a mem next_cfi n next_off (g, cfi, items)
      | Some (next_off, FDE_Entry d) \<Rightarrow>
          (if n \<le> length items then Some (Undef OutOfBounds)
           else
             (case init_fde_from_entry a mem next_cfi g cfi d of
                Undef k \<Rightarrow> Some (Undef k)
              | Fail \<Rightarrow> Some Fail
              | Ok (g', cfi', None) \<Rightarrow> Some (Ok (g', cfi', items))
              | Ok (g', cfi', Some fde) \<Rightarrow>
                  scan_fdes fuel a mem next_cfi n next_off (add_fde g' cfi' items fde))))"

definition gu_cfi_hdr_init_by_scan ::
  "nat \<Rightarrow> arch \<Rightarrow> allocs \<Rightarrow> next_cfi \<Rightarrow> cfi_globals \<Rightarrow> gu_cfi \<Rightarrow> bool \<Rightarrow>
     (cfi_globals \<times> gu_cfi option) cres option" where
  "gu_cfi_hdr_init_by_scan fuel a mem next_cfi g cfi is_eh =
     (case scan_count fuel next_cfi 0 0 of
        None \<Rightarrow> None
      | Some n \<Rightarrow>
          if \<not> mem A_Items \<or> \<not> mem A_Fdes then Some (Ok (g, None))
          else
            (case scan_fdes fuel a mem next_cfi n 0 (g, cfi\<lparr>eh_frame := is_eh\<rparr>, []) of
               None \<Rightarrow> None
             | Some r \<Rightarrow> Some (cbind r (\<lambda>b. Ok (finish_index mem 0 b)))))"

subsection \<open>Opening and closing\<close>

datatype elf_scn_type =
    ELF_SCN_TYPE_GO_BUILD_ID | ELF_SCN_TYPE_GNU_BUILD_ID | ELF_SCN_TYPE_SYMTAB | ELF_SCN_TYPE_DYNSYM
  | ELF_SCN_TYPE_DWARF_FRAME | ELF_SCN_TYPE_DWARF_FRAME_HDR | ELF_SCN_TYPE_ZDWARF_FRAME
  | ELF_SCN_TYPE_ZDWARF_FRAME_HDR | ELF_SCN_TYPE_EH_FRAME | ELF_SCN_TYPE_EH_FRAME_HDR
  | ELF_SCN_TYPE_GNU_DEBUGLINK

text \<open>
  What libelf answers about one section: its header, if \<open>gelf_getshdr\<close> succeeds, its data after
  any decompression, and the size of the identification of the file it is in.
\<close>

record elf_scn =
  sh_size :: u64
  sh_addr :: u64
  shdr_ok :: bool
  scn_data :: "bytes option"
  scn_ident :: "nat option"

definition blank_cfi :: "u64 \<Rightarrow> u64 \<Rightarrow> bytes \<Rightarrow> gu_cfi" where
  "blank_cfi base frame_shoff data =
     \<lparr>hdr_interval_array = None, sh_off = frame_shoff, eh_frame = False,
      cfi_mem_usage = sizeof_elf_data, cfi_data_mem_usage = of_nat (length data), cie_list = [],
      fde_count = 0, fdes_base = base, fdes = [], cfi_data = data,
      parse_cache = replicate 64
        (let z = \<lparr>cached_size = 0, cached_ops = []\<rparr> in
         \<lparr>pce_valid = False, pce_pc = 0, pce_signal_frame = False,
          pce_rip = z, pce_rbp = z, pce_rsp = z, pce_cfa = z\<rparr>),
      freed_chains = []\<rparr>"

text \<open>\<open>cfi_data\<close> and its buffer are written without checking \<open>malloc\<close>.\<close>

definition gu_cfi_init_with_hdr ::
  "nat \<Rightarrow> arch \<Rightarrow> allocs \<Rightarrow> next_cfi \<Rightarrow> u64 \<Rightarrow> cfi_globals \<Rightarrow> nat option \<Rightarrow> bytes option \<Rightarrow> bytes \<Rightarrow> u64 \<Rightarrow> bool \<Rightarrow>
     (cfi_globals \<times> gu_cfi option) cres option" where
  "gu_cfi_init_with_hdr fuel a mem next_cfi base g ident hdr_scn_data scn_bytes frame_shoff is_eh =
     (if \<not> mem A_Cfi then Some (Ok (g, None))
      else if ident = None \<or> \<not> mem A_Ident then Some (Ok (g, None))
      else if \<not> mem A_Data \<or> (\<not> mem A_Data_Buf \<and> scn_bytes \<noteq> []) then Some (Undef NullDeref)
      else let cfi = blank_cfi base frame_shoff scn_bytes in
        (case hdr_scn_data of
           Some hdr_buf \<Rightarrow> Some (gu_cfi_hdr_init_by_hdr a mem next_cfi g cfi hdr_buf)
         | None \<Rightarrow> gu_cfi_hdr_init_by_scan fuel a mem next_cfi g cfi is_eh))"

definition choose_frame_scn :: "(elf_scn_type \<Rightarrow> elf_scn option) \<Rightarrow> elf_scn_type option" where
  "choose_frame_scn scn =
     (case (scn ELF_SCN_TYPE_DWARF_FRAME, scn ELF_SCN_TYPE_EH_FRAME, scn ELF_SCN_TYPE_ZDWARF_FRAME) of
        (None, None, None) \<Rightarrow> None
      | (Some d, Some e, _) \<Rightarrow>
          Some (if sh_size e > sh_size d then ELF_SCN_TYPE_EH_FRAME else ELF_SCN_TYPE_DWARF_FRAME)
      | (Some d, None, _) \<Rightarrow> Some ELF_SCN_TYPE_DWARF_FRAME
      | (None, Some e, _) \<Rightarrow> Some ELF_SCN_TYPE_EH_FRAME
      | (None, None, Some z) \<Rightarrow> Some ELF_SCN_TYPE_ZDWARF_FRAME)"

definition use_eh_frame_hdr :: "(elf_scn_type \<Rightarrow> elf_scn option) \<Rightarrow> elf_scn_type \<Rightarrow> bool" where
  "use_eh_frame_hdr scn t \<longleftrightarrow>
     t = ELF_SCN_TYPE_EH_FRAME \<and>
     (scn ELF_SCN_TYPE_GO_BUILD_ID = None \<or>
      (scn ELF_SCN_TYPE_GO_BUILD_ID \<noteq> None \<and> scn ELF_SCN_TYPE_ZDWARF_FRAME = None \<and>
       scn ELF_SCN_TYPE_DWARF_FRAME = None))"

definition gu_cfi_init ::
  "nat \<Rightarrow> arch \<Rightarrow> allocs \<Rightarrow> next_cfi \<Rightarrow> u64 \<Rightarrow> cfi_globals \<Rightarrow> (elf_scn_type \<Rightarrow> elf_scn option) \<Rightarrow>
     (cfi_globals \<times> gu_cfi option) cres option" where
  "gu_cfi_init fuel a mem next_cfi base g scn =
     (case choose_frame_scn scn of
        None \<Rightarrow> Some (Ok (g, None))
      | Some t \<Rightarrow>
          (case scn t of
             None \<Rightarrow> Some (Ok (g, None))
           | Some s \<Rightarrow>
               let hdr_data = (if use_eh_frame_hdr scn t
                               then Option.bind (scn ELF_SCN_TYPE_EH_FRAME_HDR) scn_data else None) in
               if \<not> shdr_ok s then Some (Ok (g, None))
               else
                 (case scn_data s of
                    None \<Rightarrow> Some (Ok (g, None))
                  | Some data \<Rightarrow>
                      gu_cfi_init_with_hdr fuel a mem next_cfi base g (scn_ident s) hdr_data data
                        (sh_addr s) (t = ELF_SCN_TYPE_EH_FRAME))))"

datatype cfi_free = Free_Ident | Free_Data | Free_Fdes | Free_Payload u64 | Free_Cie u64 | Free_Cfi

definition gu_cfi_destroy :: "gu_cfi option \<Rightarrow> cfi_free list" where
  "gu_cfi_destroy c =
     (case c of
        None \<Rightarrow> []
      | Some cfi \<Rightarrow> [Free_Ident, Free_Data, Free_Fdes] @
          map Free_Payload (gu_interval_array_destroy (hdr_interval_array cfi)) @
          map (Free_Cie \<circ> cie_offset) (cie_list cfi) @ [Free_Cfi])"

subsection \<open>Finding the FDE of a pc\<close>

text \<open>A pointer to an FDE, read back: the payload of an interval.\<close>

definition fde_at :: "gu_cfi \<Rightarrow> u64 \<Rightarrow> gu_cfi_fde cres" where
  "fde_at cfi p =
     (let d = unat (p - fdes_base cfi) in
      if d mod 40 = 0 \<and> d div 40 < length (fdes cfi) then Ok (fdes cfi ! (d div 40))
      else Undef WildPointer)"

definition find_fde :: "gu_cfi \<Rightarrow> u64 \<Rightarrow> gu_cfi_fde cres" where
  "find_fde cfi pc =
     (case hdr_interval_array cfi of
        None \<Rightarrow> Fail
      | Some arr \<Rightarrow>
          (case gu_interval_array_search (Some arr) pc (Some \<lparr>ia_start = 0, ia_end = 0, ia_private = 0\<rparr>) of
             (ret, item) \<Rightarrow>
               if ret < 0 then Fail
               else let p = fst (get_interval_array_pointer (ia_private (the item))) in
                 if p = 0 then Fail else fde_at cfi p))"

subsection \<open>The table invariant\<close>

text \<open>Item \<open>i\<close> describes FDE \<open>i\<close>.\<close>

definition table_items :: "gu_cfi \<Rightarrow> interval_array_item list" where
  "table_items cfi = map (\<lambda>i. fde_item cfi i (fdes cfi ! i)) [0..<length (fdes cfi)]"

fun build_ok :: "build \<Rightarrow> bool" where
  "build_ok (g, cfi, items) \<longleftrightarrow> items = table_items cfi"

definition same_table :: "gu_cfi \<Rightarrow> gu_cfi \<Rightarrow> bool" where
  "same_table cfi cfi' \<longleftrightarrow> fdes cfi' = fdes cfi \<and> fdes_base cfi' = fdes_base cfi \<and>
     cfi_data cfi' = cfi_data cfi \<and> sh_off cfi' = sh_off cfi"

lemma fde_item_cong: "fdes_base cfi' = fdes_base cfi \<Longrightarrow> fde_item cfi' = fde_item cfi"
  by (auto simp: fun_eq_iff fde_item_def fde_addr_def)

lemma same_table_items: "same_table cfi cfi' \<Longrightarrow> table_items cfi' = table_items cfi"
  unfolding same_table_def table_items_def by (simp add: fde_item_cong [of cfi' cfi])

lemma same_table_refl [simp]: "same_table cfi cfi"
  by (simp add: same_table_def)

lemma init_cie_same: "init_cie_from_buf a mem g cfi off d = Ok (g', cfi', r) \<Longrightarrow> same_table cfi cfi'"
  unfolding init_cie_from_buf_def Let_def
  by (auto elim!: cbind_OkE simp: same_table_def split: asm_splits)

lemma lookup_cie_same: "lookup_cie a mem nc g cfi off = Ok (g', cfi', r) \<Longrightarrow> same_table cfi cfi'"
  unfolding lookup_cie_def
  by (auto elim!: cbind_OkE simp: same_table_def dest!: init_cie_same split: asm_splits)

lemma init_fde_same:
  "init_fde_from_entry a mem nc g cfi d = Ok (g', cfi', r) \<Longrightarrow> same_table cfi cfi'"
  unfolding init_fde_from_entry_def
  by (auto elim!: cbind_OkE dest!: lookup_cie_same split: asm_splits)

lemma add_fde_ok: "build_ok (g, cfi, items) \<Longrightarrow> build_ok (add_fde g cfi items fde)"
  by (auto simp: add_fde_def table_items_def fde_item_def fde_addr_def nth_append)

lemma init_fde_ok:
  "init_fde_from_entry a mem nc g cfi d = Ok (g', cfi', r) \<Longrightarrow> build_ok (g, cfi, items) \<Longrightarrow>
   build_ok (g', cfi', items)"
  by (simp add: same_table_items [OF init_fde_same])

declare build_ok.simps [simp del]

lemma hdr_step_ok:
  "hdr_step a mem nc p n buf b = Ok (b', r) \<Longrightarrow> build_ok b \<Longrightarrow> build_ok b'"
  unfolding hdr_step_def
  by (auto elim!: cbind_OkE split: asm_splits) (metis add_fde_ok init_fde_ok)+

lemma hdr_loop_Ok:
  "hdr_loop a mem nc p n buf b = Ok b' \<longleftrightarrow>
   (\<exists>b1 r. hdr_step a mem nc p n buf b = Ok (b1, r) \<and>
     (case r of None \<Rightarrow> b' = b1 | Some buf' \<Rightarrow> hdr_loop a mem nc p n buf' b1 = Ok b'))"
  by (subst hdr_loop.simps) (auto simp: cbind_eq_Ok split: option.splits)

lemma hdr_loop_ok:
  "hdr_loop a mem nc p n buf b = Ok b' \<Longrightarrow> build_ok b \<Longrightarrow> build_ok b'"
proof (induction "length buf" arbitrary: buf b rule: less_induct)
  case less
  then obtain b1 r where s: "hdr_step a mem nc p n buf b = Ok (b1, r)"
      "case r of None \<Rightarrow> b' = b1 | Some buf' \<Rightarrow> hdr_loop a mem nc p n buf' b1 = Ok b'"
    by (subst (asm) hdr_loop_Ok) blast
  have b1: "build_ok b1" using hdr_step_ok [OF s(1) less.prems(2)] .
  show ?case
  proof (cases r)
    case None
    then show ?thesis using s(2) b1 by simp
  next
    case (Some buf')
    then show ?thesis using s less.hyps [OF hdr_step_shorter _ b1] by simp
  qed
qed

lemma scan_fdes_ok:
  "scan_fdes fuel a mem nc n off b = Some (Ok b') \<Longrightarrow> build_ok b \<Longrightarrow> build_ok b'"
proof (induction fuel arbitrary: off b)
  case (Suc fuel)
  obtain g cfi items where b: "b = (g, cfi, items)" by (cases b)
  from Suc.prems show ?case unfolding b
    by (auto split: asm_splits) (metis Suc.IH add_fde_ok init_fde_ok)+
qed simp

text \<open>A finished table: the index was built from the items of its own FDEs.\<close>

definition table_ok :: "gu_cfi \<Rightarrow> bool" where
  "table_ok cfi \<longleftrightarrow> (\<exists>arr. hdr_interval_array cfi = Some arr \<and> interval_build (table_items cfi) = Some arr)"

lemma init_build: "fst (gu_interval_array_init ca ci items) = Some arr \<Longrightarrow> interval_build items = Some arr"
  by (auto simp: interval_build_def gu_interval_array_init_def Let_def split: if_splits)

lemma finish_index_ok:
  "finish_index mem c b = (g, Some cfi) \<Longrightarrow> build_ok b \<Longrightarrow> table_ok cfi"
  by (cases b)
     (auto simp: build_ok.simps finish_index_def table_ok_def table_items_def fde_item_def fde_addr_def
       dest!: init_build split: asm_splits)

lemma table_ok_by_hdr:
  assumes "gu_cfi_hdr_init_by_hdr a mem nc g cfi buf = Ok (g', Some cfi')" "fdes cfi = []"
  shows "table_ok cfi'"
proof -
  obtain p n u buf2 b where
      l: "hdr_loop a mem nc p n buf2 (g, cfi\<lparr>eh_frame := True, fde_count := n, cfi_mem_usage := u\<rparr>, []) = Ok b"
    and f: "finish_index mem sizeof_item b = (g', Some cfi')"
    using assms(1) unfolding gu_cfi_hdr_init_by_hdr_def
    by (auto elim!: cbind_OkE split: asm_splits simp del: hdr_loop.simps)
  show ?thesis by (rule finish_index_ok [OF f hdr_loop_ok [OF l]]) (simp add: build_ok.simps table_items_def assms(2))
qed

lemma table_ok_by_scan:
  assumes "gu_cfi_hdr_init_by_scan fuel a mem nc g cfi is_eh = Some (Ok (g', Some cfi'))" "fdes cfi = []"
  shows "table_ok cfi'"
proof -
  obtain n b where
      l: "scan_fdes fuel a mem nc n 0 (g, cfi\<lparr>eh_frame := is_eh\<rparr>, []) = Some (Ok b)"
    and f: "finish_index mem 0 b = (g', Some cfi')"
    using assms(1) unfolding gu_cfi_hdr_init_by_scan_def
    by (auto elim!: cbind_OkE split: asm_splits)
  show ?thesis by (rule finish_index_ok [OF f scan_fdes_ok [OF l]]) (simp add: build_ok.simps table_items_def assms(2))
qed

subsection \<open>Lookup\<close>

text \<open>The FDE array lies in the lower half of the address space, as every user-space object does.\<close>

definition user_base :: "gu_cfi \<Rightarrow> bool" where
  "user_base cfi \<longleftrightarrow> fdes_base cfi \<noteq> 0 \<and> unat (fdes_base cfi) + 40 * length (fdes cfi) < 2 ^ 63"

lemma fde_addr_unat:
  assumes "user_base cfi" "i < length (fdes cfi)"
  shows "unat (fde_addr cfi i) = unat (fdes_base cfi) + 40 * i"
proof -
  have "40 * i < 2 ^ 64" "unat (fdes_base cfi) + 40 * i < 2 ^ 64"
    using assms by (auto simp: user_base_def)
  then show ?thesis
    by (simp add: fde_addr_def sizeof_fde_def unat_word_ariths unat_of_nat)
qed

lemma fde_addr_plain:
  assumes "user_base cfi" "i < length (fdes cfi)"
  shows "\<not> bit (fde_addr cfi i) 63" "fde_addr cfi i \<noteq> 0"
proof -
  have u: "unat (fde_addr cfi i) < 2 ^ 63" "0 < unat (fde_addr cfi i)"
    using assms fde_addr_unat [OF assms] by (auto simp: user_base_def unat_gt_0)
  then show "fde_addr cfi i \<noteq> 0" by auto
  have "unat (fde_addr cfi i) div 2 ^ 63 = 0" using u(1) by simp
  then show "\<not> bit (fde_addr cfi i) 63"
    unfolding bit_iff_odd by (simp add: word_arith_nat_div even_of_nat)
qed

lemma fde_at_addr:
  assumes "user_base cfi" "i < length (fdes cfi)"
  shows "fde_at cfi (fde_addr cfi i) = Ok (fdes cfi ! i)"
proof -
  have "40 * i < 2 ^ 64" using assms by (auto simp: user_base_def)
  then have "unat (fde_addr cfi i - fdes_base cfi) = 40 * i"
    by (simp add: fde_addr_def sizeof_fde_def unat_word_ariths unat_of_nat)
  then show ?thesis using assms(2) by (simp add: fde_at_def)
qed

abbreviation fde_covers :: "gu_cfi_fde \<Rightarrow> u64 \<Rightarrow> bool" where
  "fde_covers fde pc \<equiv> fde_start fde \<le> pc \<and> pc < fde_end fde"

text \<open>FDE ranges as a compiler emits them: non-empty and pairwise disjoint.\<close>

definition disjoint_fdes :: "gu_cfi \<Rightarrow> bool" where
  "disjoint_fdes cfi \<longleftrightarrow> (\<forall>i < length (fdes cfi). fde_start (fdes cfi ! i) < fde_end (fdes cfi ! i)) \<and>
     (\<forall>i < length (fdes cfi). \<forall>j < length (fdes cfi). i \<noteq> j \<longrightarrow>
        fde_end (fdes cfi ! i) \<le> fde_start (fdes cfi ! j) \<or> fde_end (fdes cfi ! j) \<le> fde_start (fdes cfi ! i))"

lemma table_item_obtain:
  assumes "x \<in> set (table_items cfi)"
  obtains i where "i < length (fdes cfi)" "x = fde_item cfi i (fdes cfi ! i)"
  using assms by (auto simp: table_items_def)

lemma fde_item_sel [simp]:
  "ia_start (fde_item cfi i fde) = fde_start fde" "ia_end (fde_item cfi i fde) = fde_end fde"
  by (simp_all add: fde_item_def)

lemma disjoint_table:
  assumes d: "disjoint_fdes cfi"
  shows "disjoint_items (table_items cfi)"
proof -
  have sep: "fde_end (fdes cfi ! i) \<le> fde_start (fdes cfi ! j) \<or> fde_end (fdes cfi ! j) \<le> fde_start (fdes cfi ! i)"
    if "i < length (fdes cfi)" "j < length (fdes cfi)" "i \<noteq> j" for i j
    using d that by (auto simp: disjoint_fdes_def)
  have pos: "fde_start (fdes cfi ! i) < fde_end (fdes cfi ! i)" if "i < length (fdes cfi)" for i
    using d that by (auto simp: disjoint_fdes_def)
  have "i = j" if "i < length (fdes cfi)" "j < length (fdes cfi)"
      "fde_item cfi i (fdes cfi ! i) = fde_item cfi j (fdes cfi ! j)" for i j
    using sep [of i j] pos [of i] that(1,2) arg_cong [OF that(3), of ia_start] arg_cong [OF that(3), of ia_end]
    by (cases "i = j") auto
  then have "distinct (table_items cfi)"
    by (auto simp: table_items_def distinct_map intro!: inj_onI)
  moreover have "ia_end x \<le> ia_start y \<or> ia_end y \<le> ia_start x"
    if "x \<in> set (table_items cfi)" "y \<in> set (table_items cfi)" "x \<noteq> y" for x y
    using that sep by (metis table_item_obtain fde_item_sel)
  ultimately show ?thesis
    using pos by (auto simp: disjoint_items_def elim!: table_item_obtain)
qed

lemma built_table:
  assumes "disjoint_fdes cfi"
  shows "set (built (table_items cfi)) = set (table_items cfi)"
proof -
  have "\<forall>x\<in>set (table_items cfi). ia_end x \<noteq> 0"
    using disjoint_table [OF assms] by (auto simp: disjoint_items_def word_less_nat_alt)
  then show ?thesis by (simp add: built_closed qsort_items_def)
qed

lemma fde_unique:
  assumes "disjoint_fdes cfi" "i < length (fdes cfi)" "j < length (fdes cfi)"
    "fde_covers (fdes cfi ! i) pc" "fde_covers (fdes cfi ! j) pc"
  shows "i = j"
proof (rule ccontr)
  assume "i \<noteq> j"
  then have "fde_end (fdes cfi ! i) \<le> fde_start (fdes cfi ! j) \<or> fde_end (fdes cfi ! j) \<le> fde_start (fdes cfi ! i)"
    using assms(1-3) by (auto simp: disjoint_fdes_def)
  then show False using assms(4,5) by auto
qed

lemma find_fde_via:
  assumes "hdr_interval_array cfi = Some arr" "interval_build (table_items cfi) = Some arr"
  shows "find_fde cfi pc =
    (case interval_find arr pc of None \<Rightarrow> Fail
     | Some it \<Rightarrow> let p = fst (get_interval_array_pointer (ia_private it)) in
         if p = 0 then Fail else fde_at cfi p)"
proof -
  have "ia_ok arr" using assms(2) by (auto simp: interval_build_def intro: init_ok)
  note s = search_via_find [OF this, of pc "\<lparr>ia_start = 0, ia_end = 0, ia_private = 0\<rparr>"]
  show ?thesis
    using s by (cases "interval_find arr pc") (auto simp: find_fde_def assms(1) split: prod.splits)
qed

lemma find_fde_hit:
  assumes "table_ok cfi" "disjoint_fdes cfi" "user_base cfi"
    and i: "i < length (fdes cfi)" "fde_covers (fdes cfi ! i) pc"
  shows "find_fde cfi pc = Ok (fdes cfi ! i)"
proof -
  obtain arr where arr: "hdr_interval_array cfi = Some arr" "interval_build (table_items cfi) = Some arr"
    using assms(1) by (auto simp: table_ok_def)
  let ?it = "fde_item cfi i (fdes cfi ! i)"
  have "?it \<in> set (built (table_items cfi))"
    unfolding built_table [OF assms(2)] using i(1) by (auto simp: table_items_def)
  then have "interval_find arr pc = Some (untag_item ?it)"
    using ia.find_hit [OF arr(2) proper_disjoint_items [OF disjoint_table [OF assms(2)]]] i(2) by simp
  moreover have "ia_private (untag_item ?it) = fde_addr cfi i"
    using fde_addr_plain [OF assms(3) i(1)] by (simp add: untag_item_def fde_item_def)
  ultimately show ?thesis
    using fde_addr_plain [OF assms(3) i(1)] fde_at_addr [OF assms(3) i(1)]
    by (simp add: find_fde_via [OF arr])
qed

lemma find_fde_none:
  assumes "table_ok cfi" "disjoint_fdes cfi"
    and "\<And>i. i < length (fdes cfi) \<Longrightarrow> \<not> fde_covers (fdes cfi ! i) pc"
  shows "find_fde cfi pc = Fail"
proof -
  obtain arr where arr: "hdr_interval_array cfi = Some arr" "interval_build (table_items cfi) = Some arr"
    using assms(1) by (auto simp: table_ok_def)
  have "\<forall>e\<in>set (built (table_items cfi)). \<not> item_covers e pc"
    unfolding built_table [OF assms(2)] using assms(3) by (auto simp: table_items_def)
  then have "interval_find arr pc = None"
    using ia.find_miss [OF arr(2) proper_disjoint_items [OF disjoint_table [OF assms(2)]]] by simp
  then show ?thesis by (simp add: find_fde_via [OF arr])
qed

text \<open>
  C11. Looking a pc up in a finished table is exact: with non-empty disjoint FDE ranges the
  search returns the one FDE whose range contains the pc, and fails exactly when there is none.
  It never follows a stray payload pointer.
\<close>

theorem find_fde_exact:
  assumes "table_ok cfi" "disjoint_fdes cfi" "user_base cfi"
  shows "(find_fde cfi pc = Ok fde \<longleftrightarrow> (\<exists>i < length (fdes cfi). fdes cfi ! i = fde \<and> fde_covers fde pc)) \<and>
    (find_fde cfi pc = Fail \<longleftrightarrow> (\<forall>i < length (fdes cfi). \<not> fde_covers (fdes cfi ! i) pc))"
proof (cases "\<exists>i < length (fdes cfi). fde_covers (fdes cfi ! i) pc")
  case True
  then obtain i where i: "i < length (fdes cfi)" "fde_covers (fdes cfi ! i) pc" by blast
  have eq: "find_fde cfi pc = Ok (fdes cfi ! i)" by (rule find_fde_hit [OF assms i])
  have "fde = fdes cfi ! i" if "j < length (fdes cfi)" "fdes cfi ! j = fde" "fde_covers fde pc" for j
    using fde_unique [OF assms(2) that(1) i(1), of pc] that i(2) by simp
  then have "fdes cfi ! i = fde \<longleftrightarrow> (\<exists>j < length (fdes cfi). fdes cfi ! j = fde \<and> fde_covers fde pc)"
    using i by metis
  then show ?thesis unfolding eq using i by auto
next
  case False
  then have eq: "find_fde cfi pc = Fail" by (intro find_fde_none [OF assms(1,2)]) blast
  show ?thesis unfolding eq using False by auto
qed

subsection \<open>Scanning ends\<close>

text \<open>What \<open>dwarf_next_cfi\<close> documents: the nx offset lies behind and inside the section.\<close>

definition advancing :: "next_cfi \<Rightarrow> nat \<Rightarrow> bool" where
  "advancing nc len \<longleftrightarrow> (\<forall>off nx e. nc off = Some (nx, e) \<longrightarrow> unat off < unat nx \<and> unat nx \<le> len)"

lemma scan_count_total:
  "advancing nc len \<Longrightarrow> len - unat off < fuel \<Longrightarrow> \<exists>n. scan_count fuel nc off c = Some n"
proof (induction fuel arbitrary: off c)
  case (Suc fuel)
  show ?case
  proof (cases "nc off")
    case (Some x)
    obtain nx e where x: "x = (nx, e)" by (cases x)
    then have "unat off < unat nx" "unat nx \<le> len" using Suc.prems(1) Some unfolding advancing_def by blast+
    then have "len - unat nx < fuel" using Suc.prems(2) by linarith
    then show ?thesis using Suc.IH [OF Suc.prems(1)] Some x by (auto split: cfi_entry.splits)
  qed simp
qed simp

lemma scan_count_le: "scan_count fuel nc off c = Some n \<Longrightarrow> c \<le> n"
  by (induction fuel arbitrary: off c) (fastforce split: asm_splits dest: Suc_leD)+

lemma scan_fdes_capacity:
  "scan_count fuel nc off (length items) = Some n \<Longrightarrow> n \<le> m \<Longrightarrow>
   \<exists>r. scan_fdes fuel a mem nc n off (g, cfi, items) = Some r \<and>
       scan_fdes fuel a mem nc m off (g, cfi, items) = Some r"
proof (induction fuel arbitrary: off g cfi items)
  case (Suc fuel)
  show ?case
  proof (cases "nc off")
    case None
    then show ?thesis by simp
  next
    case (Some x)
    obtain nx e where x: "x = (nx, e)" by (cases x)
    show ?thesis
    proof (cases e)
      case (CIE_Entry d)
      then show ?thesis using Suc Some x by simp
    next
      case (FDE_Entry d)
      then have c: "scan_count fuel nc nx (Suc (length items)) = Some n" using Suc.prems Some x by simp
      then have "\<not> n \<le> length items" "\<not> m \<le> length items" using scan_count_le Suc.prems(2) by fastforce+
      moreover have "\<exists>r. scan_fdes fuel a mem nc n nx (add_fde g' cfi' items fde) = Some r \<and>
          scan_fdes fuel a mem nc m nx (add_fde g' cfi' items fde) = Some r" for g' cfi' fde
        using Suc.IH [of nx "items @ [fde_item cfi' (length items) fde]"] c Suc.prems(2)
        by (simp add: add_fde_def)
      ultimately show ?thesis using Some x FDE_Entry by (simp split: cres.split option.split)
    qed
  qed
qed simp

text \<open>
  C25. Building the index by a scan ends: when \<open>dwarf_next_cfi\<close> moves forward inside the section,
  one pass per byte is enough for both loops, and the second loop finds at most the entries the
  first one counted, so a larger array would not change its result.
\<close>

theorem scan_terminates:
  assumes "advancing nc len"
  shows "\<exists>n r. scan_count (Suc len) nc 0 0 = Some n \<and>
    (\<forall>m \<ge> n. scan_fdes (Suc len) a mem nc m 0 (g, cfi, []) = Some r)"
proof -
  obtain n where n: "scan_count (Suc len) nc 0 0 = Some n"
    using scan_count_total [OF assms, of 0 "Suc len" 0] by auto
  have "\<exists>r. scan_fdes (Suc len) a mem nc n 0 (g, cfi, []) = Some r \<and>
      scan_fdes (Suc len) a mem nc m 0 (g, cfi, []) = Some r" if "n \<le> m" for m
    using scan_fdes_capacity [of "Suc len" nc 0 "[]" n m] n that by simp
  then show ?thesis using n by (metis order_refl option.inject)
qed

subsection \<open>Destroying a table\<close>

lemma init_privates:
  "fst (gu_interval_array_init ca ci items) = Some arr \<Longrightarrow>
   map ia_private (array_view arr) = map ia_private (built items)"
  by (erule init_Some_cases) (simp_all add: array_view_def narrow_item_def comp_def)


subsection \<open>A concrete table\<close>

definition sample_fde :: "u64 \<Rightarrow> u64 \<Rightarrow> gu_cfi_fde" where
  "sample_fde s e = \<lparr>fde_cie = Some sample_cie, fde_start = s, fde_end = e,
     instructions = Cfi_Data 0, instructions_end = Cfi_Data 5\<rparr>"

definition sample_cfi :: gu_cfi where
  "sample_cfi = (let c = (blank_cfi 0x10000 0 [0x0c, 7, 8, 0x90, 1])\<lparr>cie_list := [sample_cie],
       fdes := [sample_fde 0x2000 0x2100, sample_fde 0x1000 0x1800]\<rparr>
     in c\<lparr>hdr_interval_array := interval_build (table_items c)\<rparr>)"

lemma sample_fdes: "fdes sample_cfi = [sample_fde 0x2000 0x2100, sample_fde 0x1000 0x1800]"
  by (simp add: sample_cfi_def Let_def)

lemma sample_table_ok: "table_ok sample_cfi"
proof -
  let ?c = "(blank_cfi 0x10000 0 [0x0c, 7, 8, 0x90, 1])\<lparr>cie_list := [sample_cie],
       fdes := [sample_fde 0x2000 0x2100, sample_fde 0x1000 0x1800]\<rparr>"
  have "table_items ?c \<noteq> []" by (simp add: table_items_def)
  then obtain arr where "interval_build (table_items ?c) = Some arr" using interval_build_Some by blast
  moreover have "table_items sample_cfi = table_items ?c"
    by (intro same_table_items) (simp add: same_table_def sample_cfi_def Let_def)
  ultimately show ?thesis by (simp add: table_ok_def sample_cfi_def Let_def)
qed

lemma sample_disjoint: "disjoint_fdes sample_cfi" "user_base sample_cfi"
proof -
  show "user_base sample_cfi" by (simp add: user_base_def sample_cfi_def blank_cfi_def Let_def)
  have "i < 2 \<Longrightarrow> i = 0 \<or> i = 1" for i :: nat by auto
  then show "disjoint_fdes sample_cfi"
    by (auto simp: disjoint_fdes_def sample_fdes sample_fde_def numeral_2_eq_2 [symmetric]
        dest!: less_2_cases)
qed

theorem find_fde_exact_witness:
  "find_fde sample_cfi 0x1234 = Ok (sample_fde 0x1000 0x1800) \<and> find_fde sample_cfi 0x1900 = Fail"
proof -
  note e = find_fde_exact [OF sample_table_ok sample_disjoint]
  have "\<exists>i<length (fdes sample_cfi). fdes sample_cfi ! i = sample_fde 0x1000 0x1800 \<and>
      fde_covers (sample_fde 0x1000 0x1800) 0x1234"
    by (rule exI [of _ 1]) (simp add: sample_fdes sample_fde_def)
  moreover have "\<forall>i<length (fdes sample_cfi). \<not> fde_covers (fdes sample_cfi ! i) 0x1900"
    by (auto simp: sample_fdes sample_fde_def numeral_2_eq_2 [symmetric] dest!: less_2_cases)
  ultimately show ?thesis using e by blast
qed

theorem scan_terminates_witness:
  "\<exists>n r. scan_count 101 (\<lambda>off. if off = 0 then Some (100, FDE_Entry \<lparr>CIE_pointer = 0, d_start = 0, d_end = 0\<rparr>) else None) 0 0 = Some n \<and>
    (\<forall>m \<ge> n. scan_fdes 101 X86_64 (\<lambda>_. True)
       (\<lambda>off. if off = 0 then Some (100, FDE_Entry \<lparr>CIE_pointer = 0, d_start = 0, d_end = 0\<rparr>) else None) m 0
       (\<lparr>default_init = False, default_calc_ctx = zero_ctx\<rparr>, sample_cfi, []) = Some r)"
proof -
  have "advancing (\<lambda>off. if off = 0 then Some (100, FDE_Entry \<lparr>CIE_pointer = 0, d_start = 0, d_end = 0\<rparr>) else None) 100"
    by (auto simp: advancing_def)
  then show ?thesis using scan_terminates [of _ 100] by simp
qed



text \<open>
  C12. Every table that opening an ELF file's unwind data delivers, from the header or by a scan,
  is consistent: its index was built from exactly the address ranges of its own FDEs.
\<close>

theorem gu_cfi_init_table_ok:
  assumes "gu_cfi_init fuel a mem nc base g scn = Some (Ok (g', Some cfi))"
  shows "table_ok cfi"
proof -
  have "fdes (blank_cfi base off data) = []" for off data by (simp add: blank_cfi_def)
  then show ?thesis
    using assms unfolding gu_cfi_init_def gu_cfi_init_with_hdr_def Let_def
    by (auto split: asm_splits intro: table_ok_by_hdr table_ok_by_scan)
qed

definition sample_scn :: "elf_scn_type \<Rightarrow> elf_scn option" where
  "sample_scn t = (if t = ELF_SCN_TYPE_EH_FRAME
     then Some \<lparr>sh_size = 10, sh_addr = 0x100, shdr_ok = True,
       scn_data = Some [0x1b, 0x00, 0x10, 0, 0, 0x20, 0, 0, 0, 0], scn_ident = Some 16\<rparr> else None)"

definition sample_next :: next_cfi where
  "sample_next off =
     (if off = 0 then Some (1, CIE_Entry \<lparr>d_code_alignment_factor = 1, d_data_alignment_factor = - 8,
        d_return_address_register = 16, d_augmentation = ''zR'', d_augmentation_data = Some 0,
        d_initial_instructions = 0, d_initial_instructions_end = 0\<rparr>)
      else if off = 1 then Some (10, FDE_Entry \<lparr>CIE_pointer = 0, d_start = 1, d_end = 10\<rparr>)
      else None)"

theorem gu_cfi_init_table_ok_witness:
  "\<exists>g' cfi. gu_cfi_init 3 X86_64 (\<lambda>_. True) sample_next 0x10000
       \<lparr>default_init = True, default_calc_ctx = zero_ctx\<rparr> sample_scn = Some (Ok (g', Some cfi)) \<and>
     table_ok cfi \<and> map fde_start (fdes cfi) = [0x1101] \<and> map fde_end (fdes cfi) = [0x1121]"
proof -
  let ?g = "\<lparr>default_init = True, default_calc_ctx = zero_ctx\<rparr>"
  obtain g' cfi where r: "gu_cfi_init 3 X86_64 (\<lambda>_. True) sample_next 0x10000 ?g sample_scn = Some (Ok (g', Some cfi))"
      "map fde_start (fdes cfi) = [0x1101]" "map fde_end (fdes cfi) = [0x1121]"
    by (simp add: gu_cfi_init_def choose_frame_scn_def use_eh_frame_hdr_def sample_scn_def
        gu_cfi_init_with_hdr_def gu_cfi_hdr_init_by_scan_def sample_next_def numeral_3_eq_3
        init_fde_from_entry_def lookup_cie_def find_cie_def blank_cfi_def init_cie_from_buf_def Let_def
        next_byte_def blank_cie_def init_default_def init_calc_ctx_by_ins_def decode_fde_def
        decode_eval skip_augmentation_def add_fde_def finish_index_def gu_interval_array_init_def
        sext32_def qsort_items_def fde_item_def)
  then show ?thesis using gu_cfi_init_table_ok [OF r(1)] by metis
qed

subsection \<open>The default rules\<close>

lemma default_rules_total:
  "\<exists>ctx'. init_calc_ctx_by_ins a m buf cie ctx (Default_Cfi 0) (Default_Cfi (length (default_init_cfi a))) 0 pc = Ok ctx'"
  by (cases a) (simp_all add: cfi_eval update_reg_def)

text \<open>
  On x86-64 the built-in rules describe the frame at a function's entry: the CFA is the stack
  pointer plus eight, the return address is saved one data-alignment unit from the CFA, the frame
  pointer is unchanged, and the caller's stack pointer is the CFA.
\<close>

lemma default_rules_x86:
  "\<exists>ctx'. init_calc_ctx_by_ins X86_64 m buf cie ctx (Default_Cfi 0) (Default_Cfi 10) 0 UINT64_MAX = Ok ctx' \<and>
     cfa_rule ctx' = cfa_offset \<and> word1 (cfa_data ctx') = Number 7 \<and> cfa_number2 (cfa_data ctx') = 8 \<and>
     rip_reg (regs ctx') = \<lparr>rule = reg_offset, reg_value = ucast (data_alignment_factor cie)\<rparr> \<and>
     rule (rbp_reg (regs ctx')) = reg_same_value \<and>
     rsp_reg (regs ctx') = \<lparr>rule = reg_val_offset, reg_value = 0\<rparr>"
  by (simp add: cfi_eval update_reg_def set_cfa_offset_def trans_reg_type_def to_int_def)

end
