(* ===== verification/Elf_Symbols.thy ===== *)
theory Elf_Symbols
  imports Elf_Debug Elf_Ranges Cfi_Tables
begin

text \<open>
  The symbol table of an image, in \<open>src/gu_stacktrace.c\<close>: the section scan, the cache of
  executable sections, the arena that holds Go symbol names, the string-table view, and
  \<open>fill_symbols_debug_info\<close>, which builds the interval index over function symbols.

  \<^item> What libelf answers about sections, symbols and strings is an argument.
  \<^item> \<open>al n len\<close> is the address the \<open>n\<close>-th allocation of the build returns, 0 for NULL. The strings
    written to memory are the map \<open>heap_names\<close>.
\<close>

unbundle bit_operations_syntax

subsection \<open>Sections\<close>

fun elf_scn_type_str :: "elf_scn_type \<Rightarrow> string" where
  "elf_scn_type_str ELF_SCN_TYPE_GO_BUILD_ID = ''.note.go.buildid''"
| "elf_scn_type_str ELF_SCN_TYPE_GNU_BUILD_ID = ''.note.gnu.build-id''"
| "elf_scn_type_str ELF_SCN_TYPE_SYMTAB = ''.symtab''"
| "elf_scn_type_str ELF_SCN_TYPE_DYNSYM = ''.dynsym''"
| "elf_scn_type_str ELF_SCN_TYPE_DWARF_FRAME = ''.debug_frame''"
| "elf_scn_type_str ELF_SCN_TYPE_DWARF_FRAME_HDR = ''.debug_frame_hdr''"
| "elf_scn_type_str ELF_SCN_TYPE_ZDWARF_FRAME = ''.zdebug_frame''"
| "elf_scn_type_str ELF_SCN_TYPE_ZDWARF_FRAME_HDR = ''.zdebug_frame_hdr''"
| "elf_scn_type_str ELF_SCN_TYPE_EH_FRAME = ''.eh_frame''"
| "elf_scn_type_str ELF_SCN_TYPE_EH_FRAME_HDR = ''.eh_frame_hdr''"
| "elf_scn_type_str ELF_SCN_TYPE_GNU_DEBUGLINK = ''.gnu_debuglink''"

record 's scan_scn =
  scan_addr :: "u64 option"
  scan_name :: "string option"
  scan_ref :: 's

type_synonym 's scn_table = "(elf_scn_type \<Rightarrow> 's option) \<times> u64"

definition note_scn :: "string \<Rightarrow> u64 \<Rightarrow> 's \<Rightarrow> 's scn_table \<Rightarrow> 's scn_table" where
  "note_scn name addr ref t =
     ((\<lambda>ty. if fst t ty = None \<and> name = elf_scn_type_str ty then Some ref else fst t ty),
      if fst t ELF_SCN_TYPE_EH_FRAME_HDR = None \<and> name = elf_scn_type_str ELF_SCN_TYPE_EH_FRAME_HDR
      then addr else snd t)"

fun scan_sections :: "'s scan_scn list \<Rightarrow> 's scn_table \<Rightarrow> 's scn_table cres" where
  "scan_sections [] t = Ok t"
| "scan_sections (sc # scs) t =
     (case (scan_addr sc, scan_name sc) of
        (Some addr, Some name) \<Rightarrow> scan_sections scs (note_scn name addr (scan_ref sc) t)
      | _ \<Rightarrow> Fail)"

definition scan_all_elf_scn :: "bool \<Rightarrow> 's scan_scn list \<Rightarrow> 's scn_table \<Rightarrow> 's scn_table cres" where
  "scan_all_elf_scn strndx_ok scs t = (if \<not> strndx_ok then Fail else scan_sections scs t)"

text \<open>The fallback when the executable ranges cannot be loaded: the first executable segment.\<close>

fun first_exec_vaddr :: "gelf_phdr option list \<Rightarrow> u64" where
  "first_exec_vaddr [] = 0"
| "first_exec_vaddr (None # phdrs) = 0"
| "first_exec_vaddr (Some ph # phdrs) =
     (if p_type ph = PT_LOAD \<and> p_flags ph AND PF_X \<noteq> 0
      then p_vaddr ph - (if p_align ph \<noteq> 0 then p_vaddr ph mod p_align ph else 0)
      else first_exec_vaddr phdrs)"

definition get_elf_exec_virt_addr :: "elf_phdrs \<Rightarrow> u64" where
  "get_elf_exec_virt_addr elf = (case elf of None \<Rightarrow> 0 | Some phdrs \<Rightarrow> first_exec_vaddr phdrs)"

subsection \<open>The cache of executable sections\<close>

abbreviation (input) SHN_ABS :: nat where "SHN_ABS \<equiv> 0xfff1"
abbreviation (input) SHN_COMMON :: nat where "SHN_COMMON \<equiv> 0xfff2"
abbreviation (input) SHN_LORESERVE :: nat where "SHN_LORESERVE \<equiv> 0xff00"

type_synonym exec_scn_cache = "nat \<Rightarrow> bool option"

definition exec_cache_load :: "exec_scn_cache \<Rightarrow> nat \<Rightarrow> bool option" where
  "exec_cache_load cache shndx = cache shndx"

definition exec_cache_store :: "exec_scn_cache \<Rightarrow> nat \<Rightarrow> bool \<Rightarrow> exec_scn_cache" where
  "exec_cache_store cache shndx v = cache(shndx := Some v)"

text \<open>\<open>scn_flags\<close> is \<open>sh_flags\<close> of a section, \<open>None\<close> when libelf has no section or header for it.\<close>

definition scn_is_exec :: "(nat \<Rightarrow> u64 option) \<Rightarrow> nat \<Rightarrow> bool" where
  "scn_is_exec scn_flags shndx = (case scn_flags shndx of None \<Rightarrow> False | Some fl \<Rightarrow> fl AND 4 \<noteq> 0)"

definition is_exec_scn_cached ::
  "bool \<Rightarrow> (nat \<Rightarrow> u64 option) \<Rightarrow> nat \<Rightarrow> exec_scn_cache \<Rightarrow> bool \<times> exec_scn_cache" where
  "is_exec_scn_cached malloc_ok scn_flags shndx cache =
     (if shndx = 0 \<or> shndx = SHN_ABS \<or> shndx = SHN_COMMON then (False, cache)
      else if SHN_LORESERVE \<le> shndx then (False, cache)
      else
        case exec_cache_load cache shndx of
          Some v \<Rightarrow> (v, cache)
        | None \<Rightarrow>
            let is_exec = scn_is_exec scn_flags shndx in
            (is_exec, if malloc_ok then exec_cache_store cache shndx is_exec else cache))"

subsection \<open>The name arena\<close>

type_synonym allocator = "nat \<Rightarrow> nat \<Rightarrow> u64"

record arena_chunk =
  chunk_data :: u64
  chunk_used :: nat
  chunk_cap :: nat

record sym_heap =
  heap_calls :: nat
  heap_names :: "u64 \<Rightarrow> string option"
  symbol_name_arena :: "arena_chunk list"

definition heap_malloc :: "allocator \<Rightarrow> nat \<Rightarrow> sym_heap \<Rightarrow> u64 \<times> sym_heap" where
  "heap_malloc al len h = (al (heap_calls h) len, h\<lparr>heap_calls := Suc (heap_calls h)\<rparr>)"

definition put_name :: "u64 \<Rightarrow> string \<Rightarrow> sym_heap \<Rightarrow> sym_heap" where
  "put_name p name h = h\<lparr>heap_names := (heap_names h)(p := Some name)\<rparr>"

definition arena_has_room :: "arena_chunk list \<Rightarrow> nat \<Rightarrow> bool" where
  "arena_has_room arena len = (case arena of [] \<Rightarrow> False | c # _ \<Rightarrow> len \<le> chunk_cap c - chunk_used c)"

definition take_from_chunk :: "nat \<Rightarrow> sym_heap \<Rightarrow> u64 \<times> sym_heap" where
  "take_from_chunk len h =
     (case symbol_name_arena h of
        [] \<Rightarrow> (0, h)
      | c # cs \<Rightarrow> (chunk_data c + of_nat (chunk_used c),
                  h\<lparr>symbol_name_arena := c\<lparr>chunk_used := chunk_used c + len\<rparr> # cs\<rparr>))"

text \<open>A chunk has a header of 24 bytes and room for at least 4096.\<close>

definition gu_symbol_name_arena_alloc :: "allocator \<Rightarrow> nat \<Rightarrow> sym_heap \<Rightarrow> u64 \<times> sym_heap" where
  "gu_symbol_name_arena_alloc al len h =
     (if len = 0 then (0, h)
      else if arena_has_room (symbol_name_arena h) len then take_from_chunk len h
      else
        let cap = (if 4096 < len then len else 4096) in
        (case heap_malloc al (24 + cap) h of (p, h') \<Rightarrow>
           if p = 0 then (0, h')
           else take_from_chunk len (h'\<lparr>symbol_name_arena :=
                  \<lparr>chunk_data = p + 24, chunk_used = 0, chunk_cap = cap\<rparr> # symbol_name_arena h'\<rparr>)))"

definition gu_symbol_name_arena_strdup :: "allocator \<Rightarrow> string \<Rightarrow> sym_heap \<Rightarrow> u64 \<times> sym_heap" where
  "gu_symbol_name_arena_strdup al name h =
     (case gu_symbol_name_arena_alloc al (length name + 1) h of (p, h') \<Rightarrow>
        if p = 0 then (0, h') else (p, put_name p name h'))"

definition strdup :: "allocator \<Rightarrow> string \<Rightarrow> sym_heap \<Rightarrow> u64 \<times> sym_heap" where
  "strdup al name h =
     (case heap_malloc al (length name + 1) h of (p, h') \<Rightarrow>
        if p = 0 then (0, h') else (p, put_name p name h'))"

text \<open>
  Go names: every directory of the package path is cut to its first letter. The loop runs over the
  path up to and including the last slash; what follows it is kept.
\<close>

function strip_dirs :: "string \<Rightarrow> string" where
  "strip_dirs [] = []"
| "strip_dirs (c # s) =
     (if c = CHR ''/'' then CHR ''/'' # strip_dirs s
      else
        (case dropWhile (\<lambda>c. c \<noteq> CHR ''/'') s of
           [] \<Rightarrow> [c]
         | _ # s' \<Rightarrow> c # CHR ''/'' # strip_dirs s'))"
  by pat_completeness auto
termination
proof (relation "measure length")
  fix c s x s'
  assume "dropWhile (\<lambda>c. c \<noteq> CHR ''/'') s = x # s'"
  then have "length (x # s') \<le> length s" using length_dropWhile_le [of "\<lambda>c. c \<noteq> CHR ''/''" s] by simp
  then show "(s', c # s) \<in> measure length" by simp
qed simp_all

definition last_part :: "string \<Rightarrow> string" where
  "last_part name = rev (takeWhile (\<lambda>c. c \<noteq> CHR ''/'') (rev name))"

definition dir_part :: "string \<Rightarrow> string" where
  "dir_part name = take (length name - length (last_part name)) name"

definition slashes :: "string \<Rightarrow> nat" where
  "slashes name = length (filter (\<lambda>c. c = CHR ''/'') name)"

definition golang_strip_name_to_arena :: "allocator \<Rightarrow> string \<Rightarrow> sym_heap \<Rightarrow> (u64 \<times> sym_heap) cres" where
  "golang_strip_name_to_arena al name h =
     (if CHR ''/'' \<notin> set name then Ok (0, h)
      else if last name = CHR ''/'' then Ok (gu_symbol_name_arena_strdup al name h)
      else
        let len = slashes name * 2 + (1 + length (last_part name)) + 1;
            out = strip_dirs (dir_part name) @ last_part name in
        (case gu_symbol_name_arena_alloc al len h of (p, h') \<Rightarrow>
           if p = 0 then Ok (0, h')
           else if len < length out + 1 then Undef OutOfBounds
           else Ok (p, put_name p out h')))"

subsection \<open>The string table\<close>

record strtab_scn =
  strtab_sh_size :: "u64 option"
  strtab_data :: "(string \<times> u64) option"
  strtab_more :: bool

record string_table_view =
  view_direct :: bool
  view_data :: string

definition gu_symbol_string_table_view_init :: "strtab_scn option \<Rightarrow> string_table_view" where
  "gu_symbol_string_table_view_init scn =
     (let none = \<lparr>view_direct = False, view_data = []\<rparr> in
      case scn of
        None \<Rightarrow> none
      | Some sc \<Rightarrow>
          (case (strtab_sh_size sc, strtab_data sc) of
             (Some size', Some (d, d_off)) \<Rightarrow>
               if d = [] \<or> d_off \<noteq> 0 then none
               else if strtab_more sc then none
               else if length d < unat size' then none
               else \<lparr>view_direct = True, view_data = d\<rparr>
           | _ \<Rightarrow> none))"

definition gu_symbol_string_table_view_get ::
  "(nat \<Rightarrow> string option) \<Rightarrow> string_table_view \<Rightarrow> nat \<Rightarrow> string option" where
  "gu_symbol_string_table_view_get elf_strptr view off =
     (if \<not> view_direct view then elf_strptr off
      else if length (view_data view) \<le> off then None
      else if NUL \<notin> set (drop off (view_data view)) then None
      else Some (c_string (drop off (view_data view))))"

definition is_arm_elf_mapping_symbol_name :: "string \<Rightarrow> bool" where
  "is_arm_elf_mapping_symbol_name name =
     (case name of
        c0 # c1 # s \<Rightarrow> c0 = CHR ''$'' \<and> c1 \<in> set ''adtx'' \<and> (s = [] \<or> hd s = CHR ''.'')
      | _ \<Rightarrow> False)"

subsection \<open>Building the index\<close>

record gelf_sym =
  st_name :: nat
  st_info :: u8
  st_shndx :: nat
  st_value :: u64
  st_size :: u64

abbreviation (input) STT_NOTYPE :: u8 where "STT_NOTYPE \<equiv> 0"
abbreviation (input) STT_FUNC :: u8 where "STT_FUNC \<equiv> 2"

record sym_env =
  env_alloc :: allocator
  env_cache_ok :: "nat \<Rightarrow> bool"
  env_scn_flags :: "nat \<Rightarrow> u64 option"
  env_names :: "nat \<Rightarrow> string option"
  env_golang :: bool
  env_go_only_buildid :: bool
  env_go_not_strip_name :: bool

record fill_state =
  fill_items :: "interval_array_item list"
  fill_heap :: sym_heap
  fill_cache :: exec_scn_cache
  fill_bytes :: u64

definition name_payload :: "sym_env \<Rightarrow> string \<Rightarrow> sym_heap \<Rightarrow> (u64 \<times> sym_heap) cres" where
  "name_payload env name h =
     (if \<not> env_golang env \<or> env_go_not_strip_name env then Ok (strdup (env_alloc env) name h)
      else
        cbind (golang_strip_name_to_arena (env_alloc env) name h) (\<lambda>(p, h').
          case (if p = 0 then gu_symbol_name_arena_strdup (env_alloc env) name h' else (p, h')) of
            (q, h'') \<Rightarrow> Ok (if q = 0 then 0 else mark_interval_array_pointer_no_free q, h'')))"

definition sym_item :: "gelf_sym \<Rightarrow> u64 \<Rightarrow> interval_array_item" where
  "sym_item s p =
     \<lparr>ia_start = st_value s,
      ia_end = (if st_info s AND 0xf = STT_FUNC \<and> st_size s = 0 then 0 else st_value s + st_size s),
      ia_private = p\<rparr>"

text \<open>One symbol: the state after it, and whether the loop goes on or jumps to the error exit.\<close>

definition add_named :: "sym_env \<Rightarrow> gelf_sym \<Rightarrow> string \<Rightarrow> fill_state \<Rightarrow> (fill_state \<times> bool) cres" where
  "add_named env s name st =
     (if st_info s AND 0xf = STT_NOTYPE \<and> is_arm_elf_mapping_symbol_name name then Ok (st, True)
      else if env_golang env \<and> env_go_only_buildid env then
        Ok (st\<lparr>fill_items := fill_items st @ [sym_item s 0]\<rparr>, True)
      else
        cbind (name_payload env name (fill_heap st)) (\<lambda>(p, h').
          if p = 0 then Ok (st\<lparr>fill_heap := h'\<rparr>, False)
          else
            let len = (case heap_names h' (fst (get_interval_array_pointer p)) of None \<Rightarrow> 0 | Some n \<Rightarrow> length n) in
            Ok (st\<lparr>fill_items := fill_items st @ [sym_item s p], fill_heap := h',
                   fill_bytes := fill_bytes st + of_nat (len + 1)\<rparr>, True)))"

definition fill_symbol :: "sym_env \<Rightarrow> gelf_sym option \<Rightarrow> fill_state \<Rightarrow> (fill_state \<times> bool) cres" where
  "fill_symbol env esym st =
     (case esym of
        None \<Rightarrow> Ok (st, False)
      | Some s \<Rightarrow>
          if st_value s = 0 then Ok (st, True)
          else if st_info s AND 0xf \<noteq> STT_FUNC \<and> st_info s AND 0xf \<noteq> STT_NOTYPE then Ok (st, True)
          else
            (case (if st_info s AND 0xf = STT_FUNC then (True, fill_cache st)
                   else is_exec_scn_cached (env_cache_ok env (st_shndx s)) (env_scn_flags env) (st_shndx s) (fill_cache st)) of
               (keep, cache) \<Rightarrow>
                 let st' = st\<lparr>fill_cache := cache\<rparr> in
                 if \<not> keep then Ok (st', True)
                 else
                   (case env_names env (st_name s) of
                      None \<Rightarrow> Ok (st', False)
                    | Some name \<Rightarrow> if name = [] then Ok (st', True) else add_named env s name st')))"

fun fill_loop :: "sym_env \<Rightarrow> gelf_sym option list \<Rightarrow> fill_state \<Rightarrow> (fill_state \<times> bool) cres" where
  "fill_loop env [] st = Ok (st, True)"
| "fill_loop env (esym # syms) st =
     cbind (fill_symbol env esym st) (\<lambda>(st', go). if go then fill_loop env syms st' else Ok (st', False))"

text \<open>The symbol section as libelf presents it; a symbol it cannot deliver is \<open>None\<close>.\<close>

record sym_scn =
  sym_shdr :: "(u64 \<times> u64) option"
  sym_data :: "(nat \<Rightarrow> gelf_sym option) option"

record fill_result =
  fill_symbols :: "interval_array option"
  fill_search_size :: u64
  fill_final_heap :: sym_heap
  fill_freed :: "u64 list"

definition fill_failed :: "fill_state \<Rightarrow> fill_result" where
  "fill_failed st =
     \<lparr>fill_symbols = None, fill_search_size = fill_bytes st, fill_final_heap = fill_heap st,
      fill_freed = freed_payloads (map ia_private (fill_items st))\<rparr>"

definition finish_symbols :: "bool \<Rightarrow> bool \<Rightarrow> bool \<Rightarrow> fill_state \<Rightarrow> fill_result" where
  "finish_symbols realloc_ok calloc_array calloc_items st =
     (if fill_items st = [] then
        \<lparr>fill_symbols = None, fill_search_size = fill_bytes st, fill_final_heap = fill_heap st, fill_freed = []\<rparr>
      else if \<not> realloc_ok then fill_failed st
      else
        (case gu_interval_array_init calloc_array calloc_items (fill_items st) of
           (None, _) \<Rightarrow> fill_failed st
         | (Some arr, _) \<Rightarrow>
             \<lparr>fill_symbols = Some arr,
              fill_search_size = fill_bytes st + of_nat (24 * length (fill_items st)),
              fill_final_heap = fill_heap st, fill_freed = []\<rparr>))"

definition fill_symbols_debug_info ::
  "bool \<Rightarrow> bool \<Rightarrow> bool \<Rightarrow> bool \<Rightarrow> sym_env \<Rightarrow> sym_scn option \<Rightarrow> sym_scn option \<Rightarrow> sym_heap \<Rightarrow> fill_result cres" where
  "fill_symbols_debug_info calloc_ok realloc_ok calloc_array calloc_items env symtab dynsym h =
     (let none = \<lparr>fill_symbols = None, fill_search_size = 0, fill_final_heap = h, fill_freed = []\<rparr> in
      case (case symtab of Some s \<Rightarrow> Some s | None \<Rightarrow> dynsym) of
        None \<Rightarrow> Ok none
      | Some scn \<Rightarrow>
          (case (sym_shdr scn, sym_data scn) of
             (Some (size', entsize), Some syms) \<Rightarrow>
               if entsize = 0 then Undef DivByZero
               else if \<not> calloc_ok then Ok none
               else
                 cbind (fill_loop env (map syms [0..<unat (size' div entsize)])
                          \<lparr>fill_items = [], fill_heap = h, fill_cache = (\<lambda>_. None), fill_bytes = 0\<rparr>) (\<lambda>(st, ok).
                   Ok (if ok then finish_symbols realloc_ok calloc_array calloc_items st else fill_failed st))
           | _ \<Rightarrow> Ok none))"

subsection \<open>Go names\<close>

lemma strip_dirs_length: "length (strip_dirs s) \<le> 2 * slashes s + 1"
proof (induction s rule: strip_dirs.induct)
  case 1
  show ?case by simp
next
  case (2 c s)
  show ?case
  proof (cases "c = CHR ''/''")
    case True
    then show ?thesis using "2.IH"(1) by (simp add: slashes_def)
  next
    case False
    show ?thesis
    proof (cases "dropWhile (\<lambda>c. c \<noteq> CHR ''/'') s")
      case Nil
      show ?thesis using False by (simp add: Nil)
    next
      case (Cons x s')
      have x: "x = CHR ''/''" using hd_dropWhile [of "\<lambda>c. c \<noteq> CHR ''/''" s] Cons by simp
      define t where "t = takeWhile (\<lambda>c. c \<noteq> CHR ''/'') s"
      have "s = t @ x # s'" unfolding t_def using takeWhile_dropWhile_id [of "\<lambda>c. c \<noteq> CHR ''/''" s] Cons by simp
      moreover have "filter (\<lambda>c. c = CHR ''/'') t = []"
        unfolding t_def by (auto simp: filter_empty_conv dest: set_takeWhileD)
      ultimately have "slashes s = Suc (slashes s')" using x by (simp add: slashes_def)
      then show ?thesis using "2.IH"(2) [OF False Cons] Cons False by (simp add: slashes_def)
    qed
  qed
qed

lemma slashes_dir_part: "slashes (dir_part name) \<le> slashes name"
proof -
  have "slashes name = slashes (dir_part name) + slashes (drop (length name - length (last_part name)) name)"
    unfolding slashes_def dir_part_def by (metis append_take_drop_id filter_append length_append)
  then show ?thesis by simp
qed

text \<open>
  Shortening a Go symbol name never writes past the space reserved for it: the shortened name
  with its terminator fits the allocation, whatever the name.
\<close>

lemma go_strip_in_bounds:
  "\<exists>p h'. golang_strip_name_to_arena al name h = Ok (p, h') \<and>
     length (strip_dirs (dir_part name) @ last_part name) + 1 \<le> slashes name * 2 + (1 + length (last_part name)) + 1"
proof -
  have fits: "length (strip_dirs (dir_part name) @ last_part name) + 1 \<le> slashes name * 2 + (1 + length (last_part name)) + 1"
    using strip_dirs_length [of "dir_part name"] slashes_dir_part [of name] by simp
  moreover have "\<exists>p h'. golang_strip_name_to_arena al name h = Ok (p, h')"
    unfolding golang_strip_name_to_arena_def Let_def
    using fits by (cases "gu_symbol_name_arena_alloc al (slashes name * 2 + (1 + length (last_part name)) + 1) h")
      (auto simp: not_less [symmetric])
  ultimately show ?thesis by blast
qed

subsection \<open>The section cache is transparent\<close>

interpretation scn_memo: memo exec_cache_load exec_cache_store "\<lambda>_. True"
  by unfold_locales (auto simp: exec_cache_load_def exec_cache_store_def split: if_split_asm)

definition exec_scn :: "(nat \<Rightarrow> u64 option) \<Rightarrow> nat \<Rightarrow> bool" where
  "exec_scn scn_flags shndx \<longleftrightarrow> shndx \<noteq> 0 \<and> shndx < SHN_LORESERVE \<and> scn_is_exec scn_flags shndx"

definition exec_cache_ok :: "(nat \<Rightarrow> u64 option) \<Rightarrow> exec_scn_cache \<Rightarrow> bool" where
  "exec_cache_ok scn_flags cache \<longleftrightarrow>
     (\<forall>k v. exec_cache_load cache k = Some v \<longrightarrow> Some (scn_is_exec scn_flags k) = Some v)"

lemma is_exec_scn_cached_correct:
  assumes "exec_cache_ok scn_flags cache"
  shows "fst (is_exec_scn_cached m scn_flags k cache) = exec_scn scn_flags k \<and>
    exec_cache_ok scn_flags (snd (is_exec_scn_cached m scn_flags k cache))"
proof -
  have agree: "\<And>k v. exec_cache_load cache k = Some v \<Longrightarrow> Some (scn_is_exec scn_flags k) = Some v"
    using assms unfolding exec_cache_ok_def by blast
  have "exec_cache_ok scn_flags (exec_cache_store cache k (scn_is_exec scn_flags k))"
    using scn_memo.agree_store [of cache "\<lambda>k. Some (scn_is_exec scn_flags k)" k "scn_is_exec scn_flags k"] agree
    unfolding exec_cache_ok_def by blast
  then show ?thesis
    using assms agree [of k] by (auto simp: is_exec_scn_cached_def exec_scn_def Let_def split: option.split)
qed

subsection \<open>Every function is found under its name\<close>

text \<open>The symbols the index keeps, with their names.\<close>

definition keeps :: "sym_env \<Rightarrow> gelf_sym \<Rightarrow> string \<Rightarrow> bool" where
  "keeps env s name \<longleftrightarrow>
     st_value s \<noteq> 0 \<and> env_names env (st_name s) = Some name \<and> name \<noteq> [] \<and>
     (st_info s AND 0xf = STT_FUNC \<or>
      st_info s AND 0xf = STT_NOTYPE \<and> exec_scn (env_scn_flags env) (st_shndx s) \<and>
      \<not> is_arm_elf_mapping_symbol_name name)"

fun kept :: "sym_env \<Rightarrow> gelf_sym option list \<Rightarrow> (gelf_sym \<times> string) list" where
  "kept env [] = []"
| "kept env (None # syms) = kept env syms"
| "kept env (Some s # syms) =
     (case env_names env (st_name s) of
        Some name \<Rightarrow> if keeps env s name then (s, name) # kept env syms else kept env syms
      | None \<Rightarrow> kept env syms)"

text \<open>What a C allocator guarantees: live blocks have different, non-null user-space addresses.\<close>

definition good_alloc :: "allocator \<Rightarrow> bool" where
  "good_alloc al \<longleftrightarrow> (\<forall>m n a b. al m a \<noteq> 0 \<and> al m a = al n b \<longrightarrow> m = n) \<and> (\<forall>n a. \<not> bit (al n a) 63)"

definition names_old :: "allocator \<Rightarrow> sym_heap \<Rightarrow> bool" where
  "names_old al h \<longleftrightarrow> (\<forall>p. heap_names h p \<noteq> None \<longrightarrow> (\<exists>m<heap_calls h. \<exists>len. p = al m len))"

definition named :: "sym_heap \<Rightarrow> interval_array_item \<Rightarrow> gelf_sym \<times> string \<Rightarrow> bool" where
  "named h it sn \<longleftrightarrow>
     it = sym_item (fst sn) (ia_private it) \<and> ia_private it \<noteq> 0 \<and> \<not> bit (ia_private it) 63 \<and>
     heap_names h (ia_private it) = Some (snd sn)"

abbreviation unstripped :: "sym_env \<Rightarrow> bool" where
  "unstripped env \<equiv> \<not> env_golang env \<or> env_go_not_strip_name env \<and> \<not> env_go_only_buildid env"

definition fill_inv :: "sym_env \<Rightarrow> fill_state \<Rightarrow> (gelf_sym \<times> string) list \<Rightarrow> bool" where
  "fill_inv env st sns \<longleftrightarrow>
     names_old (env_alloc env) (fill_heap st) \<and> exec_cache_ok (env_scn_flags env) (fill_cache st) \<and>
     list_all2 (named (fill_heap st)) (fill_items st) sns"

lemma strdup_names:
  assumes "good_alloc al" "names_old al h" "strdup al name h = (p, h')" "p \<noteq> 0"
  shows "names_old al h'" "heap_names h' p = Some name" "\<not> bit p 63"
    and "heap_names h q = Some n \<Longrightarrow> heap_names h' q = Some n"
proof -
  have p: "p = al (heap_calls h) (length name + 1)"
    and h': "h' = put_name p name (h\<lparr>heap_calls := Suc (heap_calls h)\<rparr>)"
    using assms(3,4) by (auto simp: strdup_def heap_malloc_def split: if_split_asm)
  have fresh: "heap_names h p = None"
  proof (rule ccontr)
    assume "heap_names h p \<noteq> None"
    then obtain m len where "m < heap_calls h" "p = al m len" using assms(2) unfolding names_old_def by blast
    then show False using assms(1,4) p unfolding good_alloc_def by (metis less_irrefl)
  qed
  show "names_old al h'"
    unfolding names_old_def
  proof (intro allI impI)
    fix q
    assume "heap_names h' q \<noteq> None"
    then consider "q = p" | "heap_names h q \<noteq> None" by (auto simp: h' put_name_def split: if_split_asm)
    then show "\<exists>m<heap_calls h'. \<exists>len. q = al m len"
    proof cases
      case 1
      then show ?thesis using p by (auto simp: h' put_name_def)
    next
      case 2
      then obtain m len where m: "m < heap_calls h" "q = al m len" using assms(2) unfolding names_old_def by blast
      then have "m < heap_calls h'" by (simp add: h' put_name_def)
      then show ?thesis using m(2) by blast
    qed
  qed
  show "heap_names h' p = Some name" by (simp add: h' put_name_def)
  show "\<not> bit p 63" using assms(1) unfolding good_alloc_def p by blast
  show "heap_names h q = Some n \<Longrightarrow> heap_names h' q = Some n" using fresh by (auto simp: h' put_name_def)
qed

lemma add_named_inv:
  assumes al: "good_alloc (env_alloc env)" and env: "unstripped env"
    and inv: "fill_inv env st sns" and add: "add_named env s name st = Ok (st', True)"
    and mapping: "\<not> (st_info s AND 0xf = STT_NOTYPE \<and> is_arm_elf_mapping_symbol_name name)"
  shows "fill_inv env st' (sns @ [(s, name)])"
proof -
  obtain p h' where p: "strdup (env_alloc env) name (fill_heap st) = (p, h')" by (cases "strdup (env_alloc env) name (fill_heap st)")
  have st': "p \<noteq> 0" "fill_items st' = fill_items st @ [sym_item s p]" "fill_heap st' = h'" "fill_cache st' = fill_cache st"
    using add mapping env p by (auto simp: add_named_def name_payload_def Let_def split: if_split_asm)
  have old: "names_old (env_alloc env) (fill_heap st)" using inv by (simp add: fill_inv_def)
  note d = strdup_names [OF al old p st'(1)]
  have "list_all2 (named (fill_heap st)) (fill_items st) sns" using inv by (simp add: fill_inv_def)
  then have "list_all2 (named h') (fill_items st) sns"
    by (rule list_all2_mono) (use d(4) in \<open>auto simp: named_def\<close>)
  moreover have "named h' (sym_item s p) (s, name)"
    using d(2,3) st'(1) by (simp add: named_def sym_item_def)
  ultimately show ?thesis
    using inv d(1) by (simp add: fill_inv_def st' list_all2_appendI)
qed

lemma fill_symbol_inv:
  assumes al: "good_alloc (env_alloc env)" and env: "unstripped env"
    and inv: "fill_inv env st sns" and step: "fill_symbol env esym st = Ok (st', True)"
  shows "fill_inv env st' (sns @ kept env [esym])"
proof (cases esym)
  case None
  then show ?thesis using step by (simp add: fill_symbol_def)
next
  case (Some s)
  let ?ty = "st_info s AND 0xf"
  have cache: "exec_cache_ok (env_scn_flags env) (fill_cache st)" using inv by (simp add: fill_inv_def)
  note c = is_exec_scn_cached_correct [OF cache, of "env_cache_ok env (st_shndx s)" "st_shndx s"]
  obtain keep cache' where kc:
      "(if ?ty = STT_FUNC then (True, fill_cache st)
        else is_exec_scn_cached (env_cache_ok env (st_shndx s)) (env_scn_flags env) (st_shndx s) (fill_cache st)) = (keep, cache')"
    by fastforce
  have keep: "keep = (?ty = STT_FUNC \<or> exec_scn (env_scn_flags env) (st_shndx s))" "exec_cache_ok (env_scn_flags env) cache'"
    using kc c cache by (auto split: if_split_asm)
  have inv': "fill_inv env (st\<lparr>fill_cache := cache'\<rparr>) sns" using inv keep(2) by (simp add: fill_inv_def)
  show ?thesis
  proof (cases "st_value s = 0 \<or> (?ty \<noteq> STT_FUNC \<and> ?ty \<noteq> STT_NOTYPE)")
    case True
    then have "kept env [Some s] = []" by (auto simp: keeps_def split: option.split)
    moreover have "st' = st"
      using True step by (cases "st_value s = 0") (simp_all add: Some fill_symbol_def)
    ultimately show ?thesis using inv by (simp add: Some)
  next
    case False
    then have run: "(if \<not> keep then Ok (st\<lparr>fill_cache := cache'\<rparr>, True)
        else case env_names env (st_name s) of
            None \<Rightarrow> Ok (st\<lparr>fill_cache := cache'\<rparr>, False)
          | Some name \<Rightarrow> if name = [] then Ok (st\<lparr>fill_cache := cache'\<rparr>, True)
                        else add_named env s name (st\<lparr>fill_cache := cache'\<rparr>)) = Ok (st', True)"
      using step kc by (auto simp: Some fill_symbol_def Let_def)
    show ?thesis
    proof (cases "env_names env (st_name s)")
      case None
      then show ?thesis using run inv' by (auto simp: Some split: if_split_asm)
    next
      case name: (Some name)
      show ?thesis
      proof (cases "keeps env s name")
        case True
        then have add: "add_named env s name (st\<lparr>fill_cache := cache'\<rparr>) = Ok (st', True)"
            "\<not> (?ty = STT_NOTYPE \<and> is_arm_elf_mapping_symbol_name name)"
          using run keep(1) name by (auto simp: keeps_def split: if_split_asm)
        show ?thesis
          using add_named_inv [OF al env inv' add] True by (simp add: Some name)
      next
        case no: False
        then have "st' = st\<lparr>fill_cache := cache'\<rparr>"
          using run keep(1) name False by (auto simp: keeps_def add_named_def split: if_split_asm)
        then show ?thesis using no inv' by (simp add: Some name)
      qed
    qed
  qed
qed

lemma kept_Cons: "kept env (x # xs) = kept env [x] @ kept env xs"
  by (cases x) (auto split: option.split)

lemma fill_loop_inv:
  "good_alloc (env_alloc env) \<Longrightarrow> unstripped env \<Longrightarrow> fill_inv env st sns \<Longrightarrow>
     fill_loop env syms st = Ok (st', True) \<Longrightarrow> fill_inv env st' (sns @ kept env syms)"
proof (induction syms arbitrary: st sns)
  case Nil
  then show ?case by simp
next
  case (Cons x xs)
  obtain st1 where st1: "fill_symbol env x st = Ok (st1, True)" "fill_loop env xs st1 = Ok (st', True)"
    using Cons.prems(4) by (auto elim!: cbind_OkE split: if_split_asm prod.split_asm)
  show ?case
    using Cons.IH [OF Cons.prems(1,2) fill_symbol_inv [OF Cons.prems(1,2,3) st1(1)] st1(2)]
    by (subst kept_Cons) simp
qed


lemma init_Some_True:
  "fst (gu_interval_array_init ca ci items) = Some arr \<Longrightarrow> interval_build items = Some arr \<and> items \<noteq> []"
  by (auto simp: interval_build_def gu_interval_array_init_def Let_def split: if_split_asm)

lemma set_built_closed: "\<forall>x\<in>set items. ia_end x \<noteq> 0 \<Longrightarrow> set (built items) = set items"
  by (simp add: built_closed qsort_items_def)

lemma disjoint_named:
  assumes "list_all2 (named h) items sns" "disjoint_items (map (\<lambda>sn. sym_item (fst sn) 0) sns)"
  shows "disjoint_items items"
proof -
  let ?xs = "map (\<lambda>sn. sym_item (fst sn) 0) sns"
  have len: "length items = length sns" using assms(1) by (rule list_all2_lengthD)
  have nth: "items ! i = sym_item (fst (sns ! i)) (ia_private (items ! i))" if "i < length items" for i
    using list_all2_nthD [OF assms(1) that] by (simp add: named_def)
  have st: "ia_start (items ! i) = ia_start (?xs ! i)" "ia_end (items ! i) = ia_end (?xs ! i)" if "i < length items" for i
    using arg_cong [OF nth [OF that], of ia_start] arg_cong [OF nth [OF that], of ia_end] that len
    by (simp_all add: sym_item_def)
  have pair: "ia_end (items ! i) \<le> ia_start (items ! j) \<or> ia_end (items ! j) \<le> ia_start (items ! i)"
    if "i < length items" "j < length items" "i \<noteq> j" for i j
  proof -
    have d: "distinct ?xs" using assms(2) unfolding disjoint_items_def by blast
    have "?xs ! i \<noteq> ?xs ! j" using nth_eq_iff_index_eq [OF d, of i j] that len by simp
    then show ?thesis
      using assms(2) that len st [OF that(1)] st [OF that(2)] unfolding disjoint_items_def by (metis length_map nth_mem)
  qed
  have lt: "ia_start (items ! i) < ia_end (items ! i)" if "i < length items" for i
    using assms(2) that len st [OF that] unfolding disjoint_items_def by (metis length_map nth_mem)
  show ?thesis
    unfolding disjoint_items_def
  proof (intro conjI ballI impI)
    show "distinct items"
      unfolding distinct_conv_nth
    proof (intro allI impI)
      fix i j
      assume ij: "i < length items" "j < length items" "i \<noteq> j"
      then show "items ! i \<noteq> items ! j" using pair [OF ij] lt [OF ij(1)] lt [OF ij(2)] by auto
    qed
    show "ia_start x < ia_end x" if "x \<in> set items" for x
      using that lt by (auto simp: in_set_conv_nth)
    show "ia_end x \<le> ia_start y \<or> ia_end y \<le> ia_start x" if xy: "x \<in> set items" "y \<in> set items" "x \<noteq> y" for x y
    proof -
      obtain i j where "i < length items" "j < length items" "x = items ! i" "y = items ! j"
        using xy by (auto simp: in_set_conv_nth)
      then show ?thesis using pair [of i j] xy(3) by blast
    qed
  qed
qed


text \<open>
  C15. The symbol index of an image answers exactly: when the kept symbols (sized functions, and
  untyped symbols in executable sections that are not ARM mapping marks) do not overlap, an
  address inside a symbol yields that symbol's name and start, and an address outside all of
  them is a miss.
\<close>

theorem symbols_exact:
  assumes fill: "fill_symbols_debug_info c r ca ci env (Some scn) dyn h = Ok res" "fill_symbols res = Some arr"
    and scn: "sym_shdr scn = Some (size', entsize)" "sym_data scn = Some syms"
    and ks: "ks = kept env (map syms [0..<unat (size' div entsize)])"
    and env: "unstripped env" "good_alloc (env_alloc env)" "heap_names h = (\<lambda>_. None)"
    and disj: "disjoint_items (map (\<lambda>sn. sym_item (fst sn) 0) ks)"
  shows "(\<forall>(s, name)\<in>set ks. st_value s \<le> pc \<and> pc < ia_end (sym_item s 0) \<longrightarrow>
      (\<exists>i it. gu_interval_array_search (Some arr) pc (Some it\<^sub>0) = (i, Some it) \<and> 0 \<le> i \<and>
         ia_start it = st_value s \<and> heap_names (fill_final_heap res) (ia_private it) = Some name)) \<and>
    ((\<forall>(s, name)\<in>set ks. \<not> (st_value s \<le> pc \<and> pc < ia_end (sym_item s 0))) \<longrightarrow>
      fst (gu_interval_array_search (Some arr) pc (Some it\<^sub>0)) = - 1)"
proof -
  let ?st0 = "\<lparr>fill_items = [], fill_heap = h, fill_cache = (\<lambda>_. None), fill_bytes = 0\<rparr>"
  obtain st ok where loop: "fill_loop env (map syms [0..<unat (size' div entsize)]) ?st0 = Ok (st, ok)"
      "res = (if ok then finish_symbols r ca ci st else fill_failed st)"
    using fill(1,2) scn by (auto simp: fill_symbols_debug_info_def Let_def elim!: cbind_OkE split: if_split_asm)
  have ok: ok using fill(2) loop(2) by (auto simp: fill_failed_def split: if_split_asm)
  then have fin: "fst (gu_interval_array_init ca ci (fill_items st)) = Some arr" "fill_final_heap res = fill_heap st"
    using fill(2) loop(2)
    by (auto simp: finish_symbols_def fill_failed_def split: if_split_asm prod.split_asm option.split_asm)
  have "fill_inv env ?st0 []"
    using env(3) by (simp add: fill_inv_def names_old_def exec_cache_ok_def exec_cache_load_def)
  then have "fill_inv env st ks"
    using fill_loop_inv [OF env(2,1) _ loop(1) [unfolded ok [THEN eqTrueI]]] ks by fastforce
  then have nm: "list_all2 (named (fill_heap st)) (fill_items st) ks" by (simp add: fill_inv_def)
  have dj: "disjoint_items (fill_items st)" by (rule disjoint_named [OF nm disj])
  have b: "interval_build (fill_items st) = Some arr" "ia_ok arr"
    using init_Some_True [OF fin(1)] init_ok [OF fin(1)] by auto
  have p: "proper (fill_items st)" by (rule proper_disjoint_items [OF dj])
  have set: "set (built (fill_items st)) = set (fill_items st)"
    using dj by (intro set_built_closed) (auto simp: disjoint_items_def word_less_nat_alt)
  have sel: "ia_start it = st_value (fst sn) \<and> ia_end it = ia_end (sym_item (fst sn) 0)" if "named (fill_heap st) it sn" for it sn
  proof -
    have "it = sym_item (fst sn) (ia_private it)" using that by (simp add: named_def)
    from arg_cong [OF this, of ia_start] arg_cong [OF this, of ia_end] show ?thesis by (simp add: sym_item_def)
  qed
  show ?thesis
  proof (intro conjI ballI impI, clarify)
    fix s name
    assume s: "(s, name) \<in> set ks" "st_value s \<le> pc" "pc < ia_end (sym_item s 0)"
    then obtain i where i: "i < length ks" "ks ! i = (s, name)" by (auto simp: in_set_conv_nth)
    let ?it = "fill_items st ! i"
    have it: "?it \<in> set (fill_items st)" "named (fill_heap st) ?it (s, name)"
      using list_all2_nthD2 [OF nm i(1)] i list_all2_lengthD [OF nm] by auto
    have cov: "item_covers ?it pc" using sel [OF it(2)] s by simp
    have f: "interval_find arr pc = Some (untag_item ?it)" using ia.find_hit [OF b(1) p] it(1) set cov by blast
    have unt: "untag_item ?it = ?it" using it(2) by (simp add: untag_item_def named_def)
    show "\<exists>i it. gu_interval_array_search (Some arr) pc (Some it\<^sub>0) = (i, Some it) \<and> 0 \<le> i \<and>
         ia_start it = st_value s \<and> heap_names (fill_final_heap res) (ia_private it) = Some name"
      using search_via_find [OF b(2), of pc it\<^sub>0] f unt sel [OF it(2)] it(2) fin(2) by (auto simp: named_def)
  next
    assume miss: "\<forall>(s, name)\<in>set ks. \<not> (st_value s \<le> pc \<and> pc < ia_end (sym_item s 0))"
    have "\<not> item_covers e pc" if e: "e \<in> set (fill_items st)" for e
    proof -
      obtain i where i: "i < length (fill_items st)" "e = fill_items st ! i" using e by (auto simp: in_set_conv_nth)
      have "named (fill_heap st) e (ks ! i)" using list_all2_nthD [OF nm i(1)] i(2) by simp
      moreover have "ks ! i \<in> set ks" using i(1) list_all2_lengthD [OF nm] by simp
      ultimately show ?thesis using sel [of e "ks ! i"] miss by (cases "ks ! i") auto
    qed
    then have "interval_find arr pc = None" using ia.find_miss [OF b(1) p] set by blast
    then show "fst (gu_interval_array_search (Some arr) pc (Some it\<^sub>0)) = - 1"
      using search_via_find [OF b(2), of pc it\<^sub>0] by simp
  qed
qed


definition sample_alloc :: allocator where
  "sample_alloc n len = (if n < 4 then of_nat (0x1000 * (n + 1)) else 0)"

definition sample_sym_env :: sym_env where
  "sample_sym_env = \<lparr>env_alloc = sample_alloc, env_cache_ok = (\<lambda>_. True), env_scn_flags = (\<lambda>_. None),
     env_names = (\<lambda>i. if i = 1 then Some ''main'' else if i = 6 then Some ''run'' else None),
     env_golang = False, env_go_only_buildid = False, env_go_not_strip_name = False\<rparr>"

definition sample_syms :: "nat \<Rightarrow> gelf_sym option" where
  "sample_syms i =
     (if i = 0 then Some \<lparr>st_name = 1, st_info = 0x12, st_shndx = 1, st_value = 0x1100, st_size = 0x40\<rparr>
      else if i = 1 then Some \<lparr>st_name = 6, st_info = 0x12, st_shndx = 1, st_value = 0x1000, st_size = 0x80\<rparr>
      else None)"

lemma sample_good_alloc: "good_alloc sample_alloc"
proof -
  have v: "sample_alloc n len = (if n = 0 then 0x1000 else if n = 1 then 0x2000 else if n = 2 then 0x3000
      else if n = 3 then 0x4000 else 0)" for n len
    by (auto simp: sample_alloc_def less_Suc_eq numeral_eq_Suc)
  show ?thesis unfolding good_alloc_def v by (auto split: if_split_asm)
qed

theorem symbols_exact_witness:
  "\<exists>res arr i it. fill_symbols_debug_info True True True True sample_sym_env
      (Some \<lparr>sym_shdr = Some (48, 24), sym_data = Some sample_syms\<rparr>) None
      \<lparr>heap_calls = 0, heap_names = (\<lambda>_. None), symbol_name_arena = []\<rparr> = Ok res \<and> fill_symbols res = Some arr \<and>
     gu_interval_array_search (Some arr) 0x1110 (Some \<lparr>ia_start = 0, ia_end = 0, ia_private = 0\<rparr>) = (i, Some it) \<and>
     heap_names (fill_final_heap res) (ia_private it) = Some ''main''"
proof -
  let ?scn = "\<lparr>sym_shdr = Some (48, 24), sym_data = Some sample_syms\<rparr>"
  let ?h = "\<lparr>heap_calls = 0, heap_names = (\<lambda>_. None), symbol_name_arena = []\<rparr>"
  let ?m = "\<lparr>st_name = 1, st_info = 0x12, st_shndx = 1, st_value = 0x1100, st_size = 0x40\<rparr>"
  let ?r = "\<lparr>st_name = 6, st_info = 0x12, st_shndx = 1, st_value = 0x1000, st_size = 0x80\<rparr>"
  have syms: "map sample_syms [0..<unat ((48 :: u64) div 24)] = [Some ?m, Some ?r]"
    by (simp add: sample_syms_def upt_conv_Cons)
  have kept: "kept sample_sym_env (map sample_syms [0..<unat ((48 :: u64) div 24)]) = [(?m, ''main''), (?r, ''run'')]"
    unfolding syms by (simp add: keeps_def sample_sym_env_def)
  obtain st where loop: "fill_loop sample_sym_env (map sample_syms [0..<unat ((48 :: u64) div 24)])
      \<lparr>fill_items = [], fill_heap = ?h, fill_cache = (\<lambda>_. None), fill_bytes = 0\<rparr> = Ok (st, True)" "fill_items st \<noteq> []"
    unfolding syms
    by (simp add: fill_symbol_def add_named_def name_payload_def strdup_def heap_malloc_def put_name_def
        sample_sym_env_def sample_alloc_def Let_def)
  obtain arr where arr: "fst (gu_interval_array_init True True (fill_items st)) = Some arr"
    using init_alloc_ok [OF loop(2)] by blast
  have fill: "fill_symbols_debug_info True True True True sample_sym_env (Some ?scn) None ?h =
      Ok (finish_symbols True True True st)"
    using loop(1) by (simp add: fill_symbols_debug_info_def Let_def)
  have some: "fill_symbols (finish_symbols True True True st) = Some arr"
    using arr loop(2) by (cases "gu_interval_array_init True True (fill_items st)") (simp add: finish_symbols_def)
  have dj: "disjoint_items (map (\<lambda>sn. sym_item (fst sn) 0) [(?m, ''main''), (?r, ''run'')])"
    by (simp add: disjoint_items_def sym_item_def)
  have good: "good_alloc (env_alloc sample_sym_env)" using sample_good_alloc by (simp add: sample_sym_env_def)
  have un: "unstripped sample_sym_env" by (simp add: sample_sym_env_def)
  have "\<exists>i it. gu_interval_array_search (Some arr) 0x1110 (Some \<lparr>ia_start = 0, ia_end = 0, ia_private = 0\<rparr>) = (i, Some it) \<and>
      0 \<le> i \<and> ia_start it = st_value ?m \<and> heap_names (fill_final_heap (finish_symbols True True True st)) (ia_private it) = Some ''main''"
    using symbols_exact [OF fill some, of 48 24 sample_syms _ "0x1110" "\<lparr>ia_start = 0, ia_end = 0, ia_private = 0\<rparr>",
        OF _ _ kept [symmetric] un good _ dj]
    by (simp add: sym_item_def)
  then show ?thesis using fill some by blast
qed

end
