(* ===== verification/Open_In_Root.thy ===== *)
theory Open_In_Root
  imports Gu_Prelude
begin

text \<open>
  Opening a file inside the root of the sampled process, in \<open>src/gu_stacktrace.c\<close>:
  \<open>gu_openat2_in_root\<close>, its emulation for kernels without \<open>openat2\<close>, and
  \<open>gu_open_pid_root_path\<close>.

  \<^item> A file system is a function from inodes to nodes; an entry that cannot be opened or examined is
    absent. \<open>can_open\<close> says whether the final open of an inode succeeds.
  \<^item> The stack of directory descriptors is a list with the current directory first and the root
    last.
  \<^item> \<open>openat2\<close> is the kernel's; what it is relied on for is the hypothesis \<open>resolves_in_root\<close>.
\<close>

datatype 'i node = Dir "string \<Rightarrow> 'i option" | Link string | Other

datatype open_errno = EINVAL | ENAMETOOLONG | ELOOP | ENOTDIR | ENOENT | EACCES | ENOSYS

type_synonym 'i opened = "open_errno + 'i"

abbreviation (input) GU_OPEN_IN_ROOT_MAX_SYMLINKS :: nat where "GU_OPEN_IN_ROOT_MAX_SYMLINKS \<equiv> 40"
abbreviation (input) GU_OPEN_IN_ROOT_MAX_COMPONENTS :: nat where "GU_OPEN_IN_ROOT_MAX_COMPONENTS \<equiv> 2049"

definition lookup :: "('i \<Rightarrow> 'i node) \<Rightarrow> 'i \<Rightarrow> string \<Rightarrow> 'i option" where
  "lookup fs d name = (case fs d of Dir es \<Rightarrow> es name | _ \<Rightarrow> None)"

definition open_node :: "('i \<Rightarrow> bool) \<Rightarrow> 'i \<Rightarrow> 'i opened" where
  "open_node can_open i = (if can_open i then Inr i else Inl EACCES)"

text \<open>The next component of a path that does not start with a slash, and what remains after it.\<close>

definition component :: "string \<Rightarrow> string" where
  "component p = takeWhile (\<lambda>c. c \<noteq> CHR ''/'') p"

definition remainder :: "string \<Rightarrow> string" where
  "remainder p = tl (dropWhile (\<lambda>c. c \<noteq> CHR ''/'') p)"

text \<open>\<open>readlinkat\<close> into a buffer of \<open>PATH_MAX\<close> characters, and the path that replaces the link.\<close>

definition link_target :: "string \<Rightarrow> string" where
  "link_target t = takeWhile (\<lambda>c. c \<noteq> CHR 0x00) (take 4095 t)"

definition next_path :: "string \<Rightarrow> string \<Rightarrow> string" where
  "next_path t r = link_target t @ (if r \<noteq> [] then ''/'' else []) @ r"

lemma remainder_less: "p \<noteq> [] \<Longrightarrow> hd p \<noteq> CHR ''/'' \<Longrightarrow> length (remainder p) < length p"
proof -
  assume p: "p \<noteq> []" "hd p \<noteq> CHR ''/''"
  then obtain c s where "p = c # s" "c \<noteq> CHR ''/''" by (cases p) auto
  then have "length (remainder p) \<le> length s"
    using length_dropWhile_le [of "\<lambda>c. c \<noteq> CHR ''/''" s] by (simp add: remainder_def)
  then show "length (remainder p) < length p" using \<open>p = c # s\<close> by simp
qed

lemma shorter:
  assumes "c \<in> set cursor" "c \<noteq> CHR ''/''"
  shows "length (remainder (dropWhile (\<lambda>c. c = CHR ''/'') cursor)) < length cursor"
proof -
  let ?p = "dropWhile (\<lambda>c. c = CHR ''/'') cursor"
  have "?p \<noteq> []" using assms by auto
  then have "length (remainder ?p) < length ?p" using hd_dropWhile by (intro remainder_less) blast+
  also have "length ?p \<le> length cursor" by (rule length_dropWhile_le)
  finally show ?thesis .
qed

text \<open>The loop ends: each round either follows one of at most forty links or shortens the path.\<close>

function walk ::
  "('i \<Rightarrow> 'i node) \<Rightarrow> ('i \<Rightarrow> bool) \<Rightarrow> nat \<Rightarrow> 'i list \<Rightarrow> string \<Rightarrow> 'i opened" where
  "walk fs can_open symlink_count dirs cursor =
     (let p = dropWhile (\<lambda>c. c = CHR ''/'') cursor in
      if p = [] then open_node can_open (hd dirs)
      else
        let comp = component p; rest = remainder p in
        if comp = ''.'' then walk fs can_open symlink_count dirs rest
        else if comp = ''..'' then
          walk fs can_open symlink_count (if length dirs > 1 then tl dirs else dirs) rest
        else
          (case lookup fs (hd dirs) comp of
             None \<Rightarrow> Inl ENOENT
           | Some i \<Rightarrow>
               (case fs i of
                  Link t \<Rightarrow>
                    if GU_OPEN_IN_ROOT_MAX_SYMLINKS < Suc symlink_count then Inl ELOOP
                    else if 4096 \<le> length (next_path t rest) then Inl ENAMETOOLONG
                    else walk fs can_open (Suc symlink_count)
                           (if link_target t \<noteq> [] \<and> hd (link_target t) = CHR ''/'' then [last dirs] else dirs)
                           (next_path t rest)
                | Other \<Rightarrow> if rest = [] then open_node can_open i else Inl ENOTDIR
                | Dir es \<Rightarrow>
                    if rest = [] then open_node can_open i
                    else if GU_OPEN_IN_ROOT_MAX_COMPONENTS \<le> length dirs then Inl ENAMETOOLONG
                    else walk fs can_open symlink_count (i # dirs) rest)))"
  by pat_completeness auto
termination
  by (relation "measures [\<lambda>(fs, co, n, ds, c). 41 - n, \<lambda>(fs, co, n, ds, c). length c]")
     (auto dest: shorter)

declare walk.simps [simp del]

definition gu_openat2_in_root_compat ::
  "('i \<Rightarrow> 'i node) \<Rightarrow> ('i \<Rightarrow> bool) \<Rightarrow> bool \<Rightarrow> 'i \<Rightarrow> string \<Rightarrow> 'i opened" where
  "gu_openat2_in_root_compat fs can_open dup_ok root path =
     (if path = [] then Inl EINVAL
      else if 4096 \<le> length path then Inl ENAMETOOLONG
      else if \<not> dup_ok then Inl EACCES
      else walk fs can_open 0 [root] path)"

datatype availability = Unknown | Unavailable | Available

definition gu_openat2_in_root ::
  "(string \<Rightarrow> 'i opened) \<Rightarrow> availability \<Rightarrow> string \<Rightarrow> 'i opened \<times> availability" where
  "gu_openat2_in_root openat2 avail path =
     (if path = [] then (Inl EINVAL, avail)
      else if avail = Unavailable then (Inl ENOSYS, avail)
      else
        (case openat2 path of
           Inr i \<Rightarrow> (Inr i, Available)
         | Inl e \<Rightarrow> (Inl e, if e = ENOSYS then Unavailable else avail)))"

definition gu_open_pid_root_path ::
  "(string \<Rightarrow> 'i opened) \<Rightarrow> ('i \<Rightarrow> 'i node) \<Rightarrow> ('i \<Rightarrow> bool) \<Rightarrow> bool \<Rightarrow> availability \<Rightarrow> 'i option \<Rightarrow> string \<Rightarrow>
     'i opened \<times> availability" where
  "gu_open_pid_root_path openat2 fs can_open dup_ok avail proc_root path =
     (if path = [] then (Inl EINVAL, avail)
      else
        case proc_root of
          None \<Rightarrow> (Inl ENOENT, avail)
        | Some root \<Rightarrow>
            (case gu_openat2_in_root openat2 avail path of
               (Inl ENOSYS, avail') \<Rightarrow> (gu_openat2_in_root_compat fs can_open dup_ok root path, avail')
             | r \<Rightarrow> r))"

subsection \<open>Confinement\<close>

inductive beneath :: "('i \<Rightarrow> 'i node) \<Rightarrow> 'i \<Rightarrow> 'i \<Rightarrow> bool" for fs root where
  Root: "beneath fs root root"
| Entry: "beneath fs root d \<Longrightarrow> lookup fs d name = Some i \<Longrightarrow> name \<noteq> ''.'' \<Longrightarrow> name \<noteq> ''..'' \<Longrightarrow>
    CHR ''/'' \<notin> set name \<Longrightarrow> beneath fs root i"

lemma component_no_slash: "CHR ''/'' \<notin> set (component p)"
  unfolding component_def using set_takeWhileD by fastforce

lemma open_node_Inr: "open_node can_open i = Inr j \<longleftrightarrow> can_open i \<and> j = i"
  by (auto simp: open_node_def)

lemma walk_beneath:
  "walk fs can_open n dirs cursor = Inr i \<Longrightarrow> dirs \<noteq> [] \<Longrightarrow> last dirs = root \<Longrightarrow> \<forall>d\<in>set dirs. beneath fs root d \<Longrightarrow>
     beneath fs root i \<and> can_open i"
proof (induction fs can_open n dirs cursor rule: walk.induct)
  case (1 fs can_open n dirs cursor)
  define p where "p = dropWhile (\<lambda>c. c = CHR ''/'') cursor"
  note IH = "1.IH" [OF p_def _ refl refl]
  have hd: "beneath fs root (hd dirs)" using "1.prems"(2,4) by simp
  show ?case
  proof (cases "p = []")
    case True
    then show ?thesis using "1.prems"(1) hd by (simp add: walk.simps [of fs can_open n dirs] p_def [symmetric] open_node_Inr)
  next
    case p: False
    note unf = "1.prems"(1) [unfolded walk.simps [of fs can_open n dirs cursor] p_def [symmetric] Let_def]
    consider (dot) "component p = ''.''" | (dotdot) "component p = ''..''"
      | (name) "component p \<noteq> ''.''" "component p \<noteq> ''..''" by blast
    then show ?thesis
    proof cases
      case dot
      then show ?thesis using IH(1) [OF p dot] unf p "1.prems"(2-) by simp
    next
      case dotdot
      have s: "(if length dirs > 1 then tl dirs else dirs) \<noteq> []" "last (if length dirs > 1 then tl dirs else dirs) = root"
          "\<forall>d\<in>set (if length dirs > 1 then tl dirs else dirs). beneath fs root d"
        using "1.prems"(2-4) by (cases dirs; auto)+
      show ?thesis using IH(2) [OF p _ dotdot _ s] dotdot unf p by simp
    next
      case name
      obtain j where j: "lookup fs (hd dirs) (component p) = Some j"
        using unf p name by (cases "lookup fs (hd dirs) (component p)") auto
      have bj: "beneath fs root j"
        by (rule beneath.Entry [OF hd j name component_no_slash])
      show ?thesis
      proof (cases "\<exists>t. fs j = Link t")
        case True
        then obtain t where t: "fs j = Link t" by blast
        let ?ds = "if link_target t \<noteq> [] \<and> hd (link_target t) = CHR ''/'' then [last dirs] else dirs"
        have s: "?ds \<noteq> []" "last ?ds = root" "\<forall>d\<in>set ?ds. beneath fs root d"
          using "1.prems"(2-4) by (auto intro: beneath.Root)
        have w: "\<not> GU_OPEN_IN_ROOT_MAX_SYMLINKS < Suc n" "\<not> 4096 \<le> length (next_path t (remainder p))"
            "walk fs can_open (Suc n) ?ds (next_path t (remainder p)) = Inr i"
          using unf p name by (auto simp: j t simp del: if_split split: if_split_asm)
        show ?thesis using IH(4) [OF p name j t w(1,2,3) s] by simp
      next
        case False
        then have nd: "fs j = Other \<or> (\<exists>es. fs j = Dir es)" by (cases "fs j") auto
        show ?thesis
        proof (cases "remainder p = []")
          case True
          then show ?thesis using unf p name nd bj by (auto simp: j open_node_Inr)
        next
          case rest: False
          then obtain es where es: "fs j = Dir es" "\<not> GU_OPEN_IN_ROOT_MAX_COMPONENTS \<le> length dirs"
              "walk fs can_open n (j # dirs) (remainder p) = Inr i"
            using unf p name nd by (auto simp: j split: if_split_asm)
          show ?thesis
            using IH(3) [OF p name j es(1) rest es(2) es(3)] "1.prems"(2-4) bj by simp
        qed
      qed
    qed
  qed
qed

subsection \<open>Plain paths\<close>

text \<open>The entry a list of names leads to, and the path that spells it.\<close>

fun entry_at :: "('i \<Rightarrow> 'i node) \<Rightarrow> 'i \<Rightarrow> string list \<Rightarrow> 'i option" where
  "entry_at fs d [] = Some d"
| "entry_at fs d (n # ns) = (case lookup fs d n of None \<Rightarrow> None | Some i \<Rightarrow> entry_at fs i ns)"

definition slash_path :: "string list \<Rightarrow> string" where
  "slash_path ns = concat (map (\<lambda>n. CHR ''/'' # n) ns)"

definition plain_name :: "string \<Rightarrow> bool" where
  "plain_name n \<longleftrightarrow> n \<noteq> [] \<and> CHR ''/'' \<notin> set n \<and> n \<noteq> ''.'' \<and> n \<noteq> ''..''"

lemma slash_path_simps [simp]:
  "slash_path [] = []"
  "slash_path (n # ns) = CHR ''/'' # n @ slash_path ns"
  by (simp_all add: slash_path_def)

lemma plain_component:
  assumes "plain_name n"
  shows "dropWhile (\<lambda>c. c = CHR ''/'') (slash_path (n # ns)) = n @ slash_path ns"
    and "component (n @ slash_path ns) = n" and "remainder (n @ slash_path ns) = tl (slash_path ns)"
proof -
  have n: "n \<noteq> []" "\<forall>c\<in>set n. c \<noteq> CHR ''/''" using assms by (auto simp: plain_name_def)
  then show "dropWhile (\<lambda>c. c = CHR ''/'') (slash_path (n # ns)) = n @ slash_path ns"
    by (cases n) auto
  have "takeWhile (\<lambda>c. c \<noteq> CHR ''/'') (n @ slash_path ns) = n @ takeWhile (\<lambda>c. c \<noteq> CHR ''/'') (slash_path ns)"
    using n(2) by (intro takeWhile_append2) blast
  then show "component (n @ slash_path ns) = n" by (cases ns) (simp_all add: component_def)
  have "dropWhile (\<lambda>c. c \<noteq> CHR ''/'') (n @ slash_path ns) = dropWhile (\<lambda>c. c \<noteq> CHR ''/'') (slash_path ns)"
    using n(2) by (intro dropWhile_append2) blast
  then show "remainder (n @ slash_path ns) = tl (slash_path ns)"
    unfolding remainder_def by (simp only:) (cases ns; simp)
qed

lemma entry_at_Dir: "entry_at fs d ns = Some i \<Longrightarrow> ns \<noteq> [] \<Longrightarrow> \<exists>es. fs d = Dir es"
  by (cases ns) (auto simp: lookup_def split: option.split_asm node.split_asm)

lemma walk_plain:
  assumes "\<forall>n\<in>set ns. plain_name n" "entry_at fs (hd dirs) ns = Some i" "\<And>t. fs i \<noteq> Link t"
    and "length dirs + length ns \<le> 2050"
    and "dropWhile (\<lambda>c. c = CHR ''/'') cursor = dropWhile (\<lambda>c. c = CHR ''/'') (slash_path ns)"
  shows "walk fs can_open k dirs cursor = open_node can_open i"
  using assms
proof (induction ns arbitrary: dirs cursor)
  case Nil
  then show ?case by (simp add: walk.simps [of fs can_open k dirs cursor])
next
  case (Cons n ns)
  have n: "plain_name n" using Cons.prems(1) by simp
  have cur: "dropWhile (\<lambda>c. c = CHR ''/'') cursor = n @ slash_path ns"
    using Cons.prems(5) plain_component(1) [OF n] by simp
  obtain j where j: "lookup fs (hd dirs) n = Some j" "entry_at fs j ns = Some i"
    using Cons.prems(2) by (auto split: option.split_asm)
  note step = walk.simps [of fs can_open k dirs cursor, unfolded cur Let_def plain_component(2,3) [OF n]]
  show ?case
  proof (cases "ns = []")
    case True
    then show ?thesis
      using n j Cons.prems(3) by (cases "fs i") (auto simp: step plain_name_def)
  next
    case False
    then obtain m ms where ns: "ns = m # ms" by (cases ns) auto
    have m: "plain_name m" using Cons.prems(1) ns by simp
    then have rest: "tl (slash_path ns) \<noteq> []" using ns by (auto simp: plain_name_def)
    obtain es where es: "fs j = Dir es" using entry_at_Dir [OF j(2) False] by blast
    have "walk fs can_open k (j # dirs) (tl (slash_path ns)) = open_node can_open i"
    proof (rule Cons.IH)
      show "dropWhile (\<lambda>c. c = CHR ''/'') (tl (slash_path ns)) = dropWhile (\<lambda>c. c = CHR ''/'') (slash_path ns)"
        by (simp add: ns)
    qed (use Cons.prems j in simp_all)
    then show ?thesis
      using n j(1) es rest Cons.prems(4) ns by (auto simp: step plain_name_def)
  qed
qed

lemma slash_path_length: "\<forall>n\<in>set ns. plain_name n \<Longrightarrow> 2 * length ns \<le> length (slash_path ns)"
proof (induction ns)
  case (Cons n ns)
  then have "1 \<le> length n" by (cases n) (auto simp: plain_name_def)
  then show ?case using Cons by simp
qed simp

text \<open>
  C21. Where the kernel has no \<open>openat2\<close>, the emulation still cannot be led outside the process's
  root: whatever the path and whatever symbolic links it meets, absolute ones and ones full of
  \<open>..\<close> included, a file that is opened is reached from the root by entries alone, and from then
  on the system call is not tried again.
\<close>

theorem open_confined:
  assumes "\<And>p. openat2 p = Inl ENOSYS"
    and "gu_open_pid_root_path openat2 fs can_open dup_ok avail (Some root) path = (Inr i, avail')"
  shows "beneath fs root i \<and> can_open i \<and> avail' = Unavailable"
proof -
  have "gu_openat2_in_root_compat fs can_open dup_ok root path = Inr i" "avail' = Unavailable"
    using assms by (auto simp: gu_open_pid_root_path_def gu_openat2_in_root_def split: if_split_asm)
  moreover from this(1) have "walk fs can_open 0 [root] path = Inr i"
    by (auto simp: gu_openat2_in_root_compat_def split: if_split_asm)
  then have "beneath fs root i \<and> can_open i"
    by (rule walk_beneath) (auto intro: beneath.Root)
  ultimately show ?thesis by blast
qed

definition sample_fs :: "nat \<Rightarrow> nat node" where
  "sample_fs i =
     (if i = 0 then Dir (map_of [(''outside'', 9), (''root'', 1)])
      else if i = 1 then Dir (map_of [(''lib'', 2), (''escape'', 3)])
      else if i = 2 then Dir (map_of [(''libc.so'', 4), (''up'', 5)])
      else if i = 3 then Link ''/../../lib/up''
      else if i = 5 then Link ''../../lib//libc.so''
      else Other)"

theorem open_confined_witness:
  "gu_open_pid_root_path (\<lambda>_. Inl ENOSYS) sample_fs (\<lambda>i. i = 4) True Unknown (Some 1) ''/../escape'' = (Inr 4, Unavailable) \<and>
   beneath sample_fs 1 4"
proof -
  have "gu_open_pid_root_path (\<lambda>_. Inl ENOSYS) sample_fs (\<lambda>i. i = 4) True Unknown (Some 1) ''/../escape'' = (Inr 4, Unavailable)"
    by (simp add: gu_open_pid_root_path_def gu_openat2_in_root_def gu_openat2_in_root_compat_def walk.simps component_def
        remainder_def lookup_def sample_fs_def link_target_def next_path_def open_node_def)
  from this open_confined [OF refl this] show ?thesis by simp
qed

text \<open>
  C22. A path that names a file below the root, through directories and without links, is opened:
  the emulation finds the file whenever the path is one the interface accepts, with room for every
  directory on the way.
\<close>

theorem open_plain_path:
  assumes "\<forall>n\<in>set ns. plain_name n" "ns \<noteq> []" "length (slash_path ns) < 4096"
    and "entry_at fs root ns = Some i" "\<And>t. fs i \<noteq> Link t" "can_open i"
  shows "gu_openat2_in_root_compat fs can_open True root (slash_path ns) = Inr i"
proof -
  have "slash_path ns \<noteq> []" using assms(2) by (cases ns) auto
  moreover have "walk fs can_open 0 [root] (slash_path ns) = open_node can_open i"
    using assms slash_path_length [OF assms(1)] by (intro walk_plain) auto
  ultimately show ?thesis
    using assms(3,6) by (simp add: gu_openat2_in_root_compat_def open_node_def)
qed

theorem open_plain_path_witness:
  "gu_openat2_in_root_compat sample_fs (\<lambda>i. i = 4) True 1 (slash_path [''lib'', ''libc.so'']) = Inr 4"
  by (rule open_plain_path) (auto simp: plain_name_def lookup_def sample_fs_def)

end
