(* ===== verification/Elf_Cache.thy ===== *)
theory Elf_Cache
  imports Elf_Symbols Open_In_Root Pid_Events
begin

text \<open>
  The context of the unwinder and its cache of ELF images, in \<open>src/gu_stacktrace.c\<close>: the retire
  timer, retiring and reviving images, and the sweep that frees expired ones.

  \<^item> An ELF context is identified by its address; \<open>elf_ctx_list\<close> lists the hash table in insertion
    order. \<open>map_ctxs\<close> is the heap of the per-mapping blocks that hold the references.
  \<^item> The clock is an argument: \<open>clk\<close> is what \<open>clock_gettime\<close> gives, 0 when it fails. The timer
    thread is \<open>gu_retire_timer_tick\<close>, a step the environment may take between any two operations.
  \<^item> \<open>elf_frees\<close> records the blocks handed to \<open>free\<close> when tables are dropped.
\<close>

unbundle bit_operations_syntax

subsection \<open>State\<close>

record gu_statistics =
  elf_ctx_count :: u64
  pid_ctx_count :: u64
  elf_ctx_alloc_count :: u64
  pid_ctx_alloc_count :: u64
  retired_elf_ctx_count :: u64
  retired_elf_cache_hit :: u64
  retired_elf_expired :: u64
  pid_maps_reload_count :: u64
  pid_maps_reload_throttle_count :: u64
  symbols_mem_size :: u64
  cfi_mem_size :: u64
  cfi_data_mem_size :: u64
  kernel_symbols_mem_size :: u64
  unique_id_caused_reload_count :: u64

type_synonym elf_ptr = u64

record per_elf_ctx =
  base_name :: string
  elf_file_path :: string
  debug_file_path :: string
  build_id :: bytes
  elf_golang :: bool
  symbols :: "interval_array option"
  symbol_heap :: sym_heap
  elf_cfi :: "gu_cfi option"
  sym_search_size :: u64
  refcnt :: u64
  exec_virt_addr :: u64
  exec_ranges :: gu_elf_exec_ranges
  retired :: bool
  retire_deadline_ns :: u64

record per_elf_map_ctx =
  map_elf :: elf_ptr
  map_exec_virt_addr :: u64

record per_pid_ctx =
  pid_addr :: u64
  elf_map_list :: "interval_array option"
  ctx_pid :: int
  ctx_comm :: string
  ctx_golang :: bool
  preload :: bool
  ctx_unique_id :: u64
  last_maps_load_ns :: u64
  next_maps_reload_ns :: u64
  maps_reload_rand_state :: u64
  pid_private :: "bytes option"

record retire_timer =
  timer_started :: bool
  timer_stop :: bool
  sweep_pending :: bool
  timer_now_ns :: u64
  timer_event_fd :: bool

datatype elf_free = Free_Name u64 | Free_Chunk u64 | Free_Cfi_Block cfi_free | Free_Elf elf_ptr

record gu_context =
  pid_ctx_list :: "per_pid_ctx list"
  elf_ctx_list :: "(elf_ptr \<times> per_elf_ctx) list"
  map_ctxs :: "u64 \<Rightarrow> per_elf_map_ctx option"
  next_retired_elf_deadline_ns :: u64
  timer :: retire_timer
  debug :: bool
  go_only_buildid :: bool
  go_not_strip_name :: bool
  statistics :: gu_statistics
  kernel_symbols :: "interval_array option"
  kernel_names :: "u64 \<Rightarrow> string option"
  kernel_symbol_hash :: "(string \<times> u64) list"
  vdso_dumped :: bool
  vdso_file_path :: string
  openat2_avail :: availability
  cfi_defaults :: cfi_globals
  pid_events :: "gu_pid_ctx_event list"
  elf_frees :: "elf_free list"

definition get_elf :: "gu_context \<Rightarrow> elf_ptr \<Rightarrow> per_elf_ctx option" where
  "get_elf ctx p = map_of (elf_ctx_list ctx) p"

definition put_elf :: "elf_ptr \<Rightarrow> per_elf_ctx \<Rightarrow> gu_context \<Rightarrow> gu_context" where
  "put_elf p e ctx = ctx\<lparr>elf_ctx_list := map (\<lambda>(q, x). (q, if q = p then e else x)) (elf_ctx_list ctx)\<rparr>"

definition count_stat :: "(gu_statistics \<Rightarrow> gu_statistics) \<Rightarrow> gu_context \<Rightarrow> gu_context" where
  "count_stat f ctx = ctx\<lparr>statistics := f (statistics ctx)\<rparr>"

subsection \<open>The clock and the retire timer\<close>

abbreviation (input) GU_ELF_RETIRE_TTL_NS :: u64 where "GU_ELF_RETIRE_TTL_NS \<equiv> 10000000000"

definition gu_monotonic_ns :: "(u64 \<times> u64) option \<Rightarrow> u64" where
  "gu_monotonic_ns ts = (case ts of None \<Rightarrow> 0 | Some (tv_sec, tv_nsec) \<Rightarrow> tv_sec * 1000000000 + tv_nsec)"

definition gu_cache_now_ns :: "u64 \<Rightarrow> gu_context \<Rightarrow> u64" where
  "gu_cache_now_ns clk ctx =
     (if timer_started (timer ctx) \<and> timer_now_ns (timer ctx) \<noteq> 0 then timer_now_ns (timer ctx) else clk)"

definition gu_retire_timer_tick :: "u64 \<Rightarrow> retire_timer \<Rightarrow> retire_timer" where
  "gu_retire_timer_tick clk t =
     (if timer_stop t \<or> clk = 0 then t else t\<lparr>timer_now_ns := clk, sweep_pending := True\<rparr>)"

definition gu_retire_timer_start :: "bool \<Rightarrow> bool \<Rightarrow> u64 \<Rightarrow> retire_timer \<Rightarrow> bool \<times> retire_timer" where
  "gu_retire_timer_start eventfd_ok create_ok clk t =
     (let t = t\<lparr>timer_stop := False, sweep_pending := False, timer_now_ns := clk, timer_event_fd := False\<rparr> in
      if eventfd_ok \<and> create_ok then (True, t\<lparr>timer_event_fd := True, timer_started := True\<rparr>)
      else (False, t))"

definition gu_retire_timer_stop :: "retire_timer \<Rightarrow> retire_timer" where
  "gu_retire_timer_stop t =
     (if \<not> timer_started t then t else t\<lparr>timer_stop := True, timer_started := False, timer_event_fd := False\<rparr>)"

subsection \<open>Retiring and freeing images\<close>

definition gu_unretire_elf_ctx :: "elf_ptr \<Rightarrow> bool \<Rightarrow> gu_context \<Rightarrow> gu_context cres" where
  "gu_unretire_elf_ctx p activate ctx =
     (case get_elf ctx p of
        None \<Rightarrow> Undef UseAfterFree
      | Some e \<Rightarrow>
          if \<not> retired e then Ok ctx
          else Ok (count_stat (\<lambda>s. s\<lparr>
                     retired_elf_ctx_count := (if retired_elf_ctx_count s \<noteq> 0 then retired_elf_ctx_count s - 1 else 0),
                     elf_ctx_count := elf_ctx_count s + (if activate then 1 else 0)\<rparr>)
                   (put_elf p (e\<lparr>retired := False, retire_deadline_ns := 0\<rparr>) ctx)))"

text \<open>What \<open>clear_elf_ctx\<close> frees and takes off the statistics, for a cached or the temporary context.\<close>

definition elf_blocks :: "per_elf_ctx \<Rightarrow> elf_free list" where
  "elf_blocks e =
     map Free_Name (gu_interval_array_destroy (symbols e)) @
     map (Free_Chunk \<circ> chunk_data) (symbol_name_arena (symbol_heap e)) @
     map Free_Cfi_Block (gu_cfi_destroy (elf_cfi e))"

definition drop_tables :: "per_elf_ctx \<Rightarrow> gu_context \<Rightarrow> gu_context" where
  "drop_tables e ctx =
     count_stat (\<lambda>s. s\<lparr>
         symbols_mem_size := symbols_mem_size s - (if symbols e = None then 0 else sym_search_size e),
         cfi_mem_size := cfi_mem_size s - (case elf_cfi e of None \<Rightarrow> 0 | Some c \<Rightarrow> cfi_mem_usage c),
         cfi_data_mem_size := cfi_data_mem_size s - (case elf_cfi e of None \<Rightarrow> 0 | Some c \<Rightarrow> cfi_data_mem_usage c)\<rparr>)
       (ctx\<lparr>elf_frees := elf_frees ctx @ elf_blocks e\<rparr>)"

definition clear_elf_ctx :: "elf_ptr \<Rightarrow> gu_context \<Rightarrow> gu_context cres" where
  "clear_elf_ctx p ctx =
     (case get_elf ctx p of
        None \<Rightarrow> Undef UseAfterFree
      | Some e \<Rightarrow>
          cbind (if retired e then gu_unretire_elf_ctx p False ctx else Ok ctx) (\<lambda>ctx.
          let ctx = drop_tables e ctx in
          Ok (count_stat (\<lambda>s. if \<not> retired e \<and> elf_ctx_count s \<noteq> 0
                              then s\<lparr>elf_ctx_count := elf_ctx_count s - 1\<rparr> else s)
               (ctx\<lparr>elf_ctx_list := filter (\<lambda>(q, _). q \<noteq> p) (elf_ctx_list ctx),
                     elf_frees := elf_frees ctx @ [Free_Elf p]\<rparr>))))"

definition gu_retire_elf_ctx :: "u64 \<Rightarrow> elf_ptr \<Rightarrow> gu_context \<Rightarrow> gu_context cres" where
  "gu_retire_elf_ctx clk p ctx =
     (case get_elf ctx p of
        None \<Rightarrow> Undef UseAfterFree
      | Some e \<Rightarrow>
          if retired e then Ok ctx
          else
            let deadline = gu_cache_now_ns clk ctx + GU_ELF_RETIRE_TTL_NS;
                ctx = count_stat (\<lambda>s. s\<lparr>
                          elf_ctx_count := (if elf_ctx_count s \<noteq> 0 then elf_ctx_count s - 1 else 0),
                          retired_elf_ctx_count := retired_elf_ctx_count s + 1\<rparr>)
                        (put_elf p (e\<lparr>retired := True, retire_deadline_ns := deadline\<rparr>) ctx) in
            Ok (if next_retired_elf_deadline_ns ctx = 0 \<or> deadline < next_retired_elf_deadline_ns ctx
                then ctx\<lparr>next_retired_elf_deadline_ns := deadline\<rparr> else ctx))"

definition gu_put_elf_ctx :: "u64 \<Rightarrow> elf_ptr \<Rightarrow> gu_context \<Rightarrow> gu_context cres" where
  "gu_put_elf_ctx clk p ctx =
     (case get_elf ctx p of
        None \<Rightarrow> Undef UseAfterFree
      | Some e \<Rightarrow>
          let ctx = put_elf p (e\<lparr>refcnt := refcnt e - 1\<rparr>) ctx in
          if refcnt e - 1 = 0 then gu_retire_elf_ctx clk p ctx else Ok ctx)"

text \<open>The sweep walks the hash table as it was when it started; freed entries are unlinked on the way.\<close>

definition expires :: "u64 \<Rightarrow> per_elf_ctx \<Rightarrow> bool" where
  "expires now_ns e \<longleftrightarrow> now_ns = UINT64_MAX \<or> retire_deadline_ns e \<le> now_ns"

fun sweep_loop :: "u64 \<Rightarrow> elf_ptr list \<Rightarrow> u64 \<Rightarrow> gu_context \<Rightarrow> (u64 \<times> gu_context) cres" where
  "sweep_loop now_ns [] next_deadline ctx = Ok (next_deadline, ctx)"
| "sweep_loop now_ns (p # ps) next_deadline ctx =
     (case get_elf ctx p of
        None \<Rightarrow> Undef UseAfterFree
      | Some e \<Rightarrow>
          if \<not> retired e then sweep_loop now_ns ps next_deadline ctx
          else if expires now_ns e then
            cbind (clear_elf_ctx p (count_stat (\<lambda>s. s\<lparr>retired_elf_expired := retired_elf_expired s + 1\<rparr>) ctx))
              (sweep_loop now_ns ps next_deadline)
          else sweep_loop now_ns ps
                 (if next_deadline = 0 \<or> retire_deadline_ns e < next_deadline
                  then retire_deadline_ns e else next_deadline) ctx)"

definition gu_retired_elf_sweep :: "u64 \<Rightarrow> gu_context \<Rightarrow> gu_context cres" where
  "gu_retired_elf_sweep now_ns ctx =
     (if now_ns = 0 then Ok ctx
      else if now_ns \<noteq> UINT64_MAX \<and>
              (retired_elf_ctx_count (statistics ctx) = 0 \<or>
               next_retired_elf_deadline_ns ctx \<noteq> 0 \<and> now_ns < next_retired_elf_deadline_ns ctx) then Ok ctx
      else
        cbind (sweep_loop now_ns (map fst (elf_ctx_list ctx)) 0 (ctx\<lparr>next_retired_elf_deadline_ns := 0\<rparr>))
          (\<lambda>(next_deadline, ctx). Ok (ctx\<lparr>next_retired_elf_deadline_ns := next_deadline\<rparr>)))"

definition gu_maybe_sweep_retired_elf :: "u64 \<Rightarrow> gu_context \<Rightarrow> gu_context cres" where
  "gu_maybe_sweep_retired_elf clk ctx =
     (if retired_elf_ctx_count (statistics ctx) = 0 then Ok ctx
      else if timer_started (timer ctx) then
        if \<not> sweep_pending (timer ctx) then Ok ctx
        else
          let ctx = ctx\<lparr>timer := (timer ctx)\<lparr>sweep_pending := False\<rparr>\<rparr> in
          gu_retired_elf_sweep (if timer_now_ns (timer ctx) \<noteq> 0 then timer_now_ns (timer ctx) else clk) ctx
      else gu_retired_elf_sweep clk ctx)"

subsection \<open>The cache invariant\<close>

text \<open>
  \<open>refs\<close> counts the references to each image. An image in the table carries exactly that count and
  is retired exactly when nothing refers to it; whatever is referred to is in the table; the table
  has one entry per build-id; the statistics count the active and the retired images; and the next
  deadline is never later than that of a retired image.
\<close>

definition entry_ok :: "(elf_ptr \<Rightarrow> nat) \<Rightarrow> elf_ptr \<times> per_elf_ctx \<Rightarrow> bool" where
  "entry_ok refs x \<longleftrightarrow> fst x \<noteq> 0 \<and> refs (fst x) < 2 ^ 64 \<and> refcnt (snd x) = of_nat (refs (fst x)) \<and>
     (retired (snd x) \<longleftrightarrow> refs (fst x) = 0) \<and> (retired (snd x) \<longrightarrow> retire_deadline_ns (snd x) \<noteq> 0)"

definition elf_table_ok :: "(elf_ptr \<Rightarrow> nat) \<Rightarrow> gu_context \<Rightarrow> bool" where
  "elf_table_ok refs ctx \<longleftrightarrow>
     distinct (map fst (elf_ctx_list ctx)) \<and> distinct (map (build_id \<circ> snd) (elf_ctx_list ctx)) \<and>
     list_all (entry_ok refs) (elf_ctx_list ctx) \<and>
     (\<forall>p. refs p \<noteq> 0 \<longrightarrow> p \<in> fst ` set (elf_ctx_list ctx)) \<and>
     elf_ctx_count (statistics ctx) = of_nat (length (filter (Not \<circ> retired \<circ> snd) (elf_ctx_list ctx))) \<and>
     retired_elf_ctx_count (statistics ctx) = of_nat (length (filter (retired \<circ> snd) (elf_ctx_list ctx)))"

definition deadline_ok :: "u64 \<Rightarrow> (elf_ptr \<times> per_elf_ctx) list \<Rightarrow> bool" where
  "deadline_ok d L \<longleftrightarrow> (\<forall>x\<in>set L. retired (snd x) \<longrightarrow> d \<noteq> 0 \<and> d \<le> retire_deadline_ns (snd x))"

definition elf_cache_ok :: "(elf_ptr \<Rightarrow> nat) \<Rightarrow> gu_context \<Rightarrow> bool" where
  "elf_cache_ok refs ctx \<longleftrightarrow>
     elf_table_ok refs ctx \<and> deadline_ok (next_retired_elf_deadline_ns ctx) (elf_ctx_list ctx)"

text \<open>Before the year 2262 of the monotonic clock: deadlines do not wrap around to zero.\<close>

definition clock_ok :: "u64 \<Rightarrow> gu_context \<Rightarrow> bool" where
  "clock_ok clk ctx \<longleftrightarrow> clk \<le> 0x7fffffffffffffff \<and> timer_now_ns (timer ctx) \<le> 0x7fffffffffffffff"

text \<open>The part of the context the cache operations leave alone.\<close>

definition pid_part where
  "pid_part ctx = (pid_ctx_list ctx, map_ctxs ctx, timer ctx, pid_events ctx,
     pid_ctx_count (statistics ctx), debug ctx, kernel_symbols ctx)"

lemma get_elf_split:
  assumes "get_elf ctx p = Some e" "distinct (map fst (elf_ctx_list ctx))"
  obtains xs ys where "elf_ctx_list ctx = xs @ (p, e) # ys" "p \<notin> fst ` set xs" "p \<notin> fst ` set ys"
proof -
  have "(p, e) \<in> set (elf_ctx_list ctx)" using assms(1) map_of_SomeD by (fastforce simp: get_elf_def)
  then obtain xs ys where L: "elf_ctx_list ctx = xs @ (p, e) # ys" by (auto simp: in_set_conv_decomp)
  moreover have "p \<notin> fst ` set xs" "p \<notin> fst ` set ys" using assms(2) by (auto simp: L image_iff)
  ultimately show ?thesis using that by blast
qed

lemma map_update_other: "p \<notin> fst ` set xs \<Longrightarrow> map (\<lambda>(q, x). (q, if q = p then e else x)) xs = xs"
  by (induction xs) (auto split: if_split_asm)

lemma filter_key_other: "p \<notin> fst ` set xs \<Longrightarrow> filter (\<lambda>(q, x). q \<noteq> p) xs = xs"
  by (induction xs) auto

lemma put_elf_split:
  "elf_ctx_list ctx = xs @ (p, e) # ys \<Longrightarrow> p \<notin> fst ` set xs \<Longrightarrow> p \<notin> fst ` set ys \<Longrightarrow>
     elf_ctx_list (put_elf p e' ctx) = xs @ (p, e') # ys"
  by (simp add: put_elf_def map_update_other)

lemma get_elf_at:
  "elf_ctx_list ctx = xs @ (p, e) # ys \<Longrightarrow> p \<notin> fst ` set xs \<Longrightarrow> get_elf ctx p = Some e"
  by (auto simp: get_elf_def map_add_def dom_map_of_conv_image_fst split: option.split)
     (metis domI dom_map_of_conv_image_fst)

lemma put_elf_other [simp]:
  "pid_ctx_list (put_elf p e ctx) = pid_ctx_list ctx" "map_ctxs (put_elf p e ctx) = map_ctxs ctx"
  "timer (put_elf p e ctx) = timer ctx" "pid_events (put_elf p e ctx) = pid_events ctx"
  "statistics (put_elf p e ctx) = statistics ctx" "debug (put_elf p e ctx) = debug ctx"
  "kernel_symbols (put_elf p e ctx) = kernel_symbols ctx"
  "next_retired_elf_deadline_ns (put_elf p e ctx) = next_retired_elf_deadline_ns ctx"
  by (simp_all add: put_elf_def)

lemma count_stat_other [simp]:
  "pid_ctx_list (count_stat f ctx) = pid_ctx_list ctx" "map_ctxs (count_stat f ctx) = map_ctxs ctx"
  "timer (count_stat f ctx) = timer ctx" "pid_events (count_stat f ctx) = pid_events ctx"
  "statistics (count_stat f ctx) = f (statistics ctx)" "debug (count_stat f ctx) = debug ctx"
  "kernel_symbols (count_stat f ctx) = kernel_symbols ctx" "elf_ctx_list (count_stat f ctx) = elf_ctx_list ctx"
  "next_retired_elf_deadline_ns (count_stat f ctx) = next_retired_elf_deadline_ns ctx"
  "get_elf (count_stat f ctx) = get_elf ctx"
  by (simp_all add: count_stat_def get_elf_def fun_eq_iff)

text \<open>Addresses are distinct and not null, so there are fewer than \<open>2\<^sup>6\<^sup>4\<close> images.\<close>

lemma distinct_ptrs_length:
  fixes L :: "(u64 \<times> 'a) list"
  assumes "distinct (map fst L)" "0 \<notin> fst ` set L"
  shows "length L < 2 ^ 64"
proof -
  have "card (fst ` set L) = length L" using distinct_card [OF assms(1)] by simp
  moreover have "card (fst ` set L) \<le> card (UNIV - {0 :: u64})"
    using assms(2) by (intro card_mono) auto
  moreover have "card (UNIV - {0 :: u64}) = 2 ^ 64 - 1"
    by (simp add: card_Diff_singleton card_word)
  ultimately show ?thesis by simp
qed

lemma elf_table_ok_length: "elf_table_ok refs ctx \<Longrightarrow> length (elf_ctx_list ctx) < 2 ^ 64"
  by (rule distinct_ptrs_length) (auto simp: elf_table_ok_def list_all_iff entry_ok_def)

lemma of_nat_u64_eq_0: "n < 2 ^ 64 \<Longrightarrow> (of_nat n :: u64) = 0 \<longleftrightarrow> n = 0"
  using of_nat_neq_0 [of n, where ?'a = 64] by auto

lemma table_splitI:
  assumes "elf_table_ok refs ctx" "elf_ctx_list ctx = xs @ (p, e) # ys"
    and "elf_ctx_list ctx' = xs @ (p, e') # ys" "build_id e' = build_id e" "entry_ok refs' (p, e')"
    and "\<And>q. q \<noteq> p \<Longrightarrow> refs' q = refs q"
    and "elf_ctx_count (statistics ctx') + of_bool (\<not> retired e) = elf_ctx_count (statistics ctx) + of_bool (\<not> retired e')"
    and "retired_elf_ctx_count (statistics ctx') + of_bool (retired e) = retired_elf_ctx_count (statistics ctx) + of_bool (retired e')"
  shows "elf_table_ok refs' ctx'"
proof -
  have d: "distinct (map fst (xs @ (p, e) # ys))" using assms(1,2) by (simp add: elf_table_ok_def)
  have ent: "entry_ok refs' x" if "x \<in> set xs \<union> set ys" for x
  proof -
    have "fst x \<noteq> p" using d that by (auto simp: image_iff)
    moreover have "entry_ok refs x" using assms(1,2) that by (auto simp: elf_table_ok_def list_all_iff)
    ultimately show ?thesis using assms(6) by (simp add: entry_ok_def)
  qed
  have "q \<in> fst ` set (elf_ctx_list ctx')" if "refs' q \<noteq> 0" for q
  proof (cases "q = p")
    case False
    then have "refs q \<noteq> 0" using that assms(6) by simp
    then have "q \<in> fst ` set (elf_ctx_list ctx)" using assms(1) unfolding elf_table_ok_def by blast
    then show ?thesis using False by (simp add: assms(2,3))
  qed (simp add: assms(3))
  moreover have "elf_ctx_count (statistics ctx) = of_nat (length (filter (Not \<circ> retired \<circ> snd) (elf_ctx_list ctx)))"
      "retired_elf_ctx_count (statistics ctx) = of_nat (length (filter (retired \<circ> snd) (elf_ctx_list ctx)))"
    using assms(1) unfolding elf_table_ok_def by blast+
  then have "elf_ctx_count (statistics ctx') = of_nat (length (filter (Not \<circ> retired \<circ> snd) (elf_ctx_list ctx')))"
      "retired_elf_ctx_count (statistics ctx') = of_nat (length (filter (retired \<circ> snd) (elf_ctx_list ctx')))"
    using assms(7,8) unfolding assms(2,3) by (cases "retired e"; cases "retired e'"; simp add: algebra_simps)+
  moreover have "distinct (map fst (elf_ctx_list ctx'))" using d by (simp add: assms(3))
  moreover have "distinct (map (build_id \<circ> snd) (elf_ctx_list ctx'))"
    using assms(1) unfolding elf_table_ok_def assms(2,3) by (simp add: assms(4))
  moreover have "list_all (entry_ok refs') (elf_ctx_list ctx')"
    using ent assms(5) by (auto simp: assms(3) list_all_iff)
  ultimately show ?thesis unfolding elf_table_ok_def by blast
qed

lemma u64_dec_of_nat: "0 < n \<Longrightarrow> (of_nat n :: u64) - 1 = of_nat (n - 1)"
  by (simp add: of_nat_diff)

lemma deadline_no_wrap:
  fixes w :: u64
  assumes "w \<le> 0x7fffffffffffffff"
  shows "w + GU_ELF_RETIRE_TTL_NS \<noteq> 0"
proof
  assume "w + GU_ELF_RETIRE_TTL_NS = 0"
  then have "w = - GU_ELF_RETIRE_TTL_NS" by (simp add: eq_neg_iff_add_eq_0)
  then show False using assms by simp
qed

text \<open>Giving up a reference keeps the invariant; the last one retires the image.\<close>

lemma gu_put_elf_ctx_ok:
  assumes ok: "elf_cache_ok refs ctx" and ref: "refs p \<noteq> 0" and clk: "clock_ok clk ctx"
  shows "\<exists>ctx'. gu_put_elf_ctx clk p ctx = Ok ctx' \<and> elf_cache_ok (refs(p := refs p - 1)) ctx' \<and>
    pid_part ctx' = pid_part ctx \<and> map fst (elf_ctx_list ctx') = map fst (elf_ctx_list ctx)"
proof -
  have T: "elf_table_ok refs ctx" using ok by (simp add: elf_cache_ok_def)
  then have d: "distinct (map fst (elf_ctx_list ctx))" and "p \<in> fst ` set (elf_ctx_list ctx)"
    using ref by (auto simp: elf_table_ok_def)
  then obtain e where e: "get_elf ctx p = Some e"
    by (auto simp: get_elf_def dom_map_of_conv_image_fst [symmetric])
  obtain xs ys where L: "elf_ctx_list ctx = xs @ (p, e) # ys" "p \<notin> fst ` set xs" "p \<notin> fst ` set ys"
    by (rule get_elf_split [OF e d])
  have E: "entry_ok refs (p, e)" using T by (simp add: elf_table_ok_def L(1))
  have "refcnt e = of_nat (refs p)" "refs p < 2 ^ 64" using E unfolding entry_ok_def fst_conv snd_conv by blast+
  then have cnt: "refcnt e - 1 = of_nat (refs p - 1)" "\<not> retired e" "refs p - 1 < 2 ^ 64"
    using ref E u64_dec_of_nat [of "refs p"] by (simp_all add: entry_ok_def less_imp_diff_less)
  define ctx1 where "ctx1 = put_elf p (e\<lparr>refcnt := refcnt e - 1\<rparr>) ctx"
  have L1: "elf_ctx_list ctx1 = xs @ (p, e\<lparr>refcnt := refcnt e - 1\<rparr>) # ys"
    unfolding ctx1_def by (rule put_elf_split [OF L])
  have e1: "get_elf ctx1 p = Some (e\<lparr>refcnt := refcnt e - 1\<rparr>)" by (rule get_elf_at [OF L1 L(2)])
  have p1: "pid_part ctx1 = pid_part ctx" by (simp add: ctx1_def pid_part_def)
  show ?thesis
  proof (cases "refs p - 1 = 0")
    case False
    have "elf_table_ok (refs(p := refs p - 1)) ctx1"
      using E False cnt by (intro table_splitI [OF T L(1) L1]) (auto simp: entry_ok_def ctx1_def)
    moreover have "deadline_ok (next_retired_elf_deadline_ns ctx1) (elf_ctx_list ctx1)"
      using ok cnt(2) unfolding elf_cache_ok_def deadline_ok_def L(1) L1 by (auto simp: ctx1_def)
    moreover have "refcnt e - 1 \<noteq> 0" unfolding cnt(1) of_nat_u64_eq_0 [OF cnt(3)] by (rule False)
    then have "gu_put_elf_ctx clk p ctx = Ok ctx1" by (simp add: gu_put_elf_ctx_def e ctx1_def)
    ultimately show ?thesis using p1 by (auto simp: elf_cache_ok_def L(1) L1)
  next
    case True
    define dl where "dl = gu_cache_now_ns clk ctx1 + GU_ELF_RETIRE_TTL_NS"
    have dl0: "dl \<noteq> 0"
      unfolding dl_def using clk by (intro deadline_no_wrap) (simp add: gu_cache_now_ns_def clock_ok_def ctx1_def)
    define e2 where "e2 = e\<lparr>refcnt := refcnt e - 1, retired := True, retire_deadline_ns := dl\<rparr>"
    obtain ctx2 where c2: "gu_retire_elf_ctx clk p ctx1 = Ok ctx2" "elf_ctx_list ctx2 = elf_ctx_list (put_elf p e2 ctx1)"
        "pid_part ctx2 = pid_part ctx1"
        "next_retired_elf_deadline_ns ctx2 = (if next_retired_elf_deadline_ns ctx1 = 0 \<or> dl < next_retired_elf_deadline_ns ctx1
           then dl else next_retired_elf_deadline_ns ctx1)"
        "elf_ctx_count (statistics ctx2) = (if elf_ctx_count (statistics ctx1) \<noteq> 0 then elf_ctx_count (statistics ctx1) - 1 else 0)"
        "retired_elf_ctx_count (statistics ctx2) = retired_elf_ctx_count (statistics ctx1) + 1"
      using e1 cnt(2) by (simp add: gu_retire_elf_ctx_def Let_def dl_def e2_def pid_part_def)
    have L2: "elf_ctx_list ctx2 = xs @ (p, e2) # ys" unfolding c2(2) by (rule put_elf_split [OF L1 L(2,3)])
    have "length (filter (Not \<circ> retired \<circ> snd) (elf_ctx_list ctx)) \<le> length (elf_ctx_list ctx)" by simp
    then have "length (filter (Not \<circ> retired \<circ> snd) (elf_ctx_list ctx)) < 2 ^ 64"
      using elf_table_ok_length [OF T] by (rule le_less_trans)
    moreover have "elf_ctx_count (statistics ctx1) = of_nat (length (filter (Not \<circ> retired \<circ> snd) (elf_ctx_list ctx)))"
      using T by (simp add: elf_table_ok_def ctx1_def)
    ultimately have n0: "elf_ctx_count (statistics ctx1) \<noteq> 0"
      using cnt(2) by (simp add: of_nat_u64_eq_0 L del: of_nat_Suc)
    have "elf_table_ok (refs(p := refs p - 1)) ctx2"
      using E True cnt n0 dl0 c2(5,6)
      by (intro table_splitI [OF T L(1) L2]) (auto simp: entry_ok_def e2_def ctx1_def)
    moreover have "deadline_ok (next_retired_elf_deadline_ns ctx2) (elf_ctx_list ctx2)"
      using ok cnt(2) dl0 unfolding c2(4) L2
      by (auto simp: elf_cache_ok_def deadline_ok_def L ctx1_def e2_def)
    moreover have "refcnt e - 1 = 0" unfolding cnt(1) True by simp
    then have "gu_put_elf_ctx clk p ctx = Ok ctx2" using c2(1) by (simp add: gu_put_elf_ctx_def e ctx1_def)
    ultimately show ?thesis using p1 c2(3) by (auto simp: elf_cache_ok_def L(1) L2)
  qed
qed

text \<open>Freeing a retired image unlinks it and nothing else.\<close>

lemma table_removeI:
  assumes "elf_table_ok refs ctx" "elf_ctx_list ctx = xs @ (p, e) # ys" "retired e" "elf_ctx_list ctx' = xs @ ys"
    and "elf_ctx_count (statistics ctx') = elf_ctx_count (statistics ctx)"
    and "retired_elf_ctx_count (statistics ctx') = retired_elf_ctx_count (statistics ctx) - 1"
  shows "elf_table_ok refs ctx'"
proof -
  have "entry_ok refs (p, e)" using assms(1) by (simp add: elf_table_ok_def assms(2))
  then have "refs p = 0" using assms(3) unfolding entry_ok_def by simp
  then have "q \<in> fst ` set (elf_ctx_list ctx')" if "refs q \<noteq> 0" for q
  proof -
    have "q \<in> fst ` set (elf_ctx_list ctx)" using assms(1) that unfolding elf_table_ok_def by blast
    then show ?thesis using \<open>refs p = 0\<close> that by (auto simp: assms(2,4))
  qed
  then show ?thesis
    using assms(1,3,5,6) unfolding elf_table_ok_def assms(2,4) by simp
qed

lemma retired_count_pos:
  assumes "elf_table_ok refs ctx" "x \<in> set (elf_ctx_list ctx)" "retired (snd x)"
  shows "retired_elf_ctx_count (statistics ctx) \<noteq> 0"
proof -
  let ?n = "length (filter (retired \<circ> snd) (elf_ctx_list ctx))"
  have "?n \<le> length (elf_ctx_list ctx)" by simp
  then have "?n < 2 ^ 64" using elf_table_ok_length [OF assms(1)] by (rule le_less_trans)
  moreover have "?n \<noteq> 0" using assms(2,3) by (auto simp: filter_empty_conv)
  moreover have "retired_elf_ctx_count (statistics ctx) = of_nat ?n" using assms(1) unfolding elf_table_ok_def by blast
  ultimately show ?thesis using of_nat_u64_eq_0 by metis
qed

lemma clear_retired:
  assumes "elf_table_ok refs ctx" "elf_ctx_list ctx = xs @ (p, e) # ys" "retired e"
  shows "\<exists>ctx'. clear_elf_ctx p ctx = Ok ctx' \<and> elf_ctx_list ctx' = xs @ ys \<and> elf_table_ok refs ctx' \<and>
    pid_part ctx' = pid_part ctx \<and> next_retired_elf_deadline_ns ctx' = next_retired_elf_deadline_ns ctx"
proof -
  have d: "distinct (map fst (xs @ (p, e) # ys))" using assms(1,2) by (simp add: elf_table_ok_def)
  then have o: "p \<notin> fst ` set xs" "p \<notin> fst ` set ys" by auto
  have e: "get_elf ctx p = Some e" by (rule get_elf_at [OF assms(2) o(1)])
  have n0: "retired_elf_ctx_count (statistics ctx) \<noteq> 0"
    by (rule retired_count_pos [OF assms(1), of "(p, e)"]) (simp_all add: assms(2,3))
  define ctx1 where "ctx1 = put_elf p (e\<lparr>retired := False, retire_deadline_ns := 0\<rparr>) ctx"
  have L1: "filter (\<lambda>(q, _). q \<noteq> p) (elf_ctx_list ctx1) = xs @ ys"
    unfolding ctx1_def put_elf_split [OF assms(2) o] using o by (simp add: filter_key_other)
  obtain ctx' where c: "clear_elf_ctx p ctx = Ok ctx'" "elf_ctx_list ctx' = filter (\<lambda>(q, _). q \<noteq> p) (elf_ctx_list ctx1)"
      "pid_part ctx' = pid_part ctx1" "next_retired_elf_deadline_ns ctx' = next_retired_elf_deadline_ns ctx1"
      "elf_ctx_count (statistics ctx') = elf_ctx_count (statistics ctx1)"
      "retired_elf_ctx_count (statistics ctx') = retired_elf_ctx_count (statistics ctx1) - 1"
    using n0 by (simp add: clear_elf_ctx_def gu_unretire_elf_ctx_def e assms(3) drop_tables_def pid_part_def Let_def ctx1_def)
  have "elf_table_ok refs ctx'"
    by (rule table_removeI [OF assms]) (simp_all add: c L1, simp_all add: ctx1_def)
  then show ?thesis using c L1 by (simp add: pid_part_def ctx1_def)
qed

definition swept :: "u64 \<Rightarrow> elf_ptr set \<Rightarrow> elf_ptr \<times> per_elf_ctx \<Rightarrow> bool" where
  "swept now_ns P x \<longleftrightarrow> fst x \<in> P \<and> retired (snd x) \<and> expires now_ns (snd x)"

lemma sweep_loop_ok:
  assumes "elf_table_ok refs ctx" "distinct ps" "set ps \<subseteq> fst ` set (elf_ctx_list ctx)"
  shows "\<exists>nd ctx'. sweep_loop now_ns ps d ctx = Ok (nd, ctx') \<and> elf_table_ok refs ctx' \<and>
    elf_ctx_list ctx' = filter (Not \<circ> swept now_ns (set ps)) (elf_ctx_list ctx) \<and>
    pid_part ctx' = pid_part ctx \<and> (d \<noteq> 0 \<longrightarrow> nd \<noteq> 0 \<and> nd \<le> d) \<and>
    (\<forall>x\<in>set (elf_ctx_list ctx'). fst x \<in> set ps \<longrightarrow> retired (snd x) \<longrightarrow> nd \<noteq> 0 \<and> nd \<le> retire_deadline_ns (snd x))"
  using assms
proof (induction ps arbitrary: d ctx)
  case Nil
  then show ?case by (simp add: swept_def comp_def)
next
  case (Cons p ps)
  have d: "distinct (map fst (elf_ctx_list ctx))" using Cons.prems(1) by (simp add: elf_table_ok_def)
  obtain e where e: "get_elf ctx p = Some e"
    using Cons.prems(3) by (auto simp: get_elf_def dom_map_of_conv_image_fst [symmetric])
  obtain xs ys where L: "elf_ctx_list ctx = xs @ (p, e) # ys" "p \<notin> fst ` set xs" "p \<notin> fst ` set ys"
    by (rule get_elf_split [OF e d])
  have sub: "set ps \<subseteq> fst ` set (elf_ctx_list ctx)" "distinct ps" "p \<notin> set ps" using Cons.prems(2,3) by auto
  have keep: "filter (Not \<circ> swept now_ns (set (p # ps))) zs = filter (Not \<circ> swept now_ns (set ps)) zs"
    if "p \<notin> fst ` set zs" for zs
    using that by (intro filter_cong) (auto simp: swept_def)
  have the: "snd x = e" if "x \<in> set (elf_ctx_list ctx)" "fst x = p" for x
    using map_of_is_SomeI [OF d, of "fst x" "snd x"] that e by (cases x) (simp add: get_elf_def)
  consider (live) "\<not> retired e" | (old) "retired e" "expires now_ns e" | (later) "retired e" "\<not> expires now_ns e" by blast
  then show ?case
  proof cases
    case live
    then have step: "sweep_loop now_ns (p # ps) d ctx = sweep_loop now_ns ps d ctx" by (simp add: e)
    have same: "filter (Not \<circ> swept now_ns (set (p # ps))) (elf_ctx_list ctx) = filter (Not \<circ> swept now_ns (set ps)) (elf_ctx_list ctx)"
      unfolding L(1) using keep [OF L(2)] keep [OF L(3)] live by (simp add: swept_def)
    have only: "\<not> retired (snd x)" if "x \<in> set (elf_ctx_list ctx)" "fst x = p" for x using the [OF that] live by simp
    obtain nd ctx' where IH: "sweep_loop now_ns ps d ctx = Ok (nd, ctx')" "elf_table_ok refs ctx'"
        "elf_ctx_list ctx' = filter (Not \<circ> swept now_ns (set ps)) (elf_ctx_list ctx)" "pid_part ctx' = pid_part ctx"
        "d \<noteq> 0 \<longrightarrow> nd \<noteq> 0 \<and> nd \<le> d"
        "\<forall>x\<in>set (elf_ctx_list ctx'). fst x \<in> set ps \<longrightarrow> retired (snd x) \<longrightarrow> nd \<noteq> 0 \<and> nd \<le> retire_deadline_ns (snd x)"
      using Cons.IH [OF Cons.prems(1) sub(2,1), of d] by blast
    have "\<not> retired (snd x)" if "x \<in> set (elf_ctx_list ctx')" "fst x = p" for x
      using that unfolding IH(3) by (intro only) simp_all
    then have "\<forall>x\<in>set (elf_ctx_list ctx'). fst x \<in> set (p # ps) \<longrightarrow> retired (snd x) \<longrightarrow> nd \<noteq> 0 \<and> nd \<le> retire_deadline_ns (snd x)"
      using IH(6) by auto
    then show ?thesis unfolding step same using IH(1-5) by blast
  next
    case old
    define ctx0 where "ctx0 = count_stat (\<lambda>s. s\<lparr>retired_elf_expired := retired_elf_expired s + 1\<rparr>) ctx"
    have t0: "elf_table_ok refs ctx0" "elf_ctx_list ctx0 = xs @ (p, e) # ys" "pid_part ctx0 = pid_part ctx"
      using Cons.prems(1) by (simp_all add: ctx0_def elf_table_ok_def L(1) pid_part_def)
    obtain ctx1 where c1: "clear_elf_ctx p ctx0 = Ok ctx1" "elf_ctx_list ctx1 = xs @ ys" "elf_table_ok refs ctx1"
        "pid_part ctx1 = pid_part ctx0"
      using clear_retired [OF t0(1,2) old(1)] by blast
    have step: "sweep_loop now_ns (p # ps) d ctx = sweep_loop now_ns ps d ctx1"
      using old c1(1) by (simp add: e ctx0_def)
    have same: "filter (Not \<circ> swept now_ns (set (p # ps))) (elf_ctx_list ctx) = filter (Not \<circ> swept now_ns (set ps)) (elf_ctx_list ctx1)"
      unfolding L(1) c1(2) using keep [OF L(2)] keep [OF L(3)] old by (simp add: swept_def)
    have "set ps \<subseteq> fst ` set (elf_ctx_list ctx1)" using sub by (auto simp: L(1) c1(2))
    from Cons.IH [OF c1(3) sub(2) this, of d]
    obtain nd ctx' where IH: "sweep_loop now_ns ps d ctx1 = Ok (nd, ctx')" "elf_table_ok refs ctx'"
        "elf_ctx_list ctx' = filter (Not \<circ> swept now_ns (set ps)) (elf_ctx_list ctx1)" "pid_part ctx' = pid_part ctx"
        "d \<noteq> 0 \<longrightarrow> nd \<noteq> 0 \<and> nd \<le> d"
        "\<forall>x\<in>set (elf_ctx_list ctx'). fst x \<in> set ps \<longrightarrow> retired (snd x) \<longrightarrow> nd \<noteq> 0 \<and> nd \<le> retire_deadline_ns (snd x)"
      unfolding c1(4) t0(3) by blast
    have "fst x \<noteq> p" if "x \<in> set (elf_ctx_list ctx')" for x
      using that L(2,3) unfolding IH(3) c1(2) by auto
    then have "\<forall>x\<in>set (elf_ctx_list ctx'). fst x \<in> set (p # ps) \<longrightarrow> retired (snd x) \<longrightarrow> nd \<noteq> 0 \<and> nd \<le> retire_deadline_ns (snd x)"
      using IH(6) by auto
    then show ?thesis unfolding step same using IH(1-5) by blast
  next
    case later
    define d' where "d' = (if d = 0 \<or> retire_deadline_ns e < d then retire_deadline_ns e else d)"
    have ent: "entry_ok refs (p, e)" using Cons.prems(1) by (simp add: elf_table_ok_def L(1))
    then have d': "d' \<noteq> 0" "d' \<le> retire_deadline_ns e" "d \<noteq> 0 \<longrightarrow> d' \<le> d"
      using later(1) unfolding entry_ok_def d'_def by auto
    have step: "sweep_loop now_ns (p # ps) d ctx = sweep_loop now_ns ps d' ctx" using later by (simp add: e d'_def)
    have same: "filter (Not \<circ> swept now_ns (set (p # ps))) (elf_ctx_list ctx) = filter (Not \<circ> swept now_ns (set ps)) (elf_ctx_list ctx)"
      unfolding L(1) using keep [OF L(2)] keep [OF L(3)] later by (simp add: swept_def)
    obtain nd ctx' where IH: "sweep_loop now_ns ps d' ctx = Ok (nd, ctx')" "elf_table_ok refs ctx'"
        "elf_ctx_list ctx' = filter (Not \<circ> swept now_ns (set ps)) (elf_ctx_list ctx)" "pid_part ctx' = pid_part ctx"
        "nd \<noteq> 0" "nd \<le> d'"
        "\<forall>x\<in>set (elf_ctx_list ctx'). fst x \<in> set ps \<longrightarrow> retired (snd x) \<longrightarrow> nd \<noteq> 0 \<and> nd \<le> retire_deadline_ns (snd x)"
      using Cons.IH [OF Cons.prems(1) sub(2,1), of d'] d'(1) by blast
    have "nd \<le> retire_deadline_ns (snd x)" if "x \<in> set (elf_ctx_list ctx')" "fst x = p" for x
    proof -
      have "snd x = e" using that unfolding IH(3) by (intro the) simp_all
      then show ?thesis using IH(6) d'(2) by (auto intro: order_trans)
    qed
    moreover have "d \<noteq> 0 \<longrightarrow> nd \<le> d" using IH(6) d'(3) by (auto intro: order_trans)
    ultimately have "(d \<noteq> 0 \<longrightarrow> nd \<noteq> 0 \<and> nd \<le> d) \<and>
      (\<forall>x\<in>set (elf_ctx_list ctx'). fst x \<in> set (p # ps) \<longrightarrow> retired (snd x) \<longrightarrow> nd \<noteq> 0 \<and> nd \<le> retire_deadline_ns (snd x))"
      using IH(5,7) by auto
    then show ?thesis unfolding step same using IH(1-4) by blast
  qed
qed

lemma sweep_ok:
  assumes ok: "elf_cache_ok refs ctx" and now: "now_ns \<noteq> 0"
  shows "\<exists>ctx'. gu_retired_elf_sweep now_ns ctx = Ok ctx' \<and> elf_cache_ok refs ctx' \<and> pid_part ctx' = pid_part ctx \<and>
    elf_ctx_list ctx' = filter (\<lambda>x. \<not> (retired (snd x) \<and> expires now_ns (snd x))) (elf_ctx_list ctx)"
proof (cases "now_ns \<noteq> UINT64_MAX \<and> (retired_elf_ctx_count (statistics ctx) = 0 \<or>
    next_retired_elf_deadline_ns ctx \<noteq> 0 \<and> now_ns < next_retired_elf_deadline_ns ctx)")
  case True
  then have "gu_retired_elf_sweep now_ns ctx = Ok ctx" by (simp add: gu_retired_elf_sweep_def)
  moreover have "\<not> (retired (snd x) \<and> expires now_ns (snd x))" if "x \<in> set (elf_ctx_list ctx)" for x
    using True that ok retired_count_pos [of refs ctx x]
    by (auto simp: elf_cache_ok_def deadline_ok_def expires_def not_le intro: less_le_trans)
  then have "filter (\<lambda>x. \<not> (retired (snd x) \<and> expires now_ns (snd x))) (elf_ctx_list ctx) = elf_ctx_list ctx"
    by (intro filter_True) blast
  ultimately show ?thesis using ok by simp
next
  case False
  define ctx0 where "ctx0 = ctx\<lparr>next_retired_elf_deadline_ns := 0\<rparr>"
  have t0: "elf_table_ok refs ctx0" "pid_part ctx0 = pid_part ctx" "elf_ctx_list ctx0 = elf_ctx_list ctx"
    using ok by (simp_all add: ctx0_def elf_cache_ok_def elf_table_ok_def pid_part_def)
  have d: "distinct (map fst (elf_ctx_list ctx))" using ok by (simp add: elf_cache_ok_def elf_table_ok_def)
  obtain nd ctx' where c: "sweep_loop now_ns (map fst (elf_ctx_list ctx)) 0 ctx0 = Ok (nd, ctx')" "elf_table_ok refs ctx'"
      "elf_ctx_list ctx' = filter (Not \<circ> swept now_ns (set (map fst (elf_ctx_list ctx)))) (elf_ctx_list ctx0)"
      "pid_part ctx' = pid_part ctx0"
      "\<forall>x\<in>set (elf_ctx_list ctx'). fst x \<in> set (map fst (elf_ctx_list ctx)) \<longrightarrow> retired (snd x) \<longrightarrow>
         nd \<noteq> 0 \<and> nd \<le> retire_deadline_ns (snd x)"
    using sweep_loop_ok [OF t0(1) d, of now_ns 0] by (auto simp: t0(3))
  have L': "elf_ctx_list ctx' = filter (\<lambda>x. \<not> (retired (snd x) \<and> expires now_ns (snd x))) (elf_ctx_list ctx)"
    unfolding c(3) t0(3) by (intro filter_cong) (auto simp: swept_def)
  have "gu_retired_elf_sweep now_ns ctx = Ok (ctx'\<lparr>next_retired_elf_deadline_ns := nd\<rparr>)"
    unfolding gu_retired_elf_sweep_def if_not_P [OF False] if_not_P [OF now] ctx0_def [symmetric] c(1) by simp
  moreover have "deadline_ok nd (elf_ctx_list ctx')"
    using c(5) unfolding deadline_ok_def L' by auto
  then have "elf_cache_ok refs (ctx'\<lparr>next_retired_elf_deadline_ns := nd\<rparr>)"
    using c(2) by (simp add: elf_cache_ok_def elf_table_ok_def)
  moreover have "pid_part (ctx'\<lparr>next_retired_elf_deadline_ns := nd\<rparr>) = pid_part ctx"
    using c(4) t0(2) by (simp add: pid_part_def)
  ultimately show ?thesis using L' by simp
qed

lemma elf_cache_ok_frame:
  "elf_ctx_list ctx' = elf_ctx_list ctx \<Longrightarrow> next_retired_elf_deadline_ns ctx' = next_retired_elf_deadline_ns ctx \<Longrightarrow>
   elf_ctx_count (statistics ctx') = elf_ctx_count (statistics ctx) \<Longrightarrow>
   retired_elf_ctx_count (statistics ctx') = retired_elf_ctx_count (statistics ctx) \<Longrightarrow>
   elf_cache_ok refs ctx' = elf_cache_ok refs ctx"
  by (simp add: elf_cache_ok_def elf_table_ok_def)

lemma maybe_sweep_ok:
  assumes ok: "elf_cache_ok refs ctx"
  shows "\<exists>ctx'. gu_maybe_sweep_retired_elf clk ctx = Ok ctx' \<and> elf_cache_ok refs ctx' \<and>
    pid_ctx_list ctx' = pid_ctx_list ctx \<and> map_ctxs ctx' = map_ctxs ctx \<and> pid_events ctx' = pid_events ctx \<and>
    pid_ctx_count (statistics ctx') = pid_ctx_count (statistics ctx) \<and> debug ctx' = debug ctx \<and>
    timer_now_ns (timer ctx') = timer_now_ns (timer ctx) \<and> kernel_symbols ctx' = kernel_symbols ctx \<and>
    fst ` set (elf_ctx_list ctx') \<subseteq> fst ` set (elf_ctx_list ctx)"
proof -
  have sweep: "\<exists>ctx'. gu_retired_elf_sweep now_ns c = Ok ctx' \<and> elf_cache_ok refs ctx' \<and> pid_part ctx' = pid_part c \<and>
      fst ` set (elf_ctx_list ctx') \<subseteq> fst ` set (elf_ctx_list c)"
    if "elf_cache_ok refs c" for now_ns c
  proof (cases "now_ns = 0")
    case True
    then show ?thesis using that by (simp add: gu_retired_elf_sweep_def)
  next
    case False
    then show ?thesis using sweep_ok [OF that False] by fastforce
  qed
  define ctx1 where "ctx1 = ctx\<lparr>timer := (timer ctx)\<lparr>sweep_pending := False\<rparr>\<rparr>"
  have ok1: "elf_cache_ok refs ctx1" using ok by (subst elf_cache_ok_frame [of _ ctx]) (simp_all add: ctx1_def)
  show ?thesis
    using ok sweep [OF ok, of clk] sweep [OF ok1, of "if timer_now_ns (timer ctx1) \<noteq> 0 then timer_now_ns (timer ctx1) else clk"]
    by (auto simp: gu_maybe_sweep_retired_elf_def Let_def ctx1_def pid_part_def)
qed

end
