(* ===== verification/Cfi_Ops.thy ===== *)
theory Cfi_Ops
  imports Cfi_Tables
begin

text \<open>
  From the rules at a pc to DWARF operations, \<open>src/gu_cfi_helper.c\<close> lines 1042-1560: the
  operation decoder \<open>gu_cfi_init_ops_from_block\<close>, the operations of the CFA and register rules,
  the direct-mapped parse cache, and \<open>gu_cfi_parse_cfi_ex\<close>, which fills the global scratch
  state the evaluator reads.

  An array of operations with its \<open>ops_size\<close> is the list of the operations in use; entries
  past \<open>ops_size\<close> are stale and never read. \<open>Fail\<close> stands for the NULL and \<open>-1\<close> returns.
  A CIE whose initial instructions remember a state owns heap nodes that parsing an FDE frees;
  \<open>freed_chains\<close> records the CIEs this has happened to.
\<close>

unbundle bit_operations_syntax

abbreviation (input) DWARF_OPS_MAX :: nat where "DWARF_OPS_MAX \<equiv> 256"
abbreviation (input) GU_CFI_PARSE_CACHE_OPS_MAX :: nat where "GU_CFI_PARSE_CACHE_OPS_MAX \<equiv> 8"

abbreviation (input) DW_OP_plus_uconst :: u8 where "DW_OP_plus_uconst \<equiv> 0x23"
abbreviation (input) DW_OP_regx :: u8 where "DW_OP_regx \<equiv> 0x90"
abbreviation (input) DW_OP_call_frame_cfa :: u8 where "DW_OP_call_frame_cfa \<equiv> 0x9c"
abbreviation (input) DW_OP_stack_value :: u8 where "DW_OP_stack_value \<equiv> 0x9f"

subsection \<open>Scratch state\<close>

record ops_scratch =
  rip_ops :: "dwarf_op list"
  rbp_ops :: "dwarf_op list"
  rsp_ops :: "dwarf_op list"
  cfa_ops :: "dwarf_op list"

definition empty_scratch :: ops_scratch where
  "empty_scratch = \<lparr>rip_ops = [], rbp_ops = [], rsp_ops = [], cfa_ops = []\<rparr>"

definition gu_cfi_get_ops :: "ops_scratch \<Rightarrow> cfi_reg_type \<Rightarrow> bool \<Rightarrow> dwarf_op list cres" where
  "gu_cfi_get_ops s type cfa =
     (if type = REG_TYPE_MAX then Fail
      else if cfa \<or> (type = REG_TYPE_RSP \<and> rsp_ops s = []) then Ok (cfa_ops s)
      else
        (case type of
           REG_TYPE_RIP \<Rightarrow> Ok (rip_ops s) | REG_TYPE_RBP \<Rightarrow> Ok (rbp_ops s) | REG_TYPE_RSP \<Rightarrow> Ok (rsp_ops s)
         | REG_TYPE_MAX \<Rightarrow> Fail))"

subsection \<open>The parse cache\<close>

definition gu_cfi_parse_cache_index :: "u64 \<Rightarrow> nat" where
  "gu_cfi_parse_cache_index pc = unat ((drop_bit 4 pc XOR drop_bit 12 pc) AND 63)"

definition gu_cfi_ops_cacheable :: "dwarf_op list \<Rightarrow> bool" where
  "gu_cfi_ops_cacheable ops \<longleftrightarrow> length ops \<le> GU_CFI_PARSE_CACHE_OPS_MAX"

definition gu_cfi_cache_copy_to_scratch :: "gu_cfi_cached_ops \<Rightarrow> dwarf_op list" where
  "gu_cfi_cache_copy_to_scratch c = take (cached_size c) (cached_ops c)"

definition gu_cfi_cache_copy_from_scratch :: "dwarf_op list \<Rightarrow> gu_cfi_cached_ops" where
  "gu_cfi_cache_copy_from_scratch ops = \<lparr>cached_size = length ops, cached_ops = ops\<rparr>"

definition gu_cfi_parse_cache_load :: "gu_cfi \<Rightarrow> u64 \<Rightarrow> (ops_scratch \<times> bool) option" where
  "gu_cfi_parse_cache_load cfi pc =
     (let entry = parse_cache cfi ! gu_cfi_parse_cache_index pc in
      if \<not> pce_valid entry \<or> pce_pc entry \<noteq> pc then None
      else Some (\<lparr>rip_ops = gu_cfi_cache_copy_to_scratch (pce_rip entry),
                  rbp_ops = gu_cfi_cache_copy_to_scratch (pce_rbp entry),
                  rsp_ops = gu_cfi_cache_copy_to_scratch (pce_rsp entry),
                  cfa_ops = gu_cfi_cache_copy_to_scratch (pce_cfa entry)\<rparr>,
                 pce_signal_frame entry))"

definition gu_cfi_parse_cache_store :: "gu_cfi \<Rightarrow> ops_scratch \<Rightarrow> u64 \<Rightarrow> bool \<Rightarrow> gu_cfi" where
  "gu_cfi_parse_cache_store cfi s pc sf =
     (if \<not> gu_cfi_ops_cacheable (cfa_ops s) \<or>
         \<not> list_all gu_cfi_ops_cacheable [rip_ops s, rbp_ops s, rsp_ops s] then cfi
      else cfi\<lparr>parse_cache := (parse_cache cfi)[gu_cfi_parse_cache_index pc :=
             \<lparr>pce_valid = True, pce_pc = pc, pce_signal_frame = sf,
              pce_rip = gu_cfi_cache_copy_from_scratch (rip_ops s),
              pce_rbp = gu_cfi_cache_copy_from_scratch (rbp_ops s),
              pce_rsp = gu_cfi_cache_copy_from_scratch (rsp_ops s),
              pce_cfa = gu_cfi_cache_copy_from_scratch (cfa_ops s)\<rparr>]\<rparr>)"

subsection \<open>Decoding operations\<close>

definition between :: "u8 \<Rightarrow> u8 \<Rightarrow> u8 \<Rightarrow> bool" where
  "between lo x hi \<longleftrightarrow> lo \<le> x \<and> x \<le> hi"

text \<open>Operations without operands: deref, dup, drop, over, swap, rot, xderef, abs, and, div,
  minus, mod, mul, neg, not, or, plus, shl, shr, shra, xor, eq, ge, gt, le, lt, ne, lit0-lit31,
  reg0-reg31, nop, push_object_address, call_frame_cfa, form_tls_address,
  GNU_push_tls_address, stack_value and GNU_uninit.\<close>

definition op_plain :: "u8 \<Rightarrow> bool" where
  "op_plain x \<longleftrightarrow>
     x \<in> set [0x06, 0x12, 0x13, 0x14, 0x16, 0x17, 0x18, 0x19, 0x1a, 0x1b, 0x1c, 0x1d, 0x1e, 0x1f, 0x20,
              0x21, 0x22, 0x24, 0x25, 0x26, 0x27, 0x29, 0x2a, 0x2b, 0x2c, 0x2d, 0x2e,
              0x96, 0x97, 0x9c, 0x9b, 0xe0, 0x9f, 0xf0] \<or>
     between 0x30 x 0x4f \<or> between 0x50 x 0x6f"

definition read_number :: "u8 \<Rightarrow> dwarf_op \<Rightarrow> bytes \<Rightarrow> (dwarf_op \<times> bytes) cres" where
  "read_number enc op data =
     cbind (decode_read_checked data enc) (\<lambda>(v, data'). Ok (op\<lparr>number := v\<rparr>, data'))"

definition read_number2 :: "u8 \<Rightarrow> dwarf_op \<Rightarrow> bytes \<Rightarrow> (dwarf_op \<times> bytes) cres" where
  "read_number2 enc op data =
     cbind (decode_read_checked data enc) (\<lambda>(v, data'). Ok (op\<lparr>number2 := v\<rparr>, data'))"

definition read_byte :: "dwarf_op \<Rightarrow> bytes \<Rightarrow> (dwarf_op \<times> bytes) cres" where
  "read_byte op data =
     (case data of [] \<Rightarrow> Fail | b # data' \<Rightarrow> Ok (op\<lparr>number := ucast b\<rparr>, data'))"

text \<open>
  The cases with one operand of a fixed width: addr, call_ref and GNU_variable_value; const1u,
  pick, deref_size and xderef_size; const1s; const2u; const2s, skip, bra and call2; const4u;
  const4s, call4 and GNU_parameter_ref; const8u; const8s.
\<close>

definition op_fixed :: "u8 \<Rightarrow> bool" where
  "op_fixed x \<longleftrightarrow> x \<in> set [0x03, 0x9a, 0xfd, 0x08, 0x15, 0x94, 0x95, 0x09, 0x0a, 0x0b, 0x2f, 0x28, 0x98,
                          0x0c, 0x0d, 0x99, 0xfa, 0x0e, 0x0f]"

definition decode_op_fixed :: "dwarf_op \<Rightarrow> bytes \<Rightarrow> (dwarf_op \<times> bytes) cres" where
  "decode_op_fixed op data =
     (let x = atom op in
      if x \<in> set [0x03, 0x9a, 0xfd] then read_number DW_EH_PE_udata8 op data
      else if x \<in> set [0x08, 0x15, 0x94, 0x95] then read_byte op data
      else if x = 0x09 then
        (case data of [] \<Rightarrow> Fail | b # data' \<Rightarrow> Ok (op\<lparr>number := scast b\<rparr>, data'))
      else if x = 0x0a then read_number DW_EH_PE_udata2 op data
      else if x \<in> set [0x0b, 0x2f, 0x28, 0x98] then read_number DW_EH_PE_sdata2 op data
      else if x = 0x0c then read_number DW_EH_PE_udata4 op data
      else if x \<in> set [0x0d, 0x99, 0xfa] then read_number DW_EH_PE_sdata4 op data
      else if x = 0x0e then read_number DW_EH_PE_udata8 op data
      else read_number DW_EH_PE_sdata8 op data)"

text \<open>
  The cases with LEB128 or two operands: constu, plus_uconst, regx, piece, convert, reinterpret,
  addrx, constx and their GNU forms; consts, breg0-breg31 and fbreg; bregx; bit_piece and
  regval_type; implicit_pointer; deref_type and xderef_type. Every other opcode is refused.
\<close>

definition decode_op_leb :: "dwarf_op \<Rightarrow> bytes \<Rightarrow> (dwarf_op \<times> bytes) cres" where
  "decode_op_leb op data =
     (let x = atom op in
      if x \<in> set [0x10, 0x23, 0x90, 0x93, 0xa8, 0xf7, 0xa9, 0xf9, 0xa1, 0xfb, 0xa2, 0xfc]
      then read_number DW_EH_PE_uleb128 op data
      else if x = 0x11 \<or> between 0x70 x 0x8f \<or> x = 0x91 then read_number DW_EH_PE_sleb128 op data
      else if x = 0x92 then
        cbind (read_number DW_EH_PE_uleb128 op data) (\<lambda>(op', data'). read_number2 DW_EH_PE_sleb128 op' data')
      else if x \<in> set [0x9d, 0xa5, 0xf5] then
        cbind (read_number DW_EH_PE_uleb128 op data) (\<lambda>(op', data'). read_number2 DW_EH_PE_uleb128 op' data')
      else if x \<in> set [0xa0, 0xf2] then
        cbind (read_number DW_EH_PE_udata8 op data) (\<lambda>(op', data'). read_number2 DW_EH_PE_udata8 op' data')
      else if x \<in> set [0xa6, 0xf6, 0xa7] then
        cbind (read_byte op data) (\<lambda>(op', data'). read_number2 DW_EH_PE_udata8 op' data')
      else Fail)"

definition decode_op :: "u64 \<Rightarrow> u8 \<Rightarrow> bytes \<Rightarrow> (dwarf_op \<times> bytes) cres" where
  "decode_op off x data =
     (let op = \<lparr>atom = x, number = 0, number2 = 0, op_offset = off\<rparr> in
      if op_plain x then Ok (op, data)
      else if op_fixed x then decode_op_fixed op data
      else decode_op_leb op data)"

lemma read_suffix:
  "read_number enc op data = Ok (op', data') \<Longrightarrow> suffix data' data \<and> atom op' = atom op"
  "read_number2 enc op data = Ok (op', data') \<Longrightarrow> suffix data' data \<and> atom op' = atom op"
  "read_byte op data = Ok (op', data') \<Longrightarrow> suffix data' data \<and> atom op' = atom op"
  unfolding read_number_def read_number2_def read_byte_def
  by (auto elim!: cbind_OkE dest: decode_suffix split: list.split_asm intro: suffix_ConsI)

lemma decode_op_suffix:
  "decode_op off x data = Ok (op, data') \<Longrightarrow> suffix data' data \<and> atom op = x"
  unfolding decode_op_def decode_op_fixed_def decode_op_leb_def Let_def
  by (auto elim!: cbind_OkE split: if_split_asm list.split_asm dest!: read_suffix
      intro: suffix_ConsI suffix_order.trans)

text \<open>
  The decoding loop with the operations collected so far; the offset of an operation is its
  position in the block, so the length of the whole block is passed along.
\<close>

function ops_loop :: "nat \<Rightarrow> dwarf_op list \<Rightarrow> bytes \<Rightarrow> (dwarf_op list \<times> bytes) cres" where
  "ops_loop blen ops [] = Ok (ops, [])"
| "ops_loop blen ops (b # data) =
     (if DWARF_OPS_MAX \<le> length ops then Ok (ops, b # data)
      else cbind (decode_op (of_nat (blen - Suc (length data))) b data) (\<lambda>(op, data').
        ops_loop blen (ops @ [op]) data'))"
  by pat_completeness auto
termination
  by (relation "measure (\<lambda>(t, ops, data). length data)")
     (auto dest!: decode_op_suffix suffix_length_le)

definition plain_op :: "u8 \<Rightarrow> u64 \<Rightarrow> u64 \<Rightarrow> dwarf_op" where
  "plain_op x n off = \<lparr>atom = x, number = n, number2 = 0, op_offset = off\<rparr>"

definition gu_cfi_init_ops_from_block :: "bytes \<Rightarrow> dwarf_frame_rule \<Rightarrow> bool \<Rightarrow> dwarf_op list cres" where
  "gu_cfi_init_ops_from_block block r cfa =
     (if block = [] then Fail
      else cbind (ops_loop (length block) (if cfa then [] else [plain_op DW_OP_call_frame_cfa 0 0]) block)
        (\<lambda>(ops, data).
          if data \<noteq> [] \<or> DWARF_OPS_MAX \<le> length ops then Fail
          else if r = reg_val_expression
            then Ok (ops @ [plain_op DW_OP_stack_value 0 (of_nat (length block))])
          else Ok ops))"

text \<open>
  The bytes of the CFA block. An empty block is never dereferenced; a \<open>data\<close> member that a
  register instruction has overwritten is not a pointer.
\<close>

definition cfa_block :: "bytes \<Rightarrow> cfa_union \<Rightarrow> bytes cres" where
  "cfa_block buf u =
     (if word0 u = 0 then Ok []
      else
        (case word1 u of
           Block_Data (Cfi_Data p) \<Rightarrow>
             if p + unat (word0 u) \<le> length buf then Ok (take (unat (word0 u)) (drop p buf))
             else Undef OutOfBounds
         | _ \<Rightarrow> Undef WildPointer))"

definition cfa_offset_op :: "cfa_union \<Rightarrow> dwarf_op cres" where
  "cfa_offset_op u =
     (case word1 u of
        Number n \<Rightarrow> Ok \<lparr>atom = ucast (word0 u), number = n, number2 = cfa_number2 u, op_offset = cfa_op_offset u\<rparr>
      | Block_Data _ \<Rightarrow> Undef WildPointer)"

definition gu_cfi_get_cfa_ops :: "bytes \<Rightarrow> gu_cfi_calc_ctx \<Rightarrow> dwarf_op list cres" where
  "gu_cfi_get_cfa_ops buf ctx =
     (case cfa_rule ctx of
        cfa_undefined \<Rightarrow> Fail
      | cfa_offset \<Rightarrow> cbind (cfa_offset_op (cfa_data ctx)) (\<lambda>op. Ok [op])
      | cfa_expr \<Rightarrow> cbind (cfa_block buf (cfa_data ctx)) (\<lambda>block.
          gu_cfi_init_ops_from_block block reg_expression True)
      | cfa_invalid \<Rightarrow> Fail)"

definition reg_block :: "bytes \<Rightarrow> u64 \<Rightarrow> bytes cres" where
  "reg_block buf v =
     (if of_nat (length buf) \<le> v then Fail
      else cbind (decode_read_checked (drop (unat v) buf) DW_EH_PE_uleb128) (\<lambda>(len, p).
        if \<not> block_fits p len then Fail else Ok (take (unat len) p)))"

definition gu_cfi_get_regs_ops :: "bytes \<Rightarrow> cfi_reg_type \<Rightarrow> gu_cfi_calc_ctx \<Rightarrow> dwarf_op list cres" where
  "gu_cfi_get_regs_ops buf type ctx =
     (case get_reg type (regs ctx) of
        None \<Rightarrow> Fail
      | Some reg \<Rightarrow>
          let v = scast (reg_value reg) :: u64;
              base = plain_op DW_OP_call_frame_cfa 0 0 #
                       (if v \<noteq> 0 then [plain_op DW_OP_plus_uconst v 0] else []) in
          (case rule reg of
             reg_unspecified \<Rightarrow> Fail
           | reg_undefined \<Rightarrow> Fail
           | reg_same_value \<Rightarrow> Fail
           | reg_offset \<Rightarrow> Ok base
           | reg_val_offset \<Rightarrow> Ok (base @ [plain_op DW_OP_stack_value 0 0])
           | reg_register \<Rightarrow> Ok [plain_op DW_OP_regx v 0]
           | reg_val_expression \<Rightarrow> cbind (reg_block buf v) (\<lambda>block. gu_cfi_init_ops_from_block block (rule reg) False)
           | reg_expression \<Rightarrow> cbind (reg_block buf v) (\<lambda>block. gu_cfi_init_ops_from_block block (rule reg) False)))"

subsection \<open>Parsing a pc\<close>

text \<open>The optional operations of a register: \<open>[]\<close> when the rule gives none.\<close>

definition ops_or_none :: "dwarf_op list cres \<Rightarrow> dwarf_op list option cres" where
  "ops_or_none m = (case m of Ok ops \<Rightarrow> Ok (Some ops) | Fail \<Rightarrow> Ok None | Undef k \<Rightarrow> Undef k)"

definition ops_of_ctx :: "bytes \<Rightarrow> gu_cfi_calc_ctx \<Rightarrow> ops_scratch cres" where
  "ops_of_ctx buf ctx =
     cbind (gu_cfi_get_cfa_ops buf ctx) (\<lambda>cfa.
     cbind (ops_or_none (gu_cfi_get_regs_ops buf REG_TYPE_RSP ctx)) (\<lambda>rsp.
     cbind (ops_or_none (gu_cfi_get_regs_ops buf REG_TYPE_RIP ctx)) (\<lambda>rip.
     cbind (ops_or_none (gu_cfi_get_regs_ops buf REG_TYPE_RBP ctx)) (\<lambda>rbp.
       Ok \<lparr>rip_ops = (case rip of None \<Rightarrow> [] | Some ops \<Rightarrow> ops),
           rbp_ops = (case rbp of None \<Rightarrow> [] | Some ops \<Rightarrow> ops),
           rsp_ops = (case rsp of None \<Rightarrow> cfa | Some ops \<Rightarrow> ops),
           cfa_ops = cfa\<rparr>))))"

text \<open>The saved states of a CIE are freed when an FDE that uses them has been run.\<close>

definition free_chain :: "gu_cfi_cie \<Rightarrow> gu_cfi \<Rightarrow> gu_cfi" where
  "free_chain cie cfi =
     (if prev (cie_calc_ctx cie) = [] then cfi
      else cfi\<lparr>freed_chains := cie_offset cie # freed_chains cfi\<rparr>)"

definition run_fde :: "arch \<Rightarrow> bool \<Rightarrow> gu_cfi \<Rightarrow> gu_cfi_cie \<Rightarrow> gu_cfi_fde \<Rightarrow> u64 \<Rightarrow> ops_scratch cres" where
  "run_fde a malloc_ok cfi cie fde pc =
     (if prev (cie_calc_ctx cie) \<noteq> [] \<and> cie_offset cie \<in> set (freed_chains cfi) then Undef UseAfterFree
      else cbind (init_calc_ctx_by_ins a malloc_ok (cfi_data cfi) cie (cie_calc_ctx cie)
                   (instructions fde) (instructions_end fde) (fde_start fde) pc) (\<lambda>ctx.
             ops_of_ctx (cfi_data cfi) ctx))"

text \<open>The result is the scratch state, the table, \<open>*signal_frame\<close> and whether 0 was returned.\<close>

type_synonym parse_result = "(ops_scratch \<times> gu_cfi \<times> bool \<times> bool) cres"

definition gu_cfi_parse_cfi_ex :: "arch \<Rightarrow> bool \<Rightarrow> ops_scratch \<Rightarrow> gu_cfi \<Rightarrow> u64 \<Rightarrow> parse_result" where
  "gu_cfi_parse_cfi_ex a malloc_ok stale cfi pc =
     (let s = stale\<lparr>rip_ops := [], rbp_ops := [], rsp_ops := [], cfa_ops := []\<rparr> in
      case gu_cfi_parse_cache_load cfi pc of
        Some (s', sf) \<Rightarrow> Ok (s', cfi, sf, True)
      | None \<Rightarrow>
          (case find_fde cfi pc of
             Undef k \<Rightarrow> Undef k
           | Fail \<Rightarrow> Ok (s, cfi, False, False)
           | Ok fde \<Rightarrow>
               (case fde_cie fde of
                  None \<Rightarrow> Ok (s, cfi, False, False)
                | Some cie \<Rightarrow>
                    (case run_fde a malloc_ok cfi cie fde pc of
                       Undef k \<Rightarrow> Undef k
                     | Fail \<Rightarrow> Ok (s, free_chain cie cfi, signal_frame cie, False)
                     | Ok s' \<Rightarrow>
                         Ok (s', gu_cfi_parse_cache_store (free_chain cie cfi) s' pc (signal_frame cie),
                             signal_frame cie, True)))))"

definition gu_cfi_parse_cfi :: "arch \<Rightarrow> bool \<Rightarrow> ops_scratch \<Rightarrow> gu_cfi \<Rightarrow> u64 \<Rightarrow> parse_result" where
  "gu_cfi_parse_cfi a malloc_ok stale cfi pc = gu_cfi_parse_cfi_ex a malloc_ok stale cfi pc"

subsection \<open>Bounds of the operation arrays\<close>

lemma ops_loop_length:
  "ops_loop n ops data = Ok (ops', rest) \<Longrightarrow> length ops \<le> DWARF_OPS_MAX \<Longrightarrow>
   length ops \<le> length ops' \<and> length ops' \<le> DWARF_OPS_MAX \<and> (data \<noteq> [] \<and> length ops < DWARF_OPS_MAX \<longrightarrow> length ops < length ops')"
proof (induction n ops data arbitrary: ops' rest rule: ops_loop.induct)
  case (2 n ops b data)
  show ?case
  proof (cases "DWARF_OPS_MAX \<le> length ops")
    case False
    then obtain op data' where s: "decode_op (of_nat (n - Suc (length data))) b data = Ok (op, data')"
        "ops_loop n (ops @ [op]) data' = Ok (ops', rest)"
      using "2.prems"(1) by (auto elim!: cbind_OkE)
    have "length (ops @ [op]) \<le> length ops' \<and> length ops' \<le> DWARF_OPS_MAX"
      using "2.IH" [OF False s(1) refl s(2)] False by simp
    then show ?thesis by simp
  qed (use "2.prems" in auto)
qed simp

lemma block_ops_length:
  "gu_cfi_init_ops_from_block block r cfa = Ok ops \<Longrightarrow> 0 < length ops \<and> length ops \<le> DWARF_OPS_MAX"
  unfolding gu_cfi_init_ops_from_block_def
  by (auto elim!: cbind_OkE dest!: ops_loop_length split: if_split_asm)

lemma cfa_ops_length:
  "gu_cfi_get_cfa_ops buf ctx = Ok ops \<Longrightarrow> 0 < length ops \<and> length ops \<le> DWARF_OPS_MAX"
  unfolding gu_cfi_get_cfa_ops_def
  by (auto elim!: cbind_OkE dest: block_ops_length split: dwarf_cfa_rule.split_asm)

lemma regs_ops_length:
  "gu_cfi_get_regs_ops buf t ctx = Ok ops \<Longrightarrow> 0 < length ops \<and> length ops \<le> DWARF_OPS_MAX"
  unfolding gu_cfi_get_regs_ops_def Let_def
  by (auto elim!: cbind_OkE dest: block_ops_length split: dwarf_frame_rule.split_asm option.split_asm if_split_asm)

abbreviation scratch_fits :: "nat \<Rightarrow> ops_scratch \<Rightarrow> bool" where
  "scratch_fits n s \<equiv> length (cfa_ops s) \<le> n \<and> length (rip_ops s) \<le> n \<and> length (rbp_ops s) \<le> n \<and> length (rsp_ops s) \<le> n"

lemma ops_or_none_Some: "ops_or_none m = Ok (Some ops) \<Longrightarrow> m = Ok ops"
  by (auto simp: ops_or_none_def split: cres.split_asm)

lemma ops_of_ctx_fits: "ops_of_ctx buf ctx = Ok s \<Longrightarrow> scratch_fits DWARF_OPS_MAX s \<and> cfa_ops s \<noteq> [] \<and> rsp_ops s \<noteq> []"
  unfolding ops_of_ctx_def
  by (auto elim!: cbind_OkE dest!: ops_or_none_Some cfa_ops_length regs_ops_length split: option.splits)

subsection \<open>The cache as a memo table\<close>

text \<open>The direct-mapped parse cache meets the contract of a memo table.\<close>

definition cache_sized :: "gu_cfi \<Rightarrow> bool" where
  "cache_sized cfi \<longleftrightarrow> length (parse_cache cfi) = 64"

definition parse_cache_put :: "gu_cfi \<Rightarrow> u64 \<Rightarrow> ops_scratch \<times> bool \<Rightarrow> gu_cfi" where
  "parse_cache_put cfi pc v = gu_cfi_parse_cache_store cfi (fst v) pc (snd v)"

lemma cache_index_less: "gu_cfi_parse_cache_index pc < 64"
proof -
  have "(drop_bit 4 pc XOR drop_bit 12 pc) AND 63 \<le> 63" by (rule word_and_le1)
  then show ?thesis unfolding gu_cfi_parse_cache_index_def by (simp add: word_le_nat_alt)
qed

lemma copy_roundtrip [simp]: "gu_cfi_cache_copy_to_scratch (gu_cfi_cache_copy_from_scratch ops) = ops"
  by (simp add: gu_cfi_cache_copy_to_scratch_def gu_cfi_cache_copy_from_scratch_def)

interpretation pc_memo: memo gu_cfi_parse_cache_load parse_cache_put cache_sized
proof
  fix c k v assume "cache_sized c"
  then show "cache_sized (parse_cache_put c k v)"
    by (simp add: cache_sized_def parse_cache_put_def gu_cfi_parse_cache_store_def)
next
  fix c k v k' w
  assume c: "cache_sized c" and l: "gu_cfi_parse_cache_load (parse_cache_put c k v) k' = Some w"
  show "k' = k \<and> w = v \<or> gu_cfi_parse_cache_load c k' = Some w"
    using l c cache_index_less [of k]
    by (cases "gu_cfi_parse_cache_index k' = gu_cfi_parse_cache_index k"; cases v)
       (auto simp: gu_cfi_parse_cache_load_def parse_cache_put_def gu_cfi_parse_cache_store_def
         cache_sized_def Let_def split: if_split_asm)
qed


text \<open>Parsing a pc from the tables alone.\<close>

definition parse_fresh :: "arch \<Rightarrow> bool \<Rightarrow> gu_cfi \<Rightarrow> u64 \<Rightarrow> (ops_scratch \<times> bool) cres" where
  "parse_fresh a m cfi pc =
     cbind (find_fde cfi pc) (\<lambda>fde.
       case fde_cie fde of None \<Rightarrow> Fail
       | Some cie \<Rightarrow> cbind (run_fde a m cfi cie fde pc) (\<lambda>s. Ok (s, signal_frame cie)))"

definition fresh_value :: "arch \<Rightarrow> bool \<Rightarrow> gu_cfi \<Rightarrow> u64 \<Rightarrow> (ops_scratch \<times> bool) option" where
  "fresh_value a m cfi pc = (case parse_fresh a m cfi pc of Ok v \<Rightarrow> Some v | _ \<Rightarrow> None)"

definition cache_ok :: "arch \<Rightarrow> bool \<Rightarrow> gu_cfi \<Rightarrow> bool" where
  "cache_ok a m cfi \<longleftrightarrow> cache_sized cfi \<and>
     (\<forall>pc s sf. gu_cfi_parse_cache_load cfi pc = Some (s, sf) \<longrightarrow> fresh_value a m cfi pc = Some (s, sf))"

text \<open>No CIE remembers a state in its initial instructions.\<close>

definition no_saved_states :: "gu_cfi \<Rightarrow> bool" where
  "no_saved_states cfi \<longleftrightarrow> (\<forall>fde\<in>set (fdes cfi). \<forall>cie. fde_cie fde = Some cie \<longrightarrow> prev (cie_calc_ctx cie) = [])"

lemma find_fde_in: "find_fde cfi pc = Ok fde \<Longrightarrow> fde \<in> set (fdes cfi)"
  by (auto simp: find_fde_def fde_at_def Let_def split: asm_splits)

lemma find_fde_parse_cache [simp]: "find_fde (cfi\<lparr>parse_cache := c\<rparr>) = find_fde cfi"
  by (simp add: fun_eq_iff find_fde_def fde_at_def Let_def split: option.split prod.split)

lemma run_fde_parse_cache [simp]: "run_fde a m (cfi\<lparr>parse_cache := c\<rparr>) = run_fde a m cfi"
  by (simp add: fun_eq_iff run_fde_def)

lemma parse_fresh_parse_cache [simp]: "parse_fresh a m (cfi\<lparr>parse_cache := c\<rparr>) = parse_fresh a m cfi"
  unfolding parse_fresh_def run_fde_parse_cache find_fde_parse_cache by (rule refl)

lemma store_frame:
  "parse_fresh a m (gu_cfi_parse_cache_store cfi s pc sf) = parse_fresh a m cfi"
  "fdes (gu_cfi_parse_cache_store cfi s pc sf) = fdes cfi"
  by (simp_all add: gu_cfi_parse_cache_store_def)

lemma cache_ok_store:
  assumes "cache_ok a m cfi" "fresh_value a m cfi pc = Some (s, sf)"
  shows "cache_ok a m (gu_cfi_parse_cache_store cfi s pc sf)"
proof -
  have v: "fresh_value a m (gu_cfi_parse_cache_store cfi s pc sf) = fresh_value a m cfi"
    by (simp add: fresh_value_def fun_eq_iff store_frame)
  have p: "gu_cfi_parse_cache_store cfi s pc sf = parse_cache_put cfi pc (s, sf)"
    by (simp add: parse_cache_put_def)
  show ?thesis
    unfolding cache_ok_def v unfolding p
  proof (intro conjI allI impI)
    show "cache_sized (parse_cache_put cfi pc (s, sf))"
      using assms(1) by (intro pc_memo.store_inv) (simp add: cache_ok_def)
    show "fresh_value a m cfi pc' = Some (u, v)"
      if "gu_cfi_parse_cache_load (parse_cache_put cfi pc (s, sf)) pc' = Some (u, v)" for pc' u v
      using assms by (intro pc_memo.agree_store [OF _ _ _ that]) (auto simp: cache_ok_def)
  qed
qed

lemma parse_step:
  assumes "cache_ok a m cfi" "no_saved_states cfi"
  shows "(case parse_fresh a m cfi pc of
      Ok (s, sf) \<Rightarrow> \<exists>cfi'. gu_cfi_parse_cfi_ex a m stale cfi pc = Ok (s, cfi', sf, True) \<and>
        cache_ok a m cfi' \<and> no_saved_states cfi' \<and> parse_fresh a m cfi' = parse_fresh a m cfi
    | Fail \<Rightarrow> \<exists>sf. gu_cfi_parse_cfi_ex a m stale cfi pc = Ok (empty_scratch, cfi, sf, False)
    | Undef k \<Rightarrow> gu_cfi_parse_cfi_ex a m stale cfi pc = Undef k)"
proof (cases "gu_cfi_parse_cache_load cfi pc")
  case (Some w)
  then have "fresh_value a m cfi pc = Some w" using assms(1) by (cases w) (simp add: cache_ok_def)
  then have "parse_fresh a m cfi pc = Ok w" by (simp add: fresh_value_def split: cres.split_asm)
  then show ?thesis using Some assms by (cases w) (auto simp: gu_cfi_parse_cfi_ex_def Let_def)
next
  case None
  have s: "stale\<lparr>rip_ops := [], rbp_ops := [], rsp_ops := [], cfa_ops := []\<rparr> = empty_scratch"
    by (simp add: empty_scratch_def)
  have chain: "free_chain cie cfi = cfi" if "find_fde cfi pc = Ok fde" "fde_cie fde = Some cie" for fde cie
    using assms(2) find_fde_in [OF that(1)] that(2) by (auto simp: no_saved_states_def free_chain_def)
  have "cache_ok a m (gu_cfi_parse_cache_store cfi s pc sf) \<and>
      no_saved_states (gu_cfi_parse_cache_store cfi s pc sf)"
    if "parse_fresh a m cfi pc = Ok (s, sf)" for s sf
    using cache_ok_store [OF assms(1)] that assms(2)
    by (auto simp: fresh_value_def no_saved_states_def store_frame)
  then show ?thesis
    using chain
    by (auto simp: parse_fresh_def gu_cfi_parse_cfi_ex_def None s store_frame
        split: cres.split option.split)
qed

subsection \<open>Properties\<close>

text \<open>Parsing one pc after the other on the same table; \<open>None\<close> is a failed parse.\<close>

fun parse_seq ::
  "arch \<Rightarrow> bool \<Rightarrow> ops_scratch \<Rightarrow> gu_cfi \<Rightarrow> u64 list \<Rightarrow> ((ops_scratch \<times> bool) option list \<times> gu_cfi) cres" where
  "parse_seq a m stale cfi [] = Ok ([], cfi)"
| "parse_seq a m stale cfi (pc # pcs) =
     cbind (gu_cfi_parse_cfi_ex a m stale cfi pc) (\<lambda>(s, cfi', sf, ok).
     cbind (parse_seq a m s cfi' pcs) (\<lambda>(rs, cfi'').
       Ok ((if ok then Some (s, sf) else None) # rs, cfi'')))"

lemma blank_cache_ok:
  assumes "cache_sized cfi" "\<forall>e\<in>set (parse_cache cfi). \<not> pce_valid e"
  shows "cache_ok a m cfi"
proof -
  have "gu_cfi_parse_cache_load cfi pc = None" for pc
    using assms cache_index_less [of pc] by (simp add: gu_cfi_parse_cache_load_def cache_sized_def)
  then show ?thesis using assms(1) by (simp add: cache_ok_def)
qed

text \<open>
  C6. The parse cache is transparent: over any sequence of pcs on a table, each parse gives
  exactly the operations and the signal-frame flag that a parse from the tables alone gives,
  whatever was cached before, whatever collisions evicted, and whatever the scratch state held.
\<close>

theorem parse_cache_transparent:
  assumes "cache_ok a m cfi" "no_saved_states cfi"
    and "\<forall>pc\<in>set pcs. \<not> is_undef (parse_fresh a m cfi pc)"
  shows "\<exists>cfi'. parse_seq a m stale cfi pcs = Ok (map (fresh_value a m cfi) pcs, cfi')"
  using assms
proof (induction pcs arbitrary: stale cfi)
  case (Cons pc pcs)
  note step = parse_step [OF Cons.prems(1,2), where pc = pc and stale = stale]
  show ?case
  proof (cases "parse_fresh a m cfi pc")
    case (Ok v)
    obtain s sf where v: "v = (s, sf)" by (cases v)
    obtain cfi' where p: "gu_cfi_parse_cfi_ex a m stale cfi pc = Ok (s, cfi', sf, True)" "cache_ok a m cfi'"
        "no_saved_states cfi'" "parse_fresh a m cfi' = parse_fresh a m cfi"
      using step Ok v by auto
    have "fresh_value a m cfi' = fresh_value a m cfi" by (simp add: fun_eq_iff fresh_value_def p(4))
    then show ?thesis
      using Cons.IH [OF p(2,3), of s] Cons.prems(3) p Ok v by (auto simp: fresh_value_def)
  next
    case Fail
    then obtain sf where "gu_cfi_parse_cfi_ex a m stale cfi pc = Ok (empty_scratch, cfi, sf, False)"
      using step by auto
    then show ?thesis
      using Cons.IH [OF Cons.prems(1,2), of empty_scratch] Cons.prems(3) Fail by (auto simp: fresh_value_def)
  next
    case (Undef k)
    then show ?thesis using Cons.prems(3) by simp
  qed
qed simp

lemma sample_cache: "cache_ok a m sample_cfi" "no_saved_states sample_cfi"
proof -
  show "cache_ok a m sample_cfi"
    by (intro blank_cache_ok) (simp_all add: cache_sized_def sample_cfi_def blank_cfi_def Let_def)
  show "no_saved_states sample_cfi"
    by (auto simp: no_saved_states_def sample_fdes sample_fde_def sample_cie_def zero_ctx_def)
qed

definition sample_ops :: ops_scratch where
  "sample_ops = (let cfa = [\<lparr>atom = DW_OP_bregx, number = 7, number2 = 8, op_offset = 0\<rparr>] in
     \<lparr>rip_ops = [plain_op DW_OP_call_frame_cfa 0 0, plain_op DW_OP_plus_uconst (- 8) 0],
      rbp_ops = [], rsp_ops = cfa, cfa_ops = cfa\<rparr>)"

lemma sample_run:
  "pc < e \<Longrightarrow> run_fde X86_64 True sample_cfi sample_cie (sample_fde s e) pc = Ok sample_ops"
  by (simp add: run_fde_def sample_cfi_def sample_fde_def Let_def blank_cfi_def sample_cie_def cfi_eval
      zero_ctx_def set_cfa_offset_def update_reg_def trans_reg_type_def to_int_def zero_reg_def
      ops_of_ctx_def gu_cfi_get_cfa_ops_def cfa_offset_op_def gu_cfi_get_regs_ops_def ops_or_none_def
      sample_ops_def plain_op_def)

lemma sample_sel:
  "fde_cie (sample_fde s e) = Some sample_cie" "fde_start (sample_fde s e) = s"
  "fde_end (sample_fde s e) = e" "signal_frame sample_cie = False"
  by (simp_all add: sample_fde_def sample_cie_def)

lemma sample_fresh:
  "parse_fresh X86_64 True sample_cfi pc =
     (if pc \<in> {0x2000..<0x2100} \<union> {0x1000..<0x1800} then Ok (sample_ops, False) else Fail)"
proof (cases "\<exists>i < length (fdes sample_cfi). fde_covers (fdes sample_cfi ! i) pc")
  case True
  then obtain i where i: "i < length (fdes sample_cfi)" "fde_covers (fdes sample_cfi ! i) pc" by blast
  then show ?thesis
    using find_fde_hit [OF sample_table_ok sample_disjoint i]
    by (auto simp: sample_fdes less_Suc_eq sample_run parse_fresh_def sample_sel)
next
  case False
  then have "find_fde sample_cfi pc = Fail"
    by (intro find_fde_none [OF sample_table_ok sample_disjoint(1)]) blast
  moreover have "pc \<notin> {0x2000..<0x2100} \<union> {0x1000..<0x1800}"
    using False [unfolded not_ex, rule_format, of 0] False [unfolded not_ex, rule_format, of 1]
    by (auto simp: sample_fdes sample_sel)
  ultimately show ?thesis by (simp add: parse_fresh_def)
qed

lemma sample_no_undef: "\<not> is_undef (parse_fresh X86_64 True sample_cfi pc)"
  by (simp add: sample_fresh)

theorem parse_cache_transparent_witness:
  "\<exists>cfi'. parse_seq X86_64 True empty_scratch sample_cfi [0x1234, 0x1234, 0x5000] =
     Ok (map (fresh_value X86_64 True sample_cfi) [0x1234, 0x1234, 0x5000], cfi')"
  by (rule parse_cache_transparent [OF sample_cache]) (simp add: sample_no_undef)




end
