(* ===== verification/Stack_Info.thy ===== *)
theory Stack_Info
  imports Gu_Prelude
begin

text \<open>
  The sample an unwind starts from and its flag word, \<open>include/gunwinder/unwinder_types.h\<close>:
  \<open>struct gu_stack_info\<close>, the flag helpers and the reason byte packed into bits 16 to 23.

  \<open>regs\<close> is the snapshot as the words of \<open>struct pt_regs\<close>, \<open>None\<close> for NULL. The enumeration
  \<open>gu_unwind_flag\<close> has the 32-bit unsigned type its constants need, so \<open>~flag\<close> is computed in 32
  bits before the conversion to 64.
\<close>

unbundle bit_operations_syntax

abbreviation (input) MAX_FP_STACK_LEVEL :: nat where "MAX_FP_STACK_LEVEL \<equiv> 127"

record gu_stack_info =
  pid :: int
  stack_size :: u64
  unique_id :: u64
  pt_regs :: "u64 list option"
  regs_size :: u32
  flags :: u64
  ustack_fp :: "u64 list"
  ustack_fp_level :: u64
  stack_data :: bytes

datatype gu_unwind_flag = GU_FLAG_HINT_SET_FP | GU_FLAG_FP_ALLOW_UNKNOWN

fun flag_code :: "gu_unwind_flag \<Rightarrow> u32" where
  "flag_code GU_FLAG_HINT_SET_FP = 1"
| "flag_code GU_FLAG_FP_ALLOW_UNKNOWN = 2"

definition gu_flags_set :: "gu_stack_info \<Rightarrow> gu_unwind_flag \<Rightarrow> gu_stack_info" where
  "gu_flags_set info f = info\<lparr>flags := flags info OR ucast (flag_code f)\<rparr>"

definition gu_flags_clear :: "gu_stack_info \<Rightarrow> gu_unwind_flag \<Rightarrow> gu_stack_info" where
  "gu_flags_clear info f = info\<lparr>flags := flags info AND ucast (NOT (flag_code f))\<rparr>"

definition gu_flags_is_set :: "gu_stack_info \<Rightarrow> gu_unwind_flag \<Rightarrow> bool" where
  "gu_flags_is_set info f \<longleftrightarrow> flags info AND ucast (flag_code f) \<noteq> 0"

datatype gu_unwind_reason =
    GU_UNWIND_REASON_OK | GU_UNWIND_REASON_NO_REGS | GU_UNWIND_REASON_NO_ELF | GU_UNWIND_REASON_NO_CFI
  | GU_UNWIND_REASON_CFI_FAIL | GU_UNWIND_REASON_ARCH_FAIL | GU_UNWIND_REASON_PROCESS_EXIT
  | GU_UNWIND_REASON_LANG_SKIP | GU_UNWIND_REASON_TRUNCATED | GU_UNWIND_REASON_NO_EXEC_PC
  | GU_UNWIND_REASON_CFI_FRAME_DECODE_FAILED | GU_UNWIND_REASON_CFI_FRAME_CFA_FAILED
  | GU_UNWIND_REASON_CFI_FRAME_CFA_CALC_FAILED | GU_UNWIND_REASON_END_OF_STACK
  | GU_UNWIND_REASON_STACK_READ_OUT_OF_RANGE | GU_UNWIND_REASON_NO_PROGRESS | GU_UNWIND_REASON_UNKNOWN

fun reason_code :: "gu_unwind_reason \<Rightarrow> u64" where
  "reason_code GU_UNWIND_REASON_OK = 0"
| "reason_code GU_UNWIND_REASON_NO_REGS = 1"
| "reason_code GU_UNWIND_REASON_NO_ELF = 2"
| "reason_code GU_UNWIND_REASON_NO_CFI = 3"
| "reason_code GU_UNWIND_REASON_CFI_FAIL = 4"
| "reason_code GU_UNWIND_REASON_ARCH_FAIL = 5"
| "reason_code GU_UNWIND_REASON_PROCESS_EXIT = 6"
| "reason_code GU_UNWIND_REASON_LANG_SKIP = 7"
| "reason_code GU_UNWIND_REASON_TRUNCATED = 8"
| "reason_code GU_UNWIND_REASON_NO_EXEC_PC = 9"
| "reason_code GU_UNWIND_REASON_CFI_FRAME_DECODE_FAILED = 10"
| "reason_code GU_UNWIND_REASON_CFI_FRAME_CFA_FAILED = 11"
| "reason_code GU_UNWIND_REASON_CFI_FRAME_CFA_CALC_FAILED = 12"
| "reason_code GU_UNWIND_REASON_END_OF_STACK = 13"
| "reason_code GU_UNWIND_REASON_STACK_READ_OUT_OF_RANGE = 14"
| "reason_code GU_UNWIND_REASON_NO_PROGRESS = 15"
| "reason_code GU_UNWIND_REASON_UNKNOWN = 0xff"

definition GU_FLAG_REASON_MASK :: u64 where
  "GU_FLAG_REASON_MASK = 0xff0000"

definition gu_flags_reason :: "u64 \<Rightarrow> u64" where
  "gu_flags_reason fl = drop_bit 16 (fl AND GU_FLAG_REASON_MASK)"

definition gu_flags_set_reason :: "gu_stack_info \<Rightarrow> gu_unwind_reason \<Rightarrow> gu_stack_info" where
  "gu_flags_set_reason info r =
     info\<lparr>flags := (flags info AND NOT GU_FLAG_REASON_MASK) OR push_bit 16 (reason_code r)\<rparr>"

subsection \<open>Flags and reason do not interfere\<close>

lemma mask_bits: "bit GU_FLAG_REASON_MASK n \<longleftrightarrow> 16 \<le> n \<and> n < 24"
proof -
  have m: "GU_FLAG_REASON_MASK = push_bit 16 (mask 8)" by (simp add: GU_FLAG_REASON_MASK_def mask_eq_exp_minus_1)
  have "bit (push_bit 16 (mask 8) :: u64) n \<longleftrightarrow> 16 \<le> n \<and> n < 64 \<and> n - 16 < 8"
    by (auto simp only: bit_push_bit_iff bit_mask_iff possible_bit_word word_size) auto
  then show ?thesis unfolding m by auto
qed

lemma reason_code_byte: "reason_code r = take_bit 8 (reason_code r)"
  by (cases r) (simp_all add: take_bit_eq_mask mask_eq_exp_minus_1)

lemma reason_code_bits: "bit (reason_code r) n \<Longrightarrow> n < 8"
  by (subst (asm) reason_code_byte) (simp add: bit_take_bit_iff)

lemma reason_code_inj: "reason_code r = reason_code r' \<Longrightarrow> r = r'"
  by (cases r; cases r') simp_all

lemma flag_code_bits: "bit (ucast (flag_code f) :: u64) n \<Longrightarrow> n < 2"
proof -
  assume b: "bit (ucast (flag_code f) :: u64) n"
  have "(ucast (flag_code f) :: u64) = take_bit 2 (ucast (flag_code f))"
    by (cases f) (simp_all add: take_bit_eq_mask mask_eq_exp_minus_1)
  then show "n < 2" using b by (metis bit_take_bit_iff)
qed

text \<open>
  Recording why an unwind stopped is lossless: the reason read back is the reason set, for
  every reason, whatever was recorded before, and no flag bit outside the reason byte changes.
\<close>

lemma reason_roundtrip:
  "gu_flags_reason (flags (gu_flags_set_reason info r)) = reason_code r \<and>
   (\<forall>f. gu_flags_is_set (gu_flags_set_reason info r) f = gu_flags_is_set info f) \<and>
   gu_flags_set_reason (gu_flags_set_reason info r') r = gu_flags_set_reason info r"
proof (intro conjI allI)
  show "gu_flags_reason (flags (gu_flags_set_reason info r)) = reason_code r"
    unfolding gu_flags_reason_def gu_flags_set_reason_def
    by (rule bit_word_eqI) (auto simp: bit_simps mask_bits dest: reason_code_bits)
  show "gu_flags_is_set (gu_flags_set_reason info r) f = gu_flags_is_set info f" for f
  proof -
    have "flags (gu_flags_set_reason info r) AND ucast (flag_code f) = flags info AND ucast (flag_code f)"
      unfolding gu_flags_set_reason_def
      by (rule bit_word_eqI) (auto simp: bit_and_iff bit_or_iff bit_not_iff bit_push_bit_iff mask_bits
          dest: flag_code_bits)
    then show ?thesis by (simp add: gu_flags_is_set_def)
  qed
  show "gu_flags_set_reason (gu_flags_set_reason info r') r = gu_flags_set_reason info r"
    unfolding gu_flags_set_reason_def
    by (simp, rule gu_stack_info.equality)
       (auto intro!: bit_word_eqI simp: bit_simps mask_bits dest!: reason_code_bits)
qed

text \<open>
  C27. Clearing a flag clears it and leaves every other bit of the low half alone; the upper half
  of the flag word, however, is zeroed along with it.
\<close>

theorem flags_clear_bits:
  "bit (flags (gu_flags_clear info f)) n \<longleftrightarrow> bit (flags info) n \<and> n < 32 \<and> \<not> bit (flag_code f) n"
  by (auto simp: gu_flags_clear_def bit_simps)

end
