(* ===== verification/Dwarf_Eval.thy ===== *)
theory Dwarf_Eval
  imports Cfi_Ops Stack_Info "HOL-Library.Signed_Division"
begin

text \<open>
  The DWARF expression evaluator and register recovery, \<open>src/gu_unwinder.c\<close>: the register
  snapshot, bounds-checked reads of the copied stack, \<open>gu_dwarf_ops_eval\<close> with its fast path,
  and \<open>gen_reg\<close>.

  \<^item> The evaluation stack is a list with its top first.
  \<^item> The thread-local record of the last refused stack read is threaded through as
    \<open>read_fault option\<close>.
  \<^item> \<open>DW_OP_call_frame_cfa\<close> evaluates the CFA operations by a recursive call. The first argument
    of \<open>gu_dwarf_ops_eval\<close> is the recursion depth the C stack allows; running out of it is
    \<open>Undef StackExhausted\<close>.
  \<^item> \<open>getpagesize()\<close> is the field \<open>ev_page\<close>.
  \<^item> \<open>bsearch\<close> is the binary search of the C library: the first probe that compares equal wins.
\<close>

unbundle bit_operations_syntax

abbreviation (input) DW_EVAL_STACK_SIZE :: nat where "DW_EVAL_STACK_SIZE \<equiv> 256"
abbreviation (input) DW_EVAL_STEPS_MAX :: nat where "DW_EVAL_STEPS_MAX \<equiv> 4096"

subsection \<open>Outcomes that carry the read fault\<close>

record read_fault =
  rf_addr :: u64
  rf_start :: u64
  rf_end :: u64
  rf_raw_sp :: u64

type_synonym 'a ev = "read_fault option \<Rightarrow> 'a cres \<times> read_fault option"

definition ereturn :: "'a cres \<Rightarrow> 'a ev" where
  "ereturn m = (\<lambda>f. (m, f))"

definition ebind :: "'a ev \<Rightarrow> ('a \<Rightarrow> 'b ev) \<Rightarrow> 'b ev" where
  "ebind m k = (\<lambda>f. case m f of (Ok x, f') \<Rightarrow> k x f' | (Fail, f') \<Rightarrow> (Fail, f') | (Undef u, f') \<Rightarrow> (Undef u, f'))"

definition gu_last_stack_read_out_of_range :: "read_fault option \<Rightarrow> (u64 \<times> u64 \<times> u64 \<times> u64) option" where
  "gu_last_stack_read_out_of_range f =
     (case f of None \<Rightarrow> None | Some r \<Rightarrow> Some (rf_addr r, rf_start r, rf_end r, rf_raw_sp r))"

subsection \<open>Registers and stack memory\<close>

definition dw_push :: "u64 list \<Rightarrow> u64 \<Rightarrow> u64 list cres" where
  "dw_push stack val = (if DW_EVAL_STACK_SIZE \<le> length stack then Fail else Ok (val # stack))"

definition dw_pop :: "u64 list \<Rightarrow> (u64 \<times> u64 list) cres" where
  "dw_pop stack = (case stack of [] \<Rightarrow> Fail | v # stack' \<Rightarrow> Ok (v, stack'))"

text \<open>
  The table \<open>regs[]\<close>: the word index in \<open>struct pt_regs\<close> of each DWARF register number (x86-64:
  rax, rdx, rcx, rbx, rsi, rdi, rbp, rsp, r8 to r15, rip; arm64: x0 to x29, lr, sp, pc).
\<close>

fun regs_table :: "arch \<Rightarrow> nat list" where
  "regs_table X86_64 = [10, 12, 11, 5, 13, 14, 4, 19, 9, 8, 7, 6, 3, 2, 1, 0, 16]"
| "regs_table ARM64 = [0..<33]"

definition get_regs :: "arch \<Rightarrow> gu_stack_info \<Rightarrow> int \<Rightarrow> u64 cres" where
  "get_regs a info regno =
     (case pt_regs info of
        None \<Rightarrow> Fail
      | Some reg \<Rightarrow>
          if regno < 0 then Fail
          else if int (length (regs_table a)) \<le> regno then Fail
          else let off = regs_table a ! nat regno in
            if off < length reg then Ok (reg ! off) else Undef OutOfBounds)"

definition write_regs :: "arch \<Rightarrow> gu_stack_info \<Rightarrow> int \<Rightarrow> u64 \<Rightarrow> gu_stack_info cres" where
  "write_regs a info regno val =
     (case pt_regs info of
        None \<Rightarrow> Fail
      | Some reg \<Rightarrow>
          if regno < 0 then Fail
          else if int (length (regs_table a)) \<le> regno then Fail
          else let off = regs_table a ! nat regno in
            if off < length reg then Ok (info\<lparr>pt_regs := Some (reg[off := val])\<rparr>) else Undef OutOfBounds)"

definition read_addr :: "bytes \<Rightarrow> u64 \<Rightarrow> u64 \<Rightarrow> u64 \<Rightarrow> u64 \<Rightarrow> u64 ev" where
  "read_addr stack stack_start stack_end raw_sp addr =
     (\<lambda>f. if addr < stack_start \<or> stack_end \<le> addr \<or> addr + 8 < addr \<or> stack_end - addr < 8
          then (Fail, Some \<lparr>rf_addr = addr, rf_start = stack_start, rf_end = stack_end, rf_raw_sp = raw_sp\<rparr>)
          else let i = unat (addr - stack_start) in
            if i + 8 \<le> length stack then (Ok (le_word (take 8 (drop i stack))), f)
            else (Undef OutOfBounds, f))"

record eval_env =
  ev_arch :: arch
  ev_bias :: u64
  ev_raw_sp :: u64
  ev_info :: gu_stack_info
  ev_page :: u64
  ev_scratch :: ops_scratch

definition read_addr_from_info :: "eval_env \<Rightarrow> u64 \<Rightarrow> u64 ev" where
  "read_addr_from_info e addr =
     (let stack_start = ev_raw_sp e - (ev_raw_sp e mod ev_page e);
          stack_end = stack_start + stack_size (ev_info e) in
      read_addr (stack_data (ev_info e)) stack_start stack_end (ev_raw_sp e) addr)"

subsection \<open>One operation\<close>

text \<open>Pushes: lit0-lit31, addr, the constants, reg0-reg31, regx, breg0-breg31, bregx.\<close>

definition op_pushes :: "u8 \<Rightarrow> bool" where
  "op_pushes x \<longleftrightarrow> between 0x30 x 0x4f \<or> x = 0x03 \<or> between 0x08 x 0x11 \<or> between 0x50 x 0x6f \<or> x = 0x90 \<or>
     between 0x70 x 0x8f \<or> x = 0x92"

definition eval_push :: "eval_env \<Rightarrow> dwarf_op \<Rightarrow> u64 list \<Rightarrow> u64 list cres" where
  "eval_push e op stack =
     (let x = atom op; reg = get_regs (ev_arch e) (ev_info e) in
      if between 0x30 x 0x4f then dw_push stack (ucast (x - 0x30))
      else if x = 0x03 then dw_push stack (number op + ev_bias e)
      else if between 0x08 x 0x11 then dw_push stack (number op)
      else if between 0x50 x 0x6f then cbind (reg (uint (x - 0x50))) (dw_push stack)
      else if x = 0x90 then cbind (reg (to_int (number op))) (dw_push stack)
      else if between 0x70 x 0x8f then
        cbind (reg (uint (x - 0x70))) (\<lambda>v. dw_push stack (v + number op))
      else cbind (reg (to_int (number op))) (\<lambda>v. dw_push stack (v + number2 op)))"

text \<open>Stack shuffling: dup, drop, pick, over, swap, rot.\<close>

definition op_shuffles :: "u8 \<Rightarrow> bool" where
  "op_shuffles x \<longleftrightarrow> x \<in> set [0x12, 0x13, 0x15, 0x14, 0x16, 0x17]"

definition eval_shuffle :: "dwarf_op \<Rightarrow> u64 list \<Rightarrow> u64 list cres" where
  "eval_shuffle op stack =
     (let x = atom op in
      if x = 0x12 then
        cbind (dw_pop stack) (\<lambda>(val1, s1). cbind (dw_push s1 val1) (\<lambda>s2. dw_push s2 val1))
      else if x = 0x13 then cbind (dw_pop stack) (\<lambda>(val1, s1). Ok s1)
      else if x = 0x15 then
        (if of_nat (length stack) \<le> number op then Fail
         else dw_push stack (stack ! unat (number op)))
      else if x = 0x14 then
        cbind (dw_pop stack) (\<lambda>(val1, s1). cbind (dw_pop s1) (\<lambda>(val2, s2).
        cbind (dw_push s2 val2) (\<lambda>s3. cbind (dw_push s3 val1) (\<lambda>s4. dw_push s4 val2))))
      else if x = 0x16 then
        cbind (dw_pop stack) (\<lambda>(val1, s1). cbind (dw_pop s1) (\<lambda>(val2, s2).
        cbind (dw_push s2 val1) (\<lambda>s3. dw_push s3 val2)))
      else
        cbind (dw_pop stack) (\<lambda>(val1, s1). cbind (dw_pop s1) (\<lambda>(val2, s2). cbind (dw_pop s2) (\<lambda>(val3, s3).
        cbind (dw_push s3 val1) (\<lambda>s4. cbind (dw_push s4 val3) (\<lambda>s5. dw_push s5 val2))))))"

definition eval_deref :: "eval_env \<Rightarrow> dwarf_op \<Rightarrow> u64 list \<Rightarrow> u64 list ev" where
  "eval_deref e op stack =
     (if atom op = 0x94 \<and> 8 < number op then ereturn Fail
      else
        ebind (ereturn (dw_pop stack)) (\<lambda>(addr, s1).
        ebind (read_addr_from_info e addr) (\<lambda>v.
          let v' = (if atom op = 0x94 \<and> number op < 8
                    then v AND (push_bit (unat (number op * 8)) 1 - 1) else v) in
          ereturn (dw_push s1 v'))))"

text \<open>abs, neg, not and plus_uconst; \<open>llabs\<close> and negation of \<open>INT64_MIN\<close> overflow.\<close>

definition INT64_MIN_word :: u64 where "INT64_MIN_word = 0x8000000000000000"

definition eval_unary :: "dwarf_op \<Rightarrow> u64 list \<Rightarrow> u64 list cres" where
  "eval_unary op stack =
     (let x = atom op in
      cbind (dw_pop stack) (\<lambda>(val1, s1).
        if x = 0x19 then
          (if val1 = INT64_MIN_word then Undef SignedOverflow else dw_push s1 (word_of_int \<bar>sint val1\<bar>))
        else if x = 0x1f then
          (if val1 = INT64_MIN_word then Undef SignedOverflow else dw_push s1 (word_of_int (- sint val1)))
        else if x = 0x20 then dw_push s1 (NOT val1)
        else dw_push s1 (val1 + number op)))"

text \<open>
  Binary operations on the two topmost values, \<open>val1\<close> below \<open>val2\<close>: and, div, mod, minus, xor, shr,
  shl, plus, or, mul, shra and the signed comparisons le, ge, eq, lt, gt, ne.
\<close>

definition op_binary :: "u8 \<Rightarrow> bool" where
  "op_binary x \<longleftrightarrow> x \<in> set [0x1a, 0x1b, 0x1d, 0x1c, 0x27, 0x25, 0x24, 0x22, 0x21, 0x1e, 0x26,
                            0x2c, 0x2a, 0x29, 0x2d, 0x2b, 0x2e]"

definition truth :: "bool \<Rightarrow> u64" where
  "truth b = (if b then 1 else 0)"

definition binary_arith :: "u8 \<Rightarrow> u64 \<Rightarrow> u64 \<Rightarrow> u64 cres" where
  "binary_arith x val1 val2 =
     (if x = 0x1a then Ok (val1 AND val2)
      else if x = 0x1b then
        (if val2 = 0 then Fail
         else if val1 = INT64_MIN_word \<and> val2 = UINT64_MAX then Fail
         else Ok (word_of_int (sint val1 sdiv sint val2)))
      else if x = 0x1d then (if val2 = 0 then Fail else Ok (val1 mod val2))
      else if x = 0x1c then Ok (val1 - val2)
      else if x = 0x27 then Ok (val1 XOR val2)
      else if x = 0x25 then (if 64 \<le> val2 then Fail else Ok (drop_bit (unat val2) val1))
      else if x = 0x24 then (if 64 \<le> val2 then Fail else Ok (push_bit (unat val2) val1))
      else if x = 0x22 then Ok (val1 + val2)
      else if x = 0x21 then Ok (val1 OR val2)
      else if x = 0x1e then Ok (val1 * val2)
      else (if 64 \<le> val2 then Fail else Ok (signed_drop_bit (unat val2) val1)))"

definition binary_compare :: "u8 \<Rightarrow> u64 \<Rightarrow> u64 \<Rightarrow> u64" where
  "binary_compare x val1 val2 =
     (if x = 0x2c then truth (sint val1 \<le> sint val2)
      else if x = 0x2a then truth (sint val1 \<ge> sint val2)
      else if x = 0x29 then truth (sint val1 = sint val2)
      else if x = 0x2d then truth (sint val1 < sint val2)
      else if x = 0x2b then truth (sint val1 > sint val2)
      else truth (sint val1 \<noteq> sint val2))"

definition eval_binary :: "dwarf_op \<Rightarrow> u64 list \<Rightarrow> u64 list cres" where
  "eval_binary op stack =
     cbind (dw_pop stack) (\<lambda>(val2, s1).
     cbind (dw_pop s1) (\<lambda>(val1, s2).
       if between 0x29 (atom op) 0x2e then dw_push s2 (binary_compare (atom op) val1 val2)
       else cbind (binary_arith (atom op) val1 val2) (dw_push s2)))"

subsection \<open>Branches\<close>

definition compare_op :: "u64 \<Rightarrow> dwarf_op \<Rightarrow> int" where
  "compare_op off op = of_bool (off > op_offset op) - of_bool (off < op_offset op)"

function bsearch_ops :: "u64 \<Rightarrow> dwarf_op list \<Rightarrow> nat \<Rightarrow> nat \<Rightarrow> nat option" where
  "bsearch_ops off ops l u =
     (if \<not> l < u then None
      else let i = (l + u) div 2; c = compare_op off (ops ! i) in
        if c < 0 then bsearch_ops off ops l i
        else if c > 0 then bsearch_ops off ops (Suc i) u
        else Some i)"
  by pat_completeness auto
termination
  by (relation "measure (\<lambda>(off, ops, l, u). u - l)") auto

declare bsearch_ops.simps [simp del]

definition eval_skip :: "dwarf_op list \<Rightarrow> dwarf_op \<Rightarrow> nat cres" where
  "eval_skip ops op =
     (case bsearch_ops (op_offset op + 1 + 2 + sext16 (number op)) ops 0 (length ops) of
        None \<Rightarrow> Fail | Some i \<Rightarrow> Ok i)"

text \<open>\<open>bra\<close> falls through to \<open>skip\<close> when the popped value is not zero.\<close>

definition eval_branch :: "dwarf_op list \<Rightarrow> dwarf_op \<Rightarrow> nat \<Rightarrow> u64 list \<Rightarrow> (u64 list \<times> nat) cres" where
  "eval_branch ops op i stack =
     (if atom op = 0x28 then
        cbind (dw_pop stack) (\<lambda>(val1, s1).
          if val1 = 0 then Ok (s1, Suc i)
          else cbind (eval_skip ops op) (\<lambda>j. Ok (s1, j)))
      else cbind (eval_skip ops op) (\<lambda>j. Ok (stack, j)))"

subsection \<open>The evaluator\<close>

text \<open>A machine state: the stack, the index of the next operation, and \<open>is_location\<close>.\<close>

type_synonym eval_state = "u64 list \<times> nat \<times> bool"

definition eval_op :: "eval_env \<Rightarrow> u64 ev \<Rightarrow> dwarf_op list \<Rightarrow> eval_state \<Rightarrow> eval_state ev" where
  "eval_op e call_cfa ops st =
     (case st of (stack, i, is_location) \<Rightarrow>
      let op = ops ! i; x = atom op; next = (\<lambda>m. ereturn (cbind m (\<lambda>s. Ok (s, Suc i, is_location)))) in
      if op_pushes x then next (eval_push e op stack)
      else if op_shuffles x then next (eval_shuffle op stack)
      else if x = 0x06 \<or> x = 0x94 then
        ebind (eval_deref e op stack) (\<lambda>s. ereturn (Ok (s, Suc i, is_location)))
      else if x \<in> set [0x19, 0x1f, 0x20, 0x23] then next (eval_unary op stack)
      else if op_binary x then next (eval_binary op stack)
      else if x = 0x28 \<or> x = 0x2f then
        ereturn (cbind (eval_branch ops op i stack) (\<lambda>(s, j). Ok (s, j, is_location)))
      else if x = 0x96 then next (Ok stack)
      else if x = DW_OP_call_frame_cfa then
        ebind call_cfa (\<lambda>cfa. ereturn (cbind (dw_push stack cfa) (\<lambda>s. Ok (s, Suc i, True))))
      else if x = DW_OP_stack_value then ereturn (Ok (stack, Suc i, False))
      else ereturn Fail)"

fun eval_loop :: "nat \<Rightarrow> eval_env \<Rightarrow> u64 ev \<Rightarrow> dwarf_op list \<Rightarrow> eval_state \<Rightarrow> (u64 list \<times> bool) ev" where
  "eval_loop 0 e call_cfa ops (stack, i, is_location) =
     (if i < length ops then ereturn Fail else ereturn (Ok (stack, is_location)))"
| "eval_loop (Suc n) e call_cfa ops (stack, i, is_location) =
     (if i < length ops
      then ebind (eval_op e call_cfa ops (stack, i, is_location)) (eval_loop n e call_cfa ops)
      else ereturn (Ok (stack, is_location)))"

definition eval_body :: "eval_env \<Rightarrow> u64 ev \<Rightarrow> dwarf_op list \<Rightarrow> u64 ev" where
  "eval_body e call_cfa ops =
     (if ops = [] then ereturn Fail
      else
        ebind (eval_loop DW_EVAL_STEPS_MAX e call_cfa ops ([], 0, False)) (\<lambda>(stack, is_location).
        ebind (ereturn (dw_pop stack)) (\<lambda>(result, _).
          if is_location then read_addr_from_info e result else ereturn (Ok result))))"

fun gu_dwarf_ops_eval :: "nat \<Rightarrow> eval_env \<Rightarrow> dwarf_op list \<Rightarrow> u64 ev" where
  "gu_dwarf_ops_eval 0 e ops = ereturn (Undef StackExhausted)"
| "gu_dwarf_ops_eval (Suc depth) e ops =
     eval_body e
       (ebind (ereturn (gu_cfi_get_ops (ev_scratch e) REG_TYPE_RIP True)) (gu_dwarf_ops_eval depth e)) ops"

subsection \<open>The fast path\<close>

definition fast_eval_reg_or_breg :: "eval_env \<Rightarrow> dwarf_op \<Rightarrow> u64 cres" where
  "fast_eval_reg_or_breg e op =
     (let x = atom op; reg = get_regs (ev_arch e) (ev_info e) in
      if between 0x50 x 0x6f then reg (uint (x - 0x50))
      else if x = 0x90 then reg (to_int (number op))
      else if between 0x70 x 0x8f then cbind (reg (uint (x - 0x70))) (\<lambda>base. Ok (base + number op))
      else if x = 0x92 then cbind (reg (to_int (number op))) (\<lambda>base. Ok (base + number2 op))
      else Fail)"

definition fast_eval_cfa :: "nat \<Rightarrow> eval_env \<Rightarrow> u64 ev" where
  "fast_eval_cfa depth e =
     (case gu_cfi_get_ops (ev_scratch e) REG_TYPE_RIP True of
        Undef k \<Rightarrow> ereturn (Undef k)
      | Fail \<Rightarrow> ereturn Fail
      | Ok ops \<Rightarrow>
          if ops = [] then ereturn Fail
          else if length ops = 1 then
            (case fast_eval_reg_or_breg e (hd ops) of
               Ok cfa \<Rightarrow> ereturn (Ok cfa)
             | Undef k \<Rightarrow> ereturn (Undef k)
             | Fail \<Rightarrow> gu_dwarf_ops_eval depth e ops)
          else gu_dwarf_ops_eval depth e ops)"

definition fast_dwarf_ops_eval :: "nat \<Rightarrow> eval_env \<Rightarrow> dwarf_op list \<Rightarrow> u64 ev" where
  "fast_dwarf_ops_eval depth e ops =
     (if length ops = 1 then ereturn (fast_eval_reg_or_breg e (ops ! 0))
      else if length ops < 2 \<or> atom (ops ! 0) \<noteq> DW_OP_call_frame_cfa then ereturn Fail
      else
        ebind (fast_eval_cfa depth e) (\<lambda>cfa.
          if length ops = 2 then
            (if atom (ops ! 1) = DW_OP_stack_value then ereturn (Ok cfa)
             else if atom (ops ! 1) = DW_OP_plus_uconst then
               read_addr_from_info e (cfa + number (ops ! 1))
             else ereturn Fail)
          else if length ops = 3 \<and> atom (ops ! 1) = DW_OP_plus_uconst \<and>
                  atom (ops ! 2) = DW_OP_stack_value then ereturn (Ok (cfa + number (ops ! 1)))
          else ereturn Fail))"

subsection \<open>Recovering a register\<close>

text \<open>\<open>a || b\<close> on evaluations: the second runs, on the fault state left, when the first fails.\<close>

definition eor :: "'a ev \<Rightarrow> 'a ev \<Rightarrow> 'a ev" where
  "eor m k = (\<lambda>f. case m f of (Fail, f') \<Rightarrow> k f' | r \<Rightarrow> r)"

definition gen_reg ::
  "nat \<Rightarrow> eval_env \<Rightarrow> int \<Rightarrow> read_fault option \<Rightarrow> (gu_unwind_reason \<times> u64 option) cres \<times> read_fault option" where
  "gen_reg depth e regno f =
     (case gu_cfi_get_ops (ev_scratch e) (trans_reg_type (ev_arch e) regno) False of
        Undef k \<Rightarrow> (Undef k, f)
      | Fail \<Rightarrow> (Ok (GU_UNWIND_REASON_CFI_FRAME_CFA_FAILED, None), f)
      | Ok ops \<Rightarrow>
          (case eor (fast_dwarf_ops_eval depth e ops) (gu_dwarf_ops_eval depth e ops) None of
             (Ok v, f') \<Rightarrow> (Ok (GU_UNWIND_REASON_OK, Some v), f')
           | (Fail, f') \<Rightarrow>
               (Ok (if f' \<noteq> None then GU_UNWIND_REASON_STACK_READ_OUT_OF_RANGE
                    else GU_UNWIND_REASON_CFI_FRAME_CFA_CALC_FAILED, None), f')
           | (Undef k, f') \<Rightarrow> (Undef k, f')))"

subsection \<open>The register snapshot\<close>

lemma regs_table_distinct: "distinct (regs_table a)"
  by (cases a) simp_all

text \<open>
  Reading a register after writing one: the written register reads back, every other register
  is unchanged, and the two operations accept exactly the same register numbers.
\<close>

lemma write_get_regs:
  assumes "write_regs a info r v = Ok info'"
  shows "get_regs a info' r = Ok v \<and> (\<forall>r'. r' \<noteq> r \<longrightarrow> get_regs a info' r' = get_regs a info r')"
proof -
  obtain reg where reg: "pt_regs info = Some reg" "0 \<le> r" "r < int (length (regs_table a))"
      "regs_table a ! nat r < length reg" "info' = info\<lparr>pt_regs := Some (reg[regs_table a ! nat r := v])\<rparr>"
    using assms by (auto simp: write_regs_def Let_def split: option.split_asm if_split_asm)
  have "regs_table a ! nat r \<noteq> regs_table a ! nat r'"
    if "0 \<le> r'" "r' < int (length (regs_table a))" "r' \<noteq> r" for r'
  proof -
    have "nat r < length (regs_table a)" "nat r' < length (regs_table a)" "nat r \<noteq> nat r'"
      using that reg(2,3) by linarith+
    then show ?thesis by (simp add: nth_eq_iff_index_eq [OF regs_table_distinct])
  qed
  then show ?thesis using reg by (auto simp: get_regs_def Let_def not_le not_less)
qed

definition sample_info :: gu_stack_info where
  "sample_info = \<lparr>pid = 1, stack_size = 0x1000, unique_id = 0, pt_regs = Some (replicate 21 0), regs_size = 168,
     flags = 0, ustack_fp = replicate 128 0, ustack_fp_level = 0, stack_data = replicate 0x1000 0\<rparr>"

subsection \<open>Stack reads\<close>

lemma read_addr_ok_iff:
  "fst (read_addr stack lo hi sp addr f) \<noteq> Fail \<longleftrightarrow> unat lo \<le> unat addr \<and> unat addr + 8 \<le> unat hi"
proof -
  have lt: "unat addr < 2 ^ 64" "unat hi < 2 ^ 64" using unat_u64 by simp_all
  have a: "unat (addr + 8) = (unat addr + 8) mod 2 ^ 64" by (simp add: unat_word_ariths)
  have s: "unat (hi - addr) = unat hi - unat addr" if "addr \<le> hi" using that by (simp add: unat_sub)
  have w: "(unat addr + 8) mod 2 ^ 64 < unat addr \<longleftrightarrow> 2 ^ 64 \<le> unat addr + 8"
    using lt(1) by (auto simp: mod_if)
  show ?thesis
    using a s w lt
    by (auto simp: read_addr_def Let_def word_less_nat_alt word_le_nat_alt not_less not_le)
qed

text \<open>The stack window of a sample, as numbers: it must not wrap around the address space.\<close>

definition window_start :: "eval_env \<Rightarrow> u64" where
  "window_start e = ev_raw_sp e - (ev_raw_sp e mod ev_page e)"

text \<open>The words of \<open>struct pt_regs\<close>.\<close>

fun pt_regs_words :: "arch \<Rightarrow> nat" where
  "pt_regs_words X86_64 = 21"
| "pt_regs_words ARM64 = 34"

lemma regs_table_bound: "i < length (regs_table a) \<Longrightarrow> regs_table a ! i < pt_regs_words a"
proof -
  have "\<forall>x\<in>set (regs_table a). x < pt_regs_words a" by (cases a) auto
  then show "i < length (regs_table a) \<Longrightarrow> regs_table a ! i < pt_regs_words a" by simp
qed

text \<open>A sample as the collector delivers it: both buffers have the sizes they are declared with.\<close>

definition sample_ok :: "eval_env \<Rightarrow> bool" where
  "sample_ok e \<longleftrightarrow> length (stack_data (ev_info e)) = unat (stack_size (ev_info e)) \<and>
     (\<forall>reg. pt_regs (ev_info e) = Some reg \<longrightarrow> length reg = pt_regs_words (ev_arch e))"

lemma get_regs_kind: "sample_ok e \<Longrightarrow> get_regs (ev_arch e) (ev_info e) r \<noteq> Undef k"
  using regs_table_bound [of "nat r" "ev_arch e"]
  by (auto simp: get_regs_def Let_def sample_ok_def split: option.split)

lemma read_addr_kind:
  assumes "sample_ok e"
  shows "fst (read_addr_from_info e addr f) \<noteq> Undef k"
proof -
  let ?lo = "ev_raw_sp e - ev_raw_sp e mod ev_page e"
  let ?hi = "?lo + stack_size (ev_info e)"
  have "unat (addr - ?lo) + 8 \<le> unat (stack_size (ev_info e))"
    if "unat ?lo \<le> unat addr" "unat addr + 8 \<le> unat ?hi"
  proof -
    have "unat (addr - ?lo) = unat addr - unat ?lo" using that(1) by (simp add: unat_sub word_le_nat_alt)
    moreover have "unat ?hi \<le> unat ?lo + unat (stack_size (ev_info e))"
      by (metis unat_plus_if_size le_add_diff_inverse2 less_or_eq_imp_le nat_le_linear diff_le_self)
    ultimately show ?thesis using that by linarith
  qed
  moreover have "fst (read_addr_from_info e addr f) \<noteq> Fail \<longleftrightarrow> unat ?lo \<le> unat addr \<and> unat addr + 8 \<le> unat ?hi"
    unfolding read_addr_from_info_def Let_def by (rule read_addr_ok_iff)
  ultimately show ?thesis
    using assms by (auto simp: read_addr_from_info_def Let_def read_addr_def sample_ok_def split: if_split_asm)
qed

subsection \<open>Reasoning about evaluations\<close>

lemma ereturn_apply [simp]: "ereturn m f = (m, f)"
  by (simp add: ereturn_def)

lemma ebind_apply:
  "ebind m k f = (case m f of (Ok x, f') \<Rightarrow> k x f' | (Fail, f') \<Rightarrow> (Fail, f') | (Undef u, f') \<Rightarrow> (Undef u, f'))"
  by (simp add: ebind_def)

lemma ebind_ereturn [simp]:
  "ebind (ereturn (Ok x)) k = k x" "ebind (ereturn Fail) k = ereturn Fail"
  "ebind (ereturn (Undef u)) k = ereturn (Undef u)"
  by (simp_all add: fun_eq_iff ebind_apply)

lemma ebind_Undef:
  "fst (ebind m k f) = Undef u \<longleftrightarrow>
   fst (m f) = Undef u \<or> (\<exists>x f'. m f = (Ok x, f') \<and> fst (k x f') = Undef u)"
  by (auto simp: ebind_apply split: prod.splits cres.splits)

text \<open>The outcome does not depend on the fault recorded before.\<close>

definition fault_free :: "'a ev \<Rightarrow> bool" where
  "fault_free m \<longleftrightarrow> (\<forall>f f'. fst (m f) = fst (m f'))"

lemma fault_free_ereturn [simp, intro]: "fault_free (ereturn m)"
  by (simp add: fault_free_def)

lemma fault_free_ebind [intro]:
  assumes m: "fault_free m" and k: "\<And>x. fault_free (k x)"
  shows "fault_free (ebind m k)"
  unfolding fault_free_def
proof (intro allI)
  fix f f'
  have "fst (m f) = fst (m f')" using m by (simp add: fault_free_def)
  then show "fst (ebind m k f) = fst (ebind m k f')"
    using k by (cases "m f"; cases "m f'") (auto simp: ebind_apply fault_free_def split: cres.split)
qed

lemma fault_free_if [intro]: "fault_free m \<Longrightarrow> fault_free k \<Longrightarrow> fault_free (if b then m else k)"
  by simp

lemma fault_free_read [intro]: "fault_free (read_addr_from_info e addr)"
  by (simp add: fault_free_def read_addr_from_info_def read_addr_def Let_def)

lemma fault_free_deref [intro]: "fault_free (eval_deref e op stack)"
  unfolding eval_deref_def Let_def by (auto intro!: fault_free_ebind split: prod.split)

lemma fault_free_op: "fault_free c \<Longrightarrow> fault_free (eval_op e c ops st)"
  by (cases st) (auto simp: eval_op_def Let_def intro!: fault_free_ebind split: prod.split)

lemma fault_free_loop: "fault_free c \<Longrightarrow> fault_free (eval_loop n e c ops st)"
  by (induction n arbitrary: st; case_tac st) (auto intro: fault_free_op)

lemma fault_free_body: "fault_free c \<Longrightarrow> fault_free (eval_body e c ops)"
  by (auto simp: eval_body_def intro!: fault_free_ebind fault_free_loop split: prod.split)

lemma fault_free_eval: "fault_free (gu_dwarf_ops_eval d e ops)"
  by (induction d arbitrary: ops) (auto intro!: fault_free_body)

subsection \<open>What can go wrong\<close>

definition undef_in :: "undef_kind set \<Rightarrow> 'a ev \<Rightarrow> bool" where
  "undef_in K m \<longleftrightarrow> (\<forall>f k. fst (m f) = Undef k \<longrightarrow> k \<in> K)"

lemma undef_in_ereturn: "undef_in K (ereturn m) \<longleftrightarrow> (\<forall>k. m = Undef k \<longrightarrow> k \<in> K)"
  by (simp add: undef_in_def)

lemma undef_in_ebind: "undef_in K m \<Longrightarrow> (\<And>x. undef_in K (k x)) \<Longrightarrow> undef_in K (ebind m k)"
  unfolding undef_in_def ebind_Undef by blast

lemma undef_in_read: "sample_ok e \<Longrightarrow> undef_in K (read_addr_from_info e addr)"
  by (simp add: undef_in_def read_addr_kind)

lemma stack_kind [simp]: "dw_push s v \<noteq> Undef k" "dw_pop s \<noteq> Undef k"
  by (simp_all add: dw_push_def dw_pop_def split: list.split)

lemma eval_groups_kind:
  "sample_ok e \<Longrightarrow> eval_push e op stack \<noteq> Undef k"
  "eval_shuffle op stack \<noteq> Undef k"
  "eval_unary op stack = Undef k \<Longrightarrow> k = SignedOverflow"
  "eval_binary op stack \<noteq> Undef k"
  "eval_branch ops op i stack \<noteq> Undef k"
  unfolding eval_push_def eval_shuffle_def eval_unary_def eval_binary_def binary_arith_def
    eval_branch_def eval_skip_def Let_def
  by (auto simp: cbind_eq_Undef get_regs_kind split: if_split_asm option.split_asm)

lemma eval_op_kind:
  assumes "sample_ok e" "undef_in K c" "SignedOverflow \<in> K"
  shows "undef_in K (eval_op e c ops st)"
proof (cases st)
  case (fields stack i loc)
  have d: "undef_in K (eval_deref e op stack)" for op
    unfolding eval_deref_def Let_def
    by (auto intro!: undef_in_ebind undef_in_read [OF assms(1)] simp: undef_in_ereturn)
  show ?thesis
    unfolding fields eval_op_def prod.case Let_def
    using assms(3) eval_groups_kind(1) [OF assms(1)]
    by (auto intro!: undef_in_ebind d assms(2) dest!: eval_groups_kind(3)
        simp: undef_in_ereturn cbind_eq_Undef eval_groups_kind(2,4,5))
qed

lemma eval_loop_kind:
  assumes "sample_ok e" "undef_in K c" "SignedOverflow \<in> K"
  shows "undef_in K (eval_loop n e c ops st)"
proof (induction n arbitrary: st)
  case 0
  show ?case by (cases st) (simp add: undef_in_ereturn)
next
  case (Suc n)
  then show ?case
    by (cases st) (auto intro!: undef_in_ebind eval_op_kind assms simp: undef_in_ereturn)
qed

lemma eval_body_kind:
  assumes "sample_ok e" "undef_in K c" "SignedOverflow \<in> K"
  shows "undef_in K (eval_body e c ops)"
  unfolding eval_body_def
  by (auto intro!: undef_in_ebind undef_in_read eval_loop_kind assms simp: undef_in_ereturn split: prod.split)

lemma eval_kind: "sample_ok e \<Longrightarrow> undef_in {SignedOverflow, StackExhausted} (gu_dwarf_ops_eval d e ops)"
proof (induction d arbitrary: ops)
  case (Suc d)
  then show ?case
    by (auto intro!: eval_body_kind undef_in_ebind simp: undef_in_ereturn gu_cfi_get_ops_def)
qed (simp add: undef_in_ereturn)


lemma eval_loop_numeral:
  "eval_loop (numeral v) e c ops (stack, i, is_location) =
     (if i < length ops
      then ebind (eval_op e c ops (stack, i, is_location)) (eval_loop (pred_numeral v) e c ops)
      else ereturn (Ok (stack, is_location)))"
  by (simp add: numeral_eq_Suc)

subsection \<open>Depth of the CFA recursion\<close>

definition no_cfa :: "dwarf_op list \<Rightarrow> bool" where
  "no_cfa ops \<longleftrightarrow> (\<forall>op\<in>set ops. atom op \<noteq> DW_OP_call_frame_cfa)"

lemma eval_op_no_cfa:
  "no_cfa ops \<Longrightarrow> i < length ops \<Longrightarrow> eval_op e c ops (s, i, l) = eval_op e c' ops (s, i, l)"
  by (simp add: eval_op_def Let_def no_cfa_def)

lemma eval_loop_no_cfa: "no_cfa ops \<Longrightarrow> eval_loop n e c ops st = eval_loop n e c' ops st"
proof (induction n arbitrary: st)
  case 0
  show ?case by (cases st) simp
next
  case (Suc n)
  obtain s i l where st: "st = (s, i, l)" by (cases st)
  have "eval_loop n e c ops = eval_loop n e c' ops" using Suc by (simp add: fun_eq_iff)
  then show ?case
    using eval_op_no_cfa [OF Suc.prems, of i e c s l c'] by (cases "i < length ops") (simp_all only: st eval_loop.simps if_True if_False)
qed

lemma eval_body_no_cfa: "no_cfa ops \<Longrightarrow> eval_body e c ops = eval_body e c' ops"
  using eval_loop_no_cfa [of ops _ e c _ c'] by (simp add: eval_body_def)

lemma eval_depth_no_cfa: "no_cfa ops \<Longrightarrow> gu_dwarf_ops_eval (Suc d) e ops = gu_dwarf_ops_eval 1 e ops"
  using eval_body_no_cfa by (simp only: gu_dwarf_ops_eval.simps One_nat_def)

lemma get_cfa [simp]: "gu_cfi_get_ops s REG_TYPE_RIP True = Ok (cfa_ops s)"
  by (simp add: gu_cfi_get_ops_def)

lemma eval_depth:
  assumes "no_cfa (cfa_ops (ev_scratch e))"
  shows "gu_dwarf_ops_eval (Suc (Suc d)) e ops = gu_dwarf_ops_eval 2 e ops"
  using eval_depth_no_cfa [OF assms, of d e] by (simp add: numeral_2_eq_2)

lemma eval_no_exhaust:
  assumes "sample_ok e" "no_cfa (cfa_ops (ev_scratch e))"
  shows "undef_in {SignedOverflow} (gu_dwarf_ops_eval (Suc (Suc d)) e ops)"
proof -
  have "undef_in {SignedOverflow} (eval_body e c (cfa_ops (ev_scratch e)))" for c
    using eval_body_kind [OF assms(1), of "{SignedOverflow}" "ereturn Fail"]
      eval_body_no_cfa [OF assms(2), of e c "ereturn Fail"] by (simp add: undef_in_ereturn)
  then have "undef_in {SignedOverflow} (gu_dwarf_ops_eval (Suc d) e (cfa_ops (ev_scratch e)))" by simp
  then show ?thesis
    unfolding gu_dwarf_ops_eval.simps(2) [of "Suc d"] get_cfa ebind_ereturn
    by (rule eval_body_kind [OF assms(1)]) simp
qed


text \<open>
  C31. A finding: an expression for the CFA that refers to the CFA is accepted by the decoder and
  then evaluated by itself without end; no recursion depth is enough.
\<close>

theorem cfa_self_reference_exhausts:
  "\<exists>ops. gu_cfi_init_ops_from_block [DW_OP_call_frame_cfa] reg_expression True = Ok ops \<and>
     (\<forall>depth e f. fst (gu_dwarf_ops_eval depth (e\<lparr>ev_scratch := (ev_scratch e)\<lparr>cfa_ops := ops\<rparr>\<rparr>) ops f) =
        Undef StackExhausted)"
proof -
  let ?ops = "[plain_op DW_OP_call_frame_cfa 0 0]"
  have "gu_cfi_init_ops_from_block [DW_OP_call_frame_cfa] reg_expression True = Ok ?ops"
    by (simp add: gu_cfi_init_ops_from_block_def decode_op_def op_plain_def plain_op_def between_def)
  moreover have "gu_dwarf_ops_eval depth e ?ops f = (Undef StackExhausted, f)"
    if "cfa_ops (ev_scratch e) = ?ops" for depth e f
  proof (induction depth)
    case (Suc depth)
    then show ?case
      using that
      by (simp add: eval_body_def eval_loop_numeral eval_op_def plain_op_def op_pushes_def op_shuffles_def
          op_binary_def between_def ebind_apply)
  qed simp
  ultimately show ?thesis by auto
qed

subsection \<open>The fast path is an optimisation\<close>

lemma between_disjoint:
  "between lo x hi \<Longrightarrow> hi < lo' \<Longrightarrow> \<not> between lo' x hi'"
  "between lo x hi \<Longrightarrow> hi' < lo \<Longrightarrow> \<not> between lo' x hi'"
  "between lo x hi \<Longrightarrow> y < lo \<Longrightarrow> x \<noteq> y" "between lo x hi \<Longrightarrow> hi < y \<Longrightarrow> x \<noteq> y"
  by (auto simp: between_def)

lemma dw_push_empty: "dw_push [] = (\<lambda>v. Ok [v])"
  by (simp add: dw_push_def fun_eq_iff)

lemma fast_reg_push:
  assumes "fast_eval_reg_or_breg e op \<noteq> Fail"
  shows "op_pushes (atom op)" "eval_push e op [] = cbind (fast_eval_reg_or_breg e op) (\<lambda>v. Ok [v])"
proof -
  have range: "between 0x50 (atom op) 0x6f \<or> atom op = 0x90 \<or> between 0x70 (atom op) 0x8f \<or> atom op = 0x92"
    using assms by (auto simp: fast_eval_reg_or_breg_def Let_def split: if_split_asm)
  then show "op_pushes (atom op)" by (auto simp: op_pushes_def)
  show "eval_push e op [] = cbind (fast_eval_reg_or_breg e op) (\<lambda>v. Ok [v])"
    using range
  proof (elim disjE)
    assume b: "between 0x50 (atom op) 0x6f"
    show ?thesis
      using between_disjoint(2) [OF b, of "0x4f" "0x30"] between_disjoint(2) [OF b, of "0x11" "0x08"]
        between_disjoint(3) [OF b, of "0x03"] b
      by (simp add: eval_push_def fast_eval_reg_or_breg_def Let_def dw_push_empty)
  next
    assume b: "between 0x70 (atom op) 0x8f"
    show ?thesis
      using between_disjoint(2) [OF b, of "0x4f" "0x30"] between_disjoint(2) [OF b, of "0x11" "0x08"]
        between_disjoint(2) [OF b, of "0x6f" "0x50"] between_disjoint(3) [OF b, of "0x03"]
        between_disjoint(4) [OF b, of "0x90"] b
      by (simp add: eval_push_def fast_eval_reg_or_breg_def Let_def dw_push_empty cbind_assoc)
  qed (simp_all add: eval_push_def fast_eval_reg_or_breg_def Let_def dw_push_empty cbind_assoc between_def)
qed

lemma body_single:
  assumes "fast_eval_reg_or_breg e op \<noteq> Fail"
  shows "eval_body e c [op] = ereturn (fast_eval_reg_or_breg e op)"
  using assms fast_reg_push [OF assms]
  by (cases "fast_eval_reg_or_breg e op")
     (auto simp: fun_eq_iff eval_body_def eval_loop_numeral eval_op_def Let_def dw_pop_def ebind_apply)

lemmas op_shapes = eval_op_def op_pushes_def op_shuffles_def op_binary_def between_def

lemma body_cfa_value:
  assumes "atom a = DW_OP_call_frame_cfa" "atom b = DW_OP_stack_value"
  shows "eval_body e c [a, b] = c"
  using assms
  by (auto simp: fun_eq_iff eval_body_def eval_loop_numeral op_shapes Let_def dw_pop_def dw_push_def ebind_apply
      split: prod.split cres.split)

lemma body_cfa_offset:
  assumes "atom a = DW_OP_call_frame_cfa" "atom b = DW_OP_plus_uconst"
  shows "eval_body e c [a, b] = ebind c (\<lambda>v. read_addr_from_info e (v + number b))"
  using assms
  by (auto simp: fun_eq_iff eval_body_def eval_loop_numeral op_shapes eval_unary_def Let_def dw_pop_def dw_push_def
      ebind_apply split: prod.split cres.split)

lemma body_cfa_val_offset:
  assumes "atom a = DW_OP_call_frame_cfa" "atom b = DW_OP_plus_uconst" "atom d = DW_OP_stack_value"
  shows "eval_body e c [a, b, d] = ebind c (\<lambda>v. ereturn (Ok (v + number b)))"
  using assms
  by (auto simp: fun_eq_iff eval_body_def eval_loop_numeral op_shapes eval_unary_def Let_def dw_pop_def dw_push_def
      ebind_apply split: prod.split cres.split)

lemma body_cfa_not_ok:
  assumes "atom a = DW_OP_call_frame_cfa" "\<And>v f'. c f \<noteq> (Ok v, f')"
  shows "eval_body e c (a # ops) f = (case c f of (Undef k, f') \<Rightarrow> (Undef k, f') | (_, f') \<Rightarrow> (Fail, f'))"
  using assms
  by (auto simp: eval_body_def eval_loop_numeral op_shapes Let_def ebind_apply split: prod.split cres.split)

lemma fast_cfa_eq:
  assumes "no_cfa (cfa_ops (ev_scratch e))"
  shows "fast_eval_cfa (Suc (Suc d)) e = gu_dwarf_ops_eval (Suc d) e (cfa_ops (ev_scratch e))"
proof -
  have depth: "gu_dwarf_ops_eval (Suc (Suc d)) e (cfa_ops (ev_scratch e)) = gu_dwarf_ops_eval (Suc d) e (cfa_ops (ev_scratch e))"
    using eval_depth_no_cfa [OF assms, of "Suc d" e] eval_depth_no_cfa [OF assms, of d e] by simp
  show ?thesis
  proof (cases "\<exists>op. cfa_ops (ev_scratch e) = [op] \<and> fast_eval_reg_or_breg e op \<noteq> Fail")
    case True
    then obtain op where "cfa_ops (ev_scratch e) = [op]" "fast_eval_reg_or_breg e op \<noteq> Fail" by blast
    then show ?thesis
      by (simp add: fast_eval_cfa_def body_single split: cres.split)
  next
    case False
    then show ?thesis
      unfolding fast_eval_cfa_def get_cfa cres.case depth
      by (cases "cfa_ops (ev_scratch e)" rule: list.exhaust)
         (auto simp: eval_body_def length_Suc_conv split: cres.split)
  qed
qed

lemma fast_shapes:
  assumes "fst (fast_dwarf_ops_eval d e ops f) \<noteq> Fail"
  obtains op where "ops = [op]" "fast_eval_reg_or_breg e op \<noteq> Fail"
  | a rest where "ops = a # rest" "atom a = DW_OP_call_frame_cfa" "\<And>v f'. fast_eval_cfa d e f \<noteq> (Ok v, f')"
  | a b where "ops = [a, b]" "atom a = DW_OP_call_frame_cfa" "atom b = DW_OP_stack_value"
  | a b where "ops = [a, b]" "atom a = DW_OP_call_frame_cfa" "atom b = DW_OP_plus_uconst"
  | a b c where "ops = [a, b, c]" "atom a = DW_OP_call_frame_cfa" "atom b = DW_OP_plus_uconst"
      "atom c = DW_OP_stack_value"
proof -
  consider "ops = []" | op where "ops = [op]" | a b where "ops = [a, b]" | a b c where "ops = [a, b, c]"
    | a b c x rest where "ops = a # b # c # x # rest"
    by (metis list.exhaust)
  then show thesis
  proof cases
    case 1
    then show ?thesis using assms by (simp add: fast_dwarf_ops_eval_def)
  next
    case 2
    then show ?thesis using assms that(1) by (simp add: fast_dwarf_ops_eval_def)
  next
    case (3 a b)
    then show ?thesis
      using assms that(2) [of a "[b]"] that(3,4)
      by (cases "fast_eval_cfa d e f"; cases "fst (fast_eval_cfa d e f)")
         (auto simp: fast_dwarf_ops_eval_def ebind_apply split: if_split_asm)
  next
    case (4 a b c)
    then show ?thesis
      using assms that(2) [of a "[b, c]"] that(5)
      by (cases "fast_eval_cfa d e f"; cases "fst (fast_eval_cfa d e f)")
         (auto simp: fast_dwarf_ops_eval_def ebind_apply split: if_split_asm)
  next
    case (5 a b c x rest)
    then show ?thesis
      using assms that(2) [of a "b # c # x # rest"]
      by (cases "fast_eval_cfa d e f"; cases "fst (fast_eval_cfa d e f)")
         (auto simp: fast_dwarf_ops_eval_def ebind_apply split: if_split_asm)
  qed
qed

lemma ebind_return: "ebind m (\<lambda>v. ereturn (Ok v)) = m"
  by (auto simp: fun_eq_iff ebind_apply split: prod.split cres.split)

lemma fast_agrees:
  assumes nc: "no_cfa (cfa_ops (ev_scratch e))" and ok: "fst (fast_dwarf_ops_eval (Suc (Suc d)) e ops f) \<noteq> Fail"
  shows "gu_dwarf_ops_eval (Suc (Suc d)) e ops f = fast_dwarf_ops_eval (Suc (Suc d)) e ops f"
  using ok
proof (cases rule: fast_shapes)
  case (1 op)
  then show ?thesis by (simp add: body_single fast_dwarf_ops_eval_def)
next
  case (2 a rest)
  let ?c = "gu_dwarf_ops_eval (Suc d) e (cfa_ops (ev_scratch e))"
  have "rest \<noteq> []" using 2 ok by (auto simp: fast_dwarf_ops_eval_def fast_eval_reg_or_breg_def between_def Let_def)
  then obtain b rest' where rest: "rest = b # rest'" by (cases rest) auto
  have stuck: "\<And>v f'. ?c f \<noteq> (Ok v, f')" using 2(3) by (simp only: fast_cfa_eq [OF nc] not_False_eq_True)
  have "eval_body e ?c ops f = fast_dwarf_ops_eval (Suc (Suc d)) e ops f"
    unfolding 2(1) body_cfa_not_ok [where c = ?c and f = f, OF 2(2) stuck]
    using stuck ok
    by (cases "?c f"; cases "fst (?c f)")
       (auto simp only: fast_dwarf_ops_eval_def fast_cfa_eq [OF nc] ebind_apply rest list.size 2(2) nth_Cons_0
          prod.case cres.case fst_conv if_True if_False split: if_split)
  then show ?thesis by simp
next
  case (3 a b)
  then show ?thesis
    by (simp add: body_cfa_value fast_dwarf_ops_eval_def fast_cfa_eq [OF nc] ebind_return)
next
  case (4 a b)
  then show ?thesis
    by (simp add: body_cfa_offset fast_dwarf_ops_eval_def fast_cfa_eq [OF nc])
next
  case (5 a b c)
  then show ?thesis
    by (simp add: body_cfa_val_offset fast_dwarf_ops_eval_def fast_cfa_eq [OF nc])
qed

definition sample_env :: eval_env where
  "sample_env = \<lparr>ev_arch = X86_64, ev_bias = 0, ev_raw_sp = 0x7010,
     ev_info = sample_info\<lparr>pt_regs := Some ((replicate 21 0)[19 := 0x7010]), stack_data := replicate 0x18 0 @ le_bytes 8 0x401136 @ replicate 0xfe0 0\<rparr>,
     ev_page = 0x1000,
     ev_scratch = \<lparr>rip_ops = [plain_op DW_OP_call_frame_cfa 0 0, plain_op DW_OP_plus_uconst (- 8) 0],
       rbp_ops = [], rsp_ops = [], cfa_ops = [plain_op 0x77 16 0]\<rparr>\<rparr>"

lemma sample_env_ok: "sample_ok sample_env" "no_cfa (cfa_ops (ev_scratch sample_env))"
  by (simp_all add: sample_ok_def sample_env_def sample_info_def length_le_bytes no_cfa_def plain_op_def)


text \<open>
  C4. The fast path of register recovery is only an optimisation: trying it first gives exactly
  the value, the failure or the undefined behaviour of the general evaluator, when the CFA
  operations do not refer to the CFA.
\<close>

theorem fast_path_transparent:
  assumes "no_cfa (cfa_ops (ev_scratch e))"
  shows "fst (eor (fast_dwarf_ops_eval (d + 2) e ops) (gu_dwarf_ops_eval (d + 2) e ops) f) =
    fst (gu_dwarf_ops_eval (d + 2) e ops f)"
proof (cases "fst (fast_dwarf_ops_eval (Suc (Suc d)) e ops f) = Fail")
  case True
  have "fst (gu_dwarf_ops_eval (Suc (Suc d)) e ops f') = fst (gu_dwarf_ops_eval (Suc (Suc d)) e ops f)" for f'
    using fault_free_eval [of "Suc (Suc d)" e ops] unfolding fault_free_def by blast
  then show ?thesis
    using True by (cases "fast_dwarf_ops_eval (Suc (Suc d)) e ops f") (auto simp: eor_def)
next
  case False
  show ?thesis
    using fast_agrees [OF assms False] False
    by (cases "fast_dwarf_ops_eval (Suc (Suc d)) e ops f") (auto simp: eor_def split: cres.split)
qed

theorem fast_path_transparent_witness:
  "fst (eor (fast_dwarf_ops_eval (0 + 2) sample_env (rip_ops (ev_scratch sample_env)))
      (gu_dwarf_ops_eval (0 + 2) sample_env (rip_ops (ev_scratch sample_env))) None) =
    fst (gu_dwarf_ops_eval (0 + 2) sample_env (rip_ops (ev_scratch sample_env)) None) \<and>
   no_cfa (cfa_ops (ev_scratch sample_env))"
  using fast_path_transparent [OF sample_env_ok(2)] sample_env_ok(2) by blast

subsection \<open>The frame of a compiled function\<close>

text \<open>
  C5. In a frame whose CFA is a register plus an offset and whose saved register lies at an
  offset from the CFA, recovery reads the eight little-endian bytes at exactly that address of
  the copied stack; a slot outside the copied window is reported as such
  with the offending address and the window.
\<close>

theorem gen_reg_saved_slot:
  assumes "gu_cfi_get_ops (ev_scratch e) (trans_reg_type (ev_arch e) r) False =
      Ok [plain_op DW_OP_call_frame_cfa 0 0, plain_op DW_OP_plus_uconst off 0]"
    and "cfa_ops (ev_scratch e) = [op]" "fast_eval_reg_or_breg e op = Ok cfa"
    and "sample_ok e"
  shows "gen_reg (d + 2) e r f =
    (let slot = cfa + off; hi = window_start e + stack_size (ev_info e) in
     if unat (window_start e) \<le> unat slot \<and> unat slot + 8 \<le> unat hi then
       (Ok (GU_UNWIND_REASON_OK, Some (le_word (take 8 (drop (unat (slot - window_start e)) (stack_data (ev_info e)))))), None)
     else (Ok (GU_UNWIND_REASON_STACK_READ_OUT_OF_RANGE, None),
           Some \<lparr>rf_addr = slot, rf_start = window_start e, rf_end = hi, rf_raw_sp = ev_raw_sp e\<rparr>))"
proof -
  let ?slot = "cfa + off"
  let ?hi = "window_start e + stack_size (ev_info e)"
  let ?ops = "[plain_op DW_OP_call_frame_cfa 0 0, plain_op DW_OP_plus_uconst off 0]"
  have read: "read_addr_from_info e ?slot = read_addr (stack_data (ev_info e)) (window_start e) ?hi (ev_raw_sp e) ?slot"
    by (simp add: read_addr_from_info_def window_start_def Let_def)
  have cfa: "fast_eval_cfa (d + 2) e = ereturn (Ok cfa)"
    using assms(2,3) by (simp add: fast_eval_cfa_def)
  have fast: "fast_dwarf_ops_eval (d + 2) e ?ops = read_addr_from_info e ?slot"
    using cfa by (simp add: fast_dwarf_ops_eval_def plain_op_def)
  show ?thesis
  proof (cases "unat (window_start e) \<le> unat ?slot \<and> unat ?slot + 8 \<le> unat ?hi")
    case True
    then have "fst (read_addr_from_info e ?slot None) \<noteq> Fail" unfolding read by (simp only: read_addr_ok_iff not_False_eq_True)
    then have "read_addr_from_info e ?slot None =
        (Ok (le_word (take 8 (drop (unat (?slot - window_start e)) (stack_data (ev_info e))))), None)"
      using read_addr_kind [OF assms(4), of ?slot None]
      unfolding read by (auto simp: read_addr_def Let_def split: if_split_asm)
    then show ?thesis using True fast by (simp add: gen_reg_def assms(1) eor_def Let_def)
  next
    case False
    have out: "read_addr_from_info e ?slot f =
        (Fail, Some \<lparr>rf_addr = ?slot, rf_start = window_start e, rf_end = ?hi, rf_raw_sp = ev_raw_sp e\<rparr>)" for f
      using False read_addr_ok_iff [of "stack_data (ev_info e)" "window_start e" ?hi "ev_raw_sp e" ?slot f]
      unfolding read by (auto simp: read_addr_def Let_def split: if_split_asm)
    have "gu_dwarf_ops_eval (d + 2) e ?ops = read_addr_from_info e ?slot"
      using assms(2,3) by (simp add: fun_eq_iff ebind_apply body_cfa_offset body_single plain_op_def)
    then show ?thesis using False out fast by (simp add: gen_reg_def assms(1) eor_def Let_def)
  qed
qed

theorem gen_reg_saved_slot_witness:
  "gen_reg (0 + 2) sample_env 16 None = (Ok (GU_UNWIND_REASON_OK, Some 0x401136), None)"
proof -
  have ops: "gu_cfi_get_ops (ev_scratch sample_env) (trans_reg_type (ev_arch sample_env) 16) False =
      Ok [plain_op DW_OP_call_frame_cfa 0 0, plain_op DW_OP_plus_uconst (- 8) 0]"
    by (simp add: sample_env_def gu_cfi_get_ops_def trans_reg_type_def)
  have cfa: "cfa_ops (ev_scratch sample_env) = [plain_op 0x77 16 0]"
    "fast_eval_reg_or_breg sample_env (plain_op 0x77 16 0) = Ok 0x7020"
    by (simp_all add: sample_env_def fast_eval_reg_or_breg_def plain_op_def between_def get_regs_def sample_info_def Let_def)
  have win: "window_start sample_env = 0x7000" by (simp add: window_start_def sample_env_def)
  have size: "stack_size (ev_info sample_env) = 0x1000" by (simp add: sample_env_def sample_info_def)
  have slot: "take 8 (drop 0x18 (stack_data (ev_info sample_env))) = le_bytes 8 0x401136"
    by (simp add: sample_env_def length_le_bytes)
  show ?thesis
    using gen_reg_saved_slot [OF ops cfa sample_env_ok(1), of 0 None] size
    by (simp add: win slot le_word_le_bytes)
qed

subsection \<open>Branches\<close>

lemma compare_op_sign:
  "compare_op off op < 0 \<longleftrightarrow> off < op_offset op" "0 < compare_op off op \<longleftrightarrow> op_offset op < off"
  by (auto simp: compare_op_def of_bool_def)

definition strictly_ordered :: "dwarf_op list \<Rightarrow> bool" where
  "strictly_ordered ops \<longleftrightarrow> sorted_wrt (<) (map op_offset ops)"

lemma strictly_orderedD:
  "strictly_ordered ops \<Longrightarrow> i < j \<Longrightarrow> j < length ops \<Longrightarrow> op_offset (ops ! i) < op_offset (ops ! j)"
  using sorted_wrt_nth_less [of "(<)" "map op_offset ops" i j] by (simp add: strictly_ordered_def)

lemma bsearch_ops_exact:
  assumes "strictly_ordered ops" "u \<le> length ops"
  shows "bsearch_ops off ops l u = Some i \<longleftrightarrow> l \<le> i \<and> i < u \<and> op_offset (ops ! i) = off"
  using assms
proof (induction off ops l u rule: bsearch_ops.induct)
  case (1 off ops l u)
  let ?m = "(l + u) div 2"
  show ?case
  proof (cases "l < u")
    case False
    then show ?thesis by (simp add: bsearch_ops.simps [of off ops l u])
  next
    case True
    then have m: "l \<le> ?m" "?m < u" by auto
    note ord = strictly_orderedD [OF "1.prems"(1)]
    have cmp: "\<not> off < op_offset (ops ! ?m) \<Longrightarrow> \<not> op_offset (ops ! ?m) < off \<Longrightarrow> op_offset (ops ! ?m) = off" by simp
    consider "off < op_offset (ops ! ?m)" | "op_offset (ops ! ?m) < off" | "op_offset (ops ! ?m) = off" by fastforce
    then show ?thesis
    proof cases
      case 1
      have "bsearch_ops off ops l u = bsearch_ops off ops l ?m"
        using True 1 by (simp add: bsearch_ops.simps [of off ops l u] compare_op_sign Let_def)
      moreover have "bsearch_ops off ops l ?m = Some i \<longleftrightarrow> l \<le> i \<and> i < ?m \<and> op_offset (ops ! i) = off"
        using "1.IH"(1) [OF _ refl refl] True 1 m "1.prems" by (simp add: compare_op_sign)
      moreover have "i < ?m" if "i < u" "op_offset (ops ! i) = off"
        using ord [of ?m i] that 1 "1.prems"(2) by (metis not_less_iff_gr_or_eq order_less_le_trans order_less_asym)
      ultimately show ?thesis using m by auto
    next
      case 2
      have "bsearch_ops off ops l u = bsearch_ops off ops (Suc ?m) u"
        using True 2 order_less_not_sym [OF 2] by (simp add: bsearch_ops.simps [of off ops l u] compare_op_sign Let_def)
      moreover have "bsearch_ops off ops (Suc ?m) u = Some i \<longleftrightarrow> Suc ?m \<le> i \<and> i < u \<and> op_offset (ops ! i) = off"
        using "1.IH"(2) [OF _ refl refl] True 2 order_less_not_sym [OF 2] m "1.prems" by (simp add: compare_op_sign)
      moreover have "?m < i" if "op_offset (ops ! i) = off"
        using ord [of i ?m] that 2 m(2) "1.prems"(2) by (metis not_less_iff_gr_or_eq order_less_le_trans order_less_asym)
      ultimately show ?thesis using m by auto
    next
      case 3
      have "bsearch_ops off ops l u = Some ?m"
        using True 3 by (simp add: bsearch_ops.simps [of off ops l u] compare_op_def Let_def)
      moreover have "i = ?m" if "i < u" "op_offset (ops ! i) = off"
        using ord [of i ?m] ord [of ?m i] that 3 m(2) "1.prems"(2) by (metis nat_neq_iff order_less_irrefl order_less_le_trans)
      ultimately show ?thesis using m 3 by auto
    qed
  qed
qed



end
