(* ===== verification/Profile_Debug.thy ===== *)
theory Profile_Debug
  imports Gu_Comm Dwarf_Eval
begin

text \<open>
  Sample dumps, \<open>src/profile_debug.c\<close>: the binary dump format, its writer and reader, and the
  copy of the files a dump needs.

  \<^item> A file is its bytes; \<open>fwrite_ok i\<close> says whether the \<open>i\<close>-th \<open>fwrite\<close> writes its whole item.
    \<open>fread\<close> and \<open>fwrite\<close> of an item of size zero return 0, as ISO C requires.
  \<^item> The register block is the words of \<open>struct pt_regs\<close>; a block whose size is not a multiple of
    eight is read as the words it contains.
\<close>

unbundle bit_operations_syntax

subsection \<open>Versions\<close>

definition str_ends_with :: "string option \<Rightarrow> string option \<Rightarrow> bool" where
  "str_ends_with str suf =
     (case (str, suf) of
        (Some s, Some t) \<Rightarrow>
          if length s < length t then False else drop (length s - length t) s = t
      | _ \<Rightarrow> False)"

datatype gu_debug_dump_version_type = GU_DEBUG_DUMP_VER_ERROR | GU_DEBUG_DUMP_VERSION_V1 | GU_DEBUG_DUMP_VERSION_V2

definition gu_debug_dump_version :: "string \<Rightarrow> gu_debug_dump_version_type" where
  "gu_debug_dump_version path =
     (if str_ends_with (Some path) (Some ''.dump.v2'') then GU_DEBUG_DUMP_VERSION_V2
      else if str_ends_with (Some path) (Some ''.dump'') then GU_DEBUG_DUMP_VERSION_V1
      else GU_DEBUG_DUMP_VER_ERROR)"

subsection \<open>Writing a dump\<close>

definition words_bytes :: "u64 list \<Rightarrow> bytes" where
  "words_bytes ws = concat (map (le_bytes 8) ws)"

text \<open>
  One \<open>fwrite\<close> of \<open>n\<close> bytes of an object that has the bytes \<open>data\<close>; reading past the object is
  undefined. The result is the file so far and whether the writer goes on.
\<close>

definition put_item :: "bool \<Rightarrow> nat \<Rightarrow> bytes \<Rightarrow> bytes \<Rightarrow> (bytes \<times> bool) cres" where
  "put_item ok n data file =
     (if length data < n then Undef OutOfBounds
      else if ok \<and> n \<noteq> 0 then Ok (file @ take n data, True) else Ok (file, False))"

fun put_items :: "(nat \<Rightarrow> bool) \<Rightarrow> nat \<Rightarrow> (nat \<times> bytes) list \<Rightarrow> bytes \<Rightarrow> (bytes \<times> bool) cres" where
  "put_items fwrite_ok i [] file = Ok (file, True)"
| "put_items fwrite_ok i ((n, data) # items) file =
     cbind (put_item (fwrite_ok i) n data file) (\<lambda>(file', go).
       if go then put_items fwrite_ok (Suc i) items file' else Ok (file', False))"

text \<open>The items before the frame-pointer array; \<open>pt_size\<close> is \<open>sizeof(struct pt_regs)\<close>.\<close>

definition dump_items :: "arch \<Rightarrow> gu_stack_info \<Rightarrow> (nat \<times> bytes) list" where
  "dump_items a info =
     (let pt_size = 8 * pt_regs_words a in
      [(4, le_bytes 4 (word_of_int (pid info))), (8, le_bytes 8 (stack_size info)),
       (8, le_bytes 8 (flags info)), (8, le_bytes 8 (of_nat pt_size)),
       (pt_size, words_bytes (the (pt_regs info))), (unat (stack_size info), stack_data info),
       (8, le_bytes 8 (ustack_fp_level info))])"

definition dump_sample_bytes :: "arch \<Rightarrow> (nat \<Rightarrow> bool) \<Rightarrow> gu_stack_info \<Rightarrow> (bytes \<times> bool) cres" where
  "dump_sample_bytes a fwrite_ok info =
     (if pt_regs info = None then Undef NullDeref
      else
        cbind (put_items fwrite_ok 0 (dump_items a info) []) (\<lambda>(file, go).
        if \<not> go then Ok (file, False)
        else if length (ustack_fp info) < unat (ustack_fp_level info) then Undef OutOfBounds
        else if ustack_fp_level info \<noteq> 0 \<and> \<not> fwrite_ok 7 then Ok (file, False)
        else Ok (file @ words_bytes (take (unat (ustack_fp_level info)) (ustack_fp info)), True)))"

text \<open>The name of the next dump: process, second, and a counter within the second.\<close>

record dump_clock =
  record_timestamp :: int
  dump_count :: int

definition next_dump :: "int \<Rightarrow> dump_clock \<Rightarrow> dump_clock" where
  "next_dump timestamp c =
     (if record_timestamp c = timestamp then c\<lparr>dump_count := dump_count c + 1\<rparr>
      else \<lparr>record_timestamp = timestamp, dump_count = 0\<rparr>)"

fun dec_digits :: "nat \<Rightarrow> string" where
  "dec_digits n =
     (if n < 10 then [''0123456789'' ! n] else dec_digits (n div 10) @ [''0123456789'' ! (n mod 10)])"

declare dec_digits.simps [simp del]

definition print_dec :: "int \<Rightarrow> string" where
  "print_dec i = (if i < 0 then CHR ''-'' # dec_digits (nat (- i)) else dec_digits (nat i))"

definition dump_name :: "int \<Rightarrow> dump_clock \<Rightarrow> string" where
  "dump_name p c =
     print_dec p @ ''_'' @ print_dec (record_timestamp c) @ ''_'' @ print_dec (dump_count c) @ ''.dump.v2''"

subsection \<open>Copying the related files\<close>

datatype dump_action = Put_Line string | Copy_File string string | Dump_Vdso string

text \<open>The part of a string from its first slash, and what follows its last one.\<close>

definition from_slash :: "string \<Rightarrow> string option" where
  "from_slash s = (let t = dropWhile (\<lambda>c. c \<noteq> CHR ''/'') s in if t = [] then None else Some t)"

definition after_last_slash :: "string \<Rightarrow> string" where
  "after_last_slash s = rev (takeWhile (\<lambda>c. c \<noteq> CHR ''/'') (rev s))"

definition exec_line :: "string \<Rightarrow> bool" where
  "exec_line line \<longleftrightarrow> strstr line '' r-xp '' \<or> strstr line '' rwxp ''"

text \<open>
  One line: what is done, and whether the loop goes on. \<open>put_ok\<close> and \<open>alloc_ok\<close> say whether
  \<open>fputs\<close> and the allocations for the line succeed.
\<close>

definition dump_line :: "(string \<Rightarrow> bool) \<Rightarrow> (string \<Rightarrow> bool) \<Rightarrow> string \<Rightarrow> string \<Rightarrow> string \<Rightarrow> dump_action list \<times> bool" where
  "dump_line put_ok alloc_ok root path line =
     (if \<not> put_ok line then ([], False)
      else
        case (if exec_line line then from_slash line else None) of
          None \<Rightarrow> ([Put_Line line], True)
        | Some bin_path \<Rightarrow>
            if \<not> alloc_ok line then ([Put_Line line], False)
            else if strstr bin_path '' (deleted)'' then ([Put_Line line], True)
            else ([Put_Line line,
                   Copy_File (the (gu_path_join True (Some root) (Some bin_path)))
                             (the (gu_path_join True (Some path) (Some (after_last_slash bin_path))))], True))"

fun dump_lines ::
  "(string \<Rightarrow> bool) \<Rightarrow> (string \<Rightarrow> bool) \<Rightarrow> string \<Rightarrow> string \<Rightarrow> string list \<Rightarrow> dump_action list \<times> bool" where
  "dump_lines put_ok alloc_ok root path [] = ([], True)"
| "dump_lines put_ok alloc_ok root path (line # lines) =
     (case dump_line put_ok alloc_ok root path line of (acts, go) \<Rightarrow>
        if \<not> go then (acts, False)
        else (case dump_lines put_ok alloc_ok root path lines of (acts', go') \<Rightarrow> (acts @ acts', go')))"

definition dump_all_related_files ::
  "(string \<Rightarrow> bool) \<Rightarrow> (string \<Rightarrow> bool) \<Rightarrow> bool \<Rightarrow> int \<Rightarrow> string \<Rightarrow> string list option \<Rightarrow> dump_action list" where
  "dump_all_related_files put_ok alloc_ok output_opens p path maps =
     (case maps of
        None \<Rightarrow> []
      | Some lines \<Rightarrow>
          if \<not> output_opens then []
          else
            (case dump_lines put_ok alloc_ok (''/proc/'' @ print_dec p @ ''/root'') path lines of
               (acts, go) \<Rightarrow>
                 if go then acts @ [Dump_Vdso (the (gu_path_join True (Some path) (Some ''__vdso.so'')))]
                 else acts))"

text \<open>
  The whole dump: the file written and its bytes, and what is done for the related files, where
  \<open>related\<close> is \<open>dump_all_related_files\<close> for the process's own maps.
\<close>

definition gu_debug_dump_sample ::
  "arch \<Rightarrow> (nat \<Rightarrow> bool) \<Rightarrow> (string \<Rightarrow> bool) \<Rightarrow> bool \<Rightarrow> (int \<Rightarrow> string \<Rightarrow> dump_action list) \<Rightarrow> int \<Rightarrow> dump_clock \<Rightarrow>
     gu_stack_info \<Rightarrow> string \<Rightarrow> bool \<Rightarrow> (dump_clock \<times> (string \<times> bytes) option \<times> dump_action list) cres" where
  "gu_debug_dump_sample a fwrite_ok opens join_ok related now clock info path dump_related_files =
     (let clock' = next_dump now clock in
      case gu_path_join join_ok (Some path) (Some (dump_name (pid info) clock')) of
        None \<Rightarrow> Ok (clock', None, [])
      | Some file_path \<Rightarrow>
          if \<not> opens file_path then Ok (clock', None, [])
          else
            cbind (dump_sample_bytes a fwrite_ok info) (\<lambda>(file, complete).
              Ok (clock', Some (file_path, file),
                  if complete \<and> dump_related_files then related (pid info) path else [])))"

subsection \<open>Reading a dump\<close>

definition get_item :: "nat \<Rightarrow> bytes \<Rightarrow> (bytes \<times> bytes) cres" where
  "get_item n file = (if n = 0 \<or> length file < n then Fail else Ok (take n file, drop n file))"

fun bytes_words :: "bytes \<Rightarrow> u64 list" where
  "bytes_words bs = (if length bs < 8 then [] else le_word (take 8 bs) # bytes_words (drop 8 bs))"

declare bytes_words.simps [simp del]

definition blank_info :: gu_stack_info where
  "blank_info = \<lparr>pid = 0, stack_size = 0, unique_id = 0, pt_regs = None, regs_size = 0, flags = 0,
     ustack_fp = replicate 128 0, ustack_fp_level = 0, stack_data = []\<rparr>"

text \<open>The flag word: version 1 stores an \<open>int\<close> whose bit 3 marks a frame-pointer sample.\<close>

definition get_flags :: "gu_debug_dump_version_type \<Rightarrow> gu_stack_info \<Rightarrow> bytes \<Rightarrow> (gu_stack_info \<times> bytes) cres" where
  "get_flags version info file =
     (if version = GU_DEBUG_DUMP_VERSION_V1 then
        cbind (get_item 4 file) (\<lambda>(b, file').
          Ok (if le_word b AND 8 \<noteq> 0 then gu_flags_set (info\<lparr>flags := 0\<rparr>) GU_FLAG_HINT_SET_FP else info, file'))
      else cbind (get_item 8 file) (\<lambda>(b, file'). Ok (info\<lparr>flags := le_word b\<rparr>, file')))"

text \<open>The frame-pointer array: version 1 takes it from the stack bytes.\<close>

definition get_fp_v1 :: "gu_stack_info \<Rightarrow> gu_stack_info" where
  "get_fp_v1 info =
     (if gu_flags_is_set info GU_FLAG_HINT_SET_FP then
        (let n = (if 127 * 8 < unat (stack_size info) then 127 * 8 else unat (stack_size info));
             old = words_bytes (ustack_fp info) in
         info\<lparr>ustack_fp := bytes_words (take n (stack_data info) @ drop n old),
              ustack_fp_level := of_nat (n div 8)\<rparr>)
      else info)"

definition get_fp_v2 :: "gu_stack_info \<Rightarrow> bytes \<Rightarrow> gu_stack_info cres" where
  "get_fp_v2 info file =
     cbind (get_item 8 file) (\<lambda>(b, file').
       let level = unat (le_word b) in
       if level = 0 then Ok (info\<lparr>ustack_fp_level := 0\<rparr>)
       else if 8 * length (ustack_fp info) < min (8 * level) (length file') then Undef OutOfBounds
       else if length file' < 8 * level then Fail
       else Ok (info\<lparr>ustack_fp_level := le_word b,
              ustack_fp := bytes_words (take (8 * level) file') @ drop level (ustack_fp info)\<rparr>))"

definition gu_read_stack_dump :: "(nat \<Rightarrow> bool) \<Rightarrow> string \<Rightarrow> bytes option \<Rightarrow> gu_stack_info cres" where
  "gu_read_stack_dump malloc_ok path content =
     (if \<not> malloc_ok 0 then Fail
      else
        case content of
          None \<Rightarrow> Fail
        | Some file \<Rightarrow>
            let version = gu_debug_dump_version path in
            if version = GU_DEBUG_DUMP_VER_ERROR then Fail
            else
              cbind (get_item 4 file) (\<lambda>(b, f1).
              cbind (get_item 8 f1) (\<lambda>(b', f2).
              cbind (get_flags version
                       (blank_info\<lparr>pid := sint (ucast (le_word b) :: u32), stack_size := le_word b'\<rparr>) f2) (\<lambda>(info, f3).
              cbind (get_item 8 f3) (\<lambda>(rs, f4).
              let info' = info\<lparr>regs_size := ucast (le_word rs)\<rparr> in
              if \<not> malloc_ok 1 \<or> \<not> malloc_ok 2 then Fail
              else
                cbind (get_item (unat (le_word rs)) f4) (\<lambda>(rb, f5).
                cbind (get_item (unat (stack_size info')) f5) (\<lambda>(sb, f6).
                let info'' = info'\<lparr>pt_regs := Some (bytes_words rb), stack_data := sb\<rparr> in
                if version = GU_DEBUG_DUMP_VERSION_V1 then Ok (get_fp_v1 info'')
                else get_fp_v2 info'' f6)))))))"

subsection \<open>A dump is read back\<close>

lemma length_words_bytes [simp]: "length (words_bytes ws) = 8 * length ws"
  by (induction ws) (simp_all add: words_bytes_def)

lemma bytes_words_words_bytes [simp]: "bytes_words (words_bytes ws) = ws"
proof (induction ws)
  case Nil
  show ?case by (simp add: words_bytes_def bytes_words.simps)
next
  case (Cons w ws)
  have "words_bytes (w # ws) = le_bytes 8 w @ words_bytes ws" by (simp add: words_bytes_def)
  then show ?case using Cons by (simp add: bytes_words.simps [of "le_bytes 8 w @ words_bytes ws"])
qed

lemma get_item_append: "n \<noteq> 0 \<Longrightarrow> length bs = n \<Longrightarrow> get_item n (bs @ r) = Ok (bs, r)"
  by (simp add: get_item_def)

text \<open>A sample in the shape a collector delivers.\<close>

definition dumpable :: "arch \<Rightarrow> gu_stack_info \<Rightarrow> bool" where
  "dumpable a info \<longleftrightarrow>
     - (2 ^ 31) \<le> pid info \<and> pid info < 2 ^ 31 \<and> stack_size info \<noteq> 0 \<and>
     length (stack_data info) = unat (stack_size info) \<and>
     (\<exists>ws. pt_regs info = Some ws \<and> length ws = pt_regs_words a) \<and>
     length (ustack_fp info) = 128 \<and> unat (ustack_fp_level info) \<le> 128"

lemma put_items_all:
  "\<forall>(n, d)\<in>set items. n \<noteq> 0 \<and> length d = n \<Longrightarrow>
     put_items (\<lambda>_. True) i items out = Ok (out @ concat (map snd items), True)"
  by (induction items arbitrary: i out) (auto simp: put_item_def)

lemma pt_size_small: "unat (of_nat (8 * pt_regs_words a) :: u64) = 8 * pt_regs_words a" "0 < pt_regs_words a"
  by (cases a; simp)+

lemma dump_bytes:
  assumes "dumpable a info" "pt_regs info = Some ws"
  shows "dump_sample_bytes a (\<lambda>_. True) info =
    Ok (le_bytes 4 (word_of_int (pid info)) @ le_bytes 8 (stack_size info) @ le_bytes 8 (flags info) @
        le_bytes 8 (of_nat (8 * pt_regs_words a)) @ words_bytes ws @ stack_data info @
        le_bytes 8 (ustack_fp_level info) @ words_bytes (take (unat (ustack_fp_level info)) (ustack_fp info)), True)"
proof -
  have "unat (stack_size info) \<noteq> 0" using assms(1) by (simp add: dumpable_def unat_eq_0)
  then have "\<forall>(n, d)\<in>set (dump_items a info). n \<noteq> 0 \<and> length d = n"
    using assms pt_size_small [of a] by (auto simp: dump_items_def dumpable_def Let_def)
  then have "put_items (\<lambda>_. True) 0 (dump_items a info) [] = Ok (concat (map snd (dump_items a info)), True)"
    using put_items_all by fastforce
  then show ?thesis
    using assms by (simp add: dump_sample_bytes_def dump_items_def dumpable_def Let_def)
qed

lemma pid_roundtrip:
  assumes "- (2 ^ 31) \<le> p" "p < 2 ^ 31"
  shows "sint (ucast (le_word (le_bytes 4 (word_of_int p))) :: u32) = p"
proof -
  have "(ucast (take_bit 32 (word_of_int p :: u64)) :: u32) = word_of_int p"
    by (rule bit_word_eqI) (simp add: bit_simps)
  then show ?thesis
    using assms by (simp add: le_word_le_bytes sint_sbintrunc' signed_take_bit_int_eq_self)
qed

text \<open>
  C18. A dumped sample is read back: process, stack, registers, flags and the frame-pointer array
  up to its level are those of the sample; only the process-instance id, which the format does
  not store, and the unused tail of the array are lost.
\<close>

theorem dump_read_roundtrip:
  assumes "dumpable a info" "gu_debug_dump_version path = GU_DEBUG_DUMP_VERSION_V2"
  shows "\<exists>file. dump_sample_bytes a (\<lambda>_. True) info = Ok (file, True) \<and>
    gu_read_stack_dump (\<lambda>_. True) path (Some file) =
      Ok (info\<lparr>unique_id := 0, regs_size := of_nat (8 * pt_regs_words a),
            ustack_fp := take (unat (ustack_fp_level info)) (ustack_fp info) @
                         replicate (128 - unat (ustack_fp_level info)) 0\<rparr>)"
proof -
  obtain ws where ws: "pt_regs info = Some ws" "length ws = pt_regs_words a"
    using assms(1) by (auto simp: dumpable_def)
  let ?n = "unat (ustack_fp_level info)"
  let ?fp = "words_bytes (take ?n (ustack_fp info))"
  have d: "stack_size info \<noteq> 0" "length (stack_data info) = unat (stack_size info)"
      "length (ustack_fp info) = 128" "?n \<le> 128" "- (2 ^ 31) \<le> pid info" "pid info < 2 ^ 31"
    using assms(1) by (auto simp: dumpable_def)
  have z: "unat (stack_size info) \<noteq> 0" using d(1) by (simp add: unat_eq_0)
  have regs: "get_item (8 * pt_regs_words a) (words_bytes ws @ r) = Ok (words_bytes ws, r)" for r
    using ws(2) pt_size_small(2) [of a] by (intro get_item_append) simp_all
  have stack: "get_item (unat (stack_size info)) (stack_data info @ r) = Ok (stack_data info, r)" for r
    using z d(2) by (intro get_item_append)
  have fp: "get_fp_v2 i (le_bytes 8 (ustack_fp_level info) @ ?fp) =
      Ok (i\<lparr>ustack_fp_level := ustack_fp_level info,
            ustack_fp := take ?n (ustack_fp info) @ drop ?n (ustack_fp i)\<rparr>)" if "length (ustack_fp i) = 128" for i
    using that d(3,4) by (simp add: get_fp_v2_def get_item_append Let_def unat_eq_0)
  define rsz :: u64 where "rsz = of_nat (8 * pt_regs_words a)"
  have rsz: "unat rsz = 8 * pt_regs_words a" "(ucast rsz :: u32) = of_nat (8 * pt_regs_words a)"
    unfolding rsz_def by (cases a; simp)+
  have p: "sint (ucast (le_word (le_bytes 4 (word_of_int (pid info)))) :: u32) = pid info"
    using pid_roundtrip d(5,6) by blast
  have read: "gu_read_stack_dump (\<lambda>_. True) path (Some (le_bytes 4 (word_of_int (pid info)) @ le_bytes 8 (stack_size info) @
      le_bytes 8 (flags info) @ le_bytes 8 rsz @ words_bytes ws @ stack_data info @ le_bytes 8 (ustack_fp_level info) @ ?fp)) =
    Ok (info\<lparr>unique_id := 0, regs_size := of_nat (8 * pt_regs_words a),
            ustack_fp := take ?n (ustack_fp info) @ replicate (128 - ?n) 0\<rparr>)"
  proof -
    have "info\<lparr>unique_id := 0, regs_size := of_nat (8 * pt_regs_words a),
            ustack_fp := take ?n (ustack_fp info) @ replicate (128 - ?n) 0\<rparr> =
        \<lparr>pid = pid info, stack_size = stack_size info, unique_id = 0, pt_regs = Some ws,
         regs_size = of_nat (8 * pt_regs_words a), flags = flags info,
         ustack_fp = take ?n (ustack_fp info) @ replicate (128 - ?n) 0,
         ustack_fp_level = ustack_fp_level info, stack_data = stack_data info\<rparr>"
      using ws(1) by (cases info) simp
    then show ?thesis
      by (simp add: gu_read_stack_dump_def assms(2) get_item_append get_flags_def p
          rsz(1) regs stack fp blank_info_def Let_def) (simp add: rsz(2))
  qed
  show ?thesis
    unfolding dump_bytes [OF assms(1) ws(1)] rsz_def [symmetric] using read by blast
qed

theorem dump_read_roundtrip_witness:
  "\<exists>file. dump_sample_bytes X86_64 (\<lambda>_. True) sample_info = Ok (file, True) \<and>
     gu_read_stack_dump (\<lambda>_. True) ''/tmp/1_2_0.dump.v2'' (Some file) \<noteq> Fail"
proof -
  have "dumpable X86_64 sample_info" by (simp add: dumpable_def sample_info_def)
  moreover have "gu_debug_dump_version ''/tmp/1_2_0.dump.v2'' = GU_DEBUG_DUMP_VERSION_V2"
    by (simp add: gu_debug_dump_version_def str_ends_with_def)
  ultimately show ?thesis using dump_read_roundtrip [of X86_64 sample_info "''/tmp/1_2_0.dump.v2''"] by auto
qed


end
