(* ===== verification/Elf_Load.thy ===== *)
theory Elf_Load
  imports Elf_Cache Profile_Debug
begin

text \<open>
  Loading one ELF image, \<open>load_elf\<close> of \<open>src/gu_stacktrace.c\<close>: naming the file and opening it inside
  the process's root, the cache lookup by build-id, the choice of the debug file, and building the
  symbol and CFI tables.

  \<open>load_env\<close> is everything outside: the file system as seen by this process and by the target, what
  libelf shows of an opened file, and which allocations succeed. The temporary context of the
  source is a local value here, because nothing reads it between two calls.
\<close>

subsection \<open>The environment of one load\<close>

record section_view = elf_scn +
  sec_syms :: sym_scn

record elf_view =
  view_begin :: bool
  view_strndx :: bool
  view_scns :: "section_view scan_scn list"
  view_phdrs :: elf_phdrs
  view_reads :: "bytes list"

record load_env =
  le_vdso_name :: string
  le_vdso_mem :: "u64 \<Rightarrow> u64 \<Rightarrow> bytes"
  le_vdso_maps :: "string list option"
  le_vdso_opens :: bool
  le_vdso_malloc :: bool
  le_base_ok :: bool
  le_path_ok :: bool
  le_open :: "string \<Rightarrow> elf_view option"
  le_openat2 :: "string \<Rightarrow> nat opened"
  le_fs :: "nat \<Rightarrow> nat node"
  le_can_open :: "nat \<Rightarrow> bool"
  le_dup_ok :: bool
  le_proc_root :: "nat option"
  le_inode :: "nat \<Rightarrow> elf_view"
  le_malloc :: "u64 \<Rightarrow> bool"
  le_md5 :: "bytes \<Rightarrow> bytes"
  le_md5_ok :: bool
  le_ranges_ok :: bool
  le_access :: "string \<Rightarrow> bool"
  le_id_path_ok :: bool
  le_debug_files :: debug_files
  le_link_ok :: bool
  le_debug_dup_ok :: bool
  le_fuel :: nat
  le_arch :: arch
  le_cfi_mem :: allocs
  le_next_cfi :: next_cfi
  le_cfi_base :: u64
  le_sym_calloc :: bool
  le_sym_realloc :: bool
  le_sym_array :: bool
  le_sym_items :: bool
  le_sym_alloc :: allocator
  le_sym_cache_ok :: "nat \<Rightarrow> bool"
  le_scn_flags :: "nat \<Rightarrow> u64 option"
  le_names :: "nat \<Rightarrow> string option"
  le_elf_addr :: elf_ptr

subsection \<open>Naming and opening\<close>

definition get_vdso_dump_path :: "load_env \<Rightarrow> gu_context \<Rightarrow> gu_context" where
  "get_vdso_dump_path env ctx =
     (if vdso_file_path ctx = [] then ctx\<lparr>vdso_file_path := snprintf 4096 (''/tmp/__vdso.so.'' @ le_vdso_name env)\<rparr>
      else ctx)"

text \<open>The file a mapping names: the dump of the vDSO for \<open>[vdso]\<close>, written on first use.\<close>

definition image_name :: "load_env \<Rightarrow> string \<Rightarrow> gu_context \<Rightarrow> (string \<times> bool) option \<times> gu_context" where
  "image_name env file_name ctx =
     (if take 6 file_name \<noteq> ''[vdso]'' then (Some (file_name, False), ctx)
      else if vdso_dumped ctx then
        let ctx = get_vdso_dump_path env ctx in (Some (vdso_file_path ctx, True), ctx)
      else
        let ctx = get_vdso_dump_path env ctx in
        case gu_dump_vdso (le_vdso_mem env) (le_vdso_maps env) (le_vdso_opens env) (le_vdso_malloc env) of
          None \<Rightarrow> (None, ctx)
        | Some _ \<Rightarrow> (Some (vdso_file_path ctx, True), ctx\<lparr>vdso_dumped := True\<rparr>))"

definition base_of :: "string \<Rightarrow> string" where
  "base_of file_name = rev (takeWhile (\<lambda>c. c \<noteq> CHR ''/'') (rev file_name))"

definition proc_root_path :: "bool \<Rightarrow> int \<Rightarrow> string" where
  "proc_root_path dbg pidn = (if dbg then [] else snprintf 64 (''/proc/'' @ print_dec pidn @ ''/root''))"

definition image_path :: "load_env \<Rightarrow> bool \<Rightarrow> int \<Rightarrow> string \<Rightarrow> bool \<Rightarrow> string option \<Rightarrow> string option" where
  "image_path env dbg pidn file_name vdso_local open_path =
     (case open_path of
        Some p \<Rightarrow> if le_path_ok env then Some p else None
      | None \<Rightarrow>
          if vdso_local then (if le_path_ok env then Some file_name else None)
          else gu_path_join (le_path_ok env) (Some (proc_root_path dbg pidn)) (Some file_name))"

definition open_image ::
  "load_env \<Rightarrow> string \<Rightarrow> bool \<Rightarrow> string option \<Rightarrow> string \<Rightarrow> gu_context \<Rightarrow> elf_view option \<times> gu_context" where
  "open_image env file_name vdso_local open_path path ctx =
     (case open_path of
        Some p \<Rightarrow> (le_open env p, ctx)
      | None \<Rightarrow>
          if \<not> debug ctx \<and> \<not> vdso_local then
            (case gu_open_pid_root_path (le_openat2 env) (le_fs env) (le_can_open env) (le_dup_ok env)
                    (openat2_avail ctx) (le_proc_root env) file_name of
               (Inr i, a) \<Rightarrow> (Some (le_inode env i), ctx\<lparr>openat2_avail := a\<rparr>)
             | (Inl _, a) \<Rightarrow> (None, ctx\<lparr>openat2_avail := a\<rparr>))
          else (le_open env path, ctx))"

subsection \<open>The key and the debug file\<close>

definition note_data :: "section_view scn_table \<Rightarrow> elf_scn_type \<Rightarrow> bytes option option" where
  "note_data t ty = map_option scn_data (fst t ty)"

text \<open>A build-id note or the MD5 of the file; a failed digest leaves a null key behind.\<close>

definition image_key :: "load_env \<Rightarrow> elf_view \<Rightarrow> section_view scn_table \<Rightarrow> string \<Rightarrow> bytes cres" where
  "image_key env v t base =
     (case get_elf_build_id (le_malloc env) (note_data t ELF_SCN_TYPE_GO_BUILD_ID) (note_data t ELF_SCN_TYPE_GNU_BUILD_ID) of
        Undef k \<Rightarrow> Undef k
      | Ok b \<Rightarrow> Ok b
      | Fail \<Rightarrow>
          (case gu_calculate_md5 (le_md5 env) (le_md5_ok env) (view_reads v) base of
             None \<Rightarrow> Undef NullDeref
           | Some b \<Rightarrow> Ok b))"

definition build_id_debug_path :: "load_env \<Rightarrow> string \<Rightarrow> bytes \<Rightarrow> string option cres" where
  "build_id_debug_path env root key =
     (if length key \<noteq> STANDARD_BUILD_ID_LEN then Ok None
      else
        cbind (get_debug_info_path_by_id key) (\<lambda>p.
          if \<not> le_id_path_ok env then Ok None
          else if le_access env p then Ok (Some p)
          else
            (case gu_path_join (le_id_path_ok env) (Some root) (Some p) of
               None \<Rightarrow> Ok None
             | Some q \<Rightarrow> Ok (if le_access env q then Some q else None))))"

definition choose_debug_path ::
  "load_env \<Rightarrow> bool \<Rightarrow> int \<Rightarrow> string \<Rightarrow> bool \<Rightarrow> section_view scn_table \<Rightarrow> bytes \<Rightarrow> string \<Rightarrow> string cres" where
  "choose_debug_path env dbg pidn file_name replaced t key path =
     cbind (build_id_debug_path env (proc_root_path dbg pidn) key) (\<lambda>by_id.
       case by_id of
         Some p \<Rightarrow> Ok p
       | None \<Rightarrow>
           (case find_debug_info_path_by_debuglink (le_link_ok env) (le_debug_files env)
                   (Option.bind (fst t ELF_SCN_TYPE_GNU_DEBUGLINK) scn_data) file_name (proc_root_path dbg pidn) (\<not> dbg) replaced of
              Some p \<Rightarrow> Ok p
            | None \<Rightarrow> if le_debug_dup_ok env then Ok path else Undef NullDeref))"

text \<open>The sections of a separate debug file are added to those of the mapped file.\<close>

definition debug_sections :: "load_env \<Rightarrow> string \<Rightarrow> string \<Rightarrow> section_view scn_table \<Rightarrow> section_view scn_table cres" where
  "debug_sections env path debug_path t =
     (if path = debug_path then Ok t
      else
        (case le_open env debug_path of
           None \<Rightarrow> Fail
         | Some v \<Rightarrow> if \<not> view_begin v then Fail else scan_all_elf_scn (view_strndx v) (view_scns v) t))"

subsection \<open>Tables\<close>

definition blank_heap :: sym_heap where
  "blank_heap = \<lparr>heap_calls = 0, heap_names = (\<lambda>_. None), symbol_name_arena = []\<rparr>"

definition image_cfi :: "load_env \<Rightarrow> section_view scn_table \<Rightarrow> cfi_globals \<Rightarrow> (cfi_globals \<times> gu_cfi option) cres" where
  "image_cfi env t g =
     (if fst t ELF_SCN_TYPE_GO_BUILD_ID \<noteq> None then Ok (g, None)
      else
        (case gu_cfi_init (le_fuel env) (le_arch env) (le_cfi_mem env) (le_next_cfi env) (le_cfi_base env) g
                (\<lambda>ty. map_option elf_scn.truncate (fst t ty)) of
           None \<Rightarrow> Undef Diverges
         | Some r \<Rightarrow> r))"

definition image_symbols :: "load_env \<Rightarrow> gu_context \<Rightarrow> section_view scn_table \<Rightarrow> fill_result cres" where
  "image_symbols env ctx t =
     fill_symbols_debug_info (le_sym_calloc env) (le_sym_realloc env) (le_sym_array env) (le_sym_items env)
       \<lparr>env_alloc = le_sym_alloc env, env_cache_ok = le_sym_cache_ok env, env_scn_flags = le_scn_flags env,
        env_names = le_names env, env_golang = (fst t ELF_SCN_TYPE_GO_BUILD_ID \<noteq> None),
        env_go_only_buildid = go_only_buildid ctx, env_go_not_strip_name = go_not_strip_name ctx\<rparr>
       (map_option sec_syms (fst t ELF_SCN_TYPE_SYMTAB)) (map_option sec_syms (fst t ELF_SCN_TYPE_DYNSYM)) blank_heap"

definition image_ranges :: "load_env \<Rightarrow> elf_view \<Rightarrow> (gu_elf_exec_ranges \<times> u64) cres" where
  "image_ranges env v =
     (case gu_elf_exec_ranges_load_from_elf (le_ranges_ok env) (view_phdrs v) of
        Undef k \<Rightarrow> Undef k
      | Ok rs \<Rightarrow> Ok (rs, gu_elf_exec_ranges_first_start rs)
      | Fail \<Rightarrow> Ok ([], get_elf_exec_virt_addr (view_phdrs v)))"

text \<open>The statistics a new image adds, the counterpart of \<open>drop_tables\<close>.\<close>

definition add_tables :: "per_elf_ctx \<Rightarrow> gu_context \<Rightarrow> gu_context" where
  "add_tables e ctx =
     count_stat (\<lambda>s. s\<lparr>
         symbols_mem_size := symbols_mem_size s + (if symbols e = None then 0 else sym_search_size e),
         cfi_mem_size := cfi_mem_size s + (case elf_cfi e of None \<Rightarrow> 0 | Some c \<Rightarrow> cfi_mem_usage c),
         cfi_data_mem_size := cfi_data_mem_size s + (case elf_cfi e of None \<Rightarrow> 0 | Some c \<Rightarrow> cfi_data_mem_usage c)\<rparr>) ctx"

definition insert_elf :: "elf_ptr \<Rightarrow> per_elf_ctx \<Rightarrow> gu_context \<Rightarrow> (elf_ptr option \<times> gu_context)" where
  "insert_elf addr e ctx =
     (if addr = 0 then (None, drop_tables e ctx)
      else (Some addr, count_stat (\<lambda>s. s\<lparr>elf_ctx_count := elf_ctx_count s + 1\<rparr>)
                         (ctx\<lparr>elf_ctx_list := elf_ctx_list ctx @ [(addr, e)]\<rparr>)))"

definition new_elf ::
  "string \<Rightarrow> string \<Rightarrow> string \<Rightarrow> bytes \<Rightarrow> bool \<Rightarrow> fill_result \<Rightarrow> gu_cfi option \<Rightarrow> gu_elf_exec_ranges \<Rightarrow> u64 \<Rightarrow> per_elf_ctx" where
  "new_elf file_name path debug_path key golang syms cfi ranges vaddr =
     \<lparr>base_name = base_of file_name, elf_file_path = path, debug_file_path = debug_path, build_id = key,
      elf_golang = golang, symbols = fill_symbols syms, symbol_heap = fill_final_heap syms, elf_cfi = cfi,
      sym_search_size = fill_search_size syms, refcnt = 1, exec_virt_addr = vaddr, exec_ranges = ranges,
      retired = False, retire_deadline_ns = 0\<rparr>"

definition load_new_elf ::
  "load_env \<Rightarrow> int \<Rightarrow> string \<Rightarrow> bool \<Rightarrow> string \<Rightarrow> elf_view \<Rightarrow> section_view scn_table \<Rightarrow> bytes \<Rightarrow> gu_context \<Rightarrow>
     (elf_ptr option \<times> gu_context) cres" where
  "load_new_elf env pidn file_name replaced path v t key ctx =
     (let ctx = count_stat (\<lambda>s. s\<lparr>elf_ctx_alloc_count := elf_ctx_alloc_count s + 1\<rparr>) ctx in
      cbind (image_ranges env v) (\<lambda>(ranges, vaddr).
      cbind (choose_debug_path env (debug ctx) pidn file_name replaced t key path) (\<lambda>debug_path.
      case debug_sections env path debug_path t of
        Undef k \<Rightarrow> Undef k
      | Fail \<Rightarrow> Ok (None, ctx)
      | Ok t' \<Rightarrow>
          cbind (image_cfi env t' (cfi_defaults ctx)) (\<lambda>(g, cfi).
          cbind (image_symbols env ctx t') (\<lambda>syms.
            let e = new_elf file_name path debug_path key (fst t' ELF_SCN_TYPE_GO_BUILD_ID \<noteq> None) syms cfi ranges vaddr in
            Ok (insert_elf (le_elf_addr env) e
                  (add_tables e (ctx\<lparr>cfi_defaults := g, elf_frees := elf_frees ctx @ map Free_Name (fill_freed syms)\<rparr>))))))))"

definition share_elf :: "elf_ptr \<Rightarrow> gu_context \<Rightarrow> gu_context cres" where
  "share_elf p ctx =
     (case get_elf ctx p of
        None \<Rightarrow> Undef UseAfterFree
      | Some e \<Rightarrow>
          cbind (if retired e
                 then cbind (gu_unretire_elf_ctx p True ctx)
                        (\<lambda>ctx. Ok (count_stat (\<lambda>s. s\<lparr>retired_elf_cache_hit := retired_elf_cache_hit s + 1\<rparr>) ctx))
                 else Ok ctx) (\<lambda>ctx.
          case get_elf ctx p of
            None \<Rightarrow> Undef UseAfterFree
          | Some e \<Rightarrow> Ok (put_elf p (e\<lparr>refcnt := refcnt e + 1\<rparr>) ctx)))"

definition load_elf :: "load_env \<Rightarrow> int \<Rightarrow> string \<Rightarrow> string option \<Rightarrow> gu_context \<Rightarrow> (elf_ptr option \<times> gu_context) cres" where
  "load_elf env pidn name open_path ctx =
     (case image_name env name ctx of
        (None, ctx) \<Rightarrow> Ok (None, ctx)
      | (Some (file_name, vdso_local), ctx) \<Rightarrow>
          if \<not> le_base_ok env then Ok (None, ctx)
          else
            (case image_path env (debug ctx) pidn file_name vdso_local open_path of
               None \<Rightarrow> Ok (None, ctx)
             | Some path \<Rightarrow>
                 (case open_image env file_name vdso_local open_path path ctx of
                    (None, ctx) \<Rightarrow> Ok (None, ctx)
                  | (Some v, ctx) \<Rightarrow>
                      if \<not> view_begin v then Ok (None, ctx)
                      else
                        (case scan_all_elf_scn (view_strndx v) (view_scns v) ((\<lambda>_. None), 0) of
                           Undef k \<Rightarrow> Undef k
                         | Fail \<Rightarrow> Ok (None, ctx)
                         | Ok t \<Rightarrow>
                             cbind (image_key env v t (base_of file_name)) (\<lambda>key.
                               case find (\<lambda>x. build_id (snd x) = key) (elf_ctx_list ctx) of
                                 Some x \<Rightarrow> cbind (share_elf (fst x) ctx) (\<lambda>ctx. Ok (Some (fst x), ctx))
                               | None \<Rightarrow> load_new_elf env pidn file_name (open_path \<noteq> None) path v t key ctx)))))"

subsection \<open>Loading keeps the cache invariant\<close>

definition same_cache :: "gu_context \<Rightarrow> gu_context \<Rightarrow> bool" where
  "same_cache ctx ctx' \<longleftrightarrow>
     elf_ctx_list ctx' = elf_ctx_list ctx \<and> next_retired_elf_deadline_ns ctx' = next_retired_elf_deadline_ns ctx \<and>
     elf_ctx_count (statistics ctx') = elf_ctx_count (statistics ctx) \<and>
     retired_elf_ctx_count (statistics ctx') = retired_elf_ctx_count (statistics ctx) \<and> pid_part ctx' = pid_part ctx"

lemma same_cache_refl [simp]: "same_cache ctx ctx"
  by (simp add: same_cache_def)

lemma same_cache_trans: "same_cache a b \<Longrightarrow> same_cache b c \<Longrightarrow> same_cache a c"
  by (simp add: same_cache_def)

lemma same_cache_ok: "same_cache ctx ctx' \<Longrightarrow> elf_cache_ok refs ctx' = elf_cache_ok refs ctx"
  by (rule elf_cache_ok_frame) (simp_all add: same_cache_def)

lemma image_name_same: "image_name env f ctx = (r, ctx') \<Longrightarrow> same_cache ctx ctx'"
  by (auto simp: image_name_def get_vdso_dump_path_def Let_def same_cache_def pid_part_def
      split: if_split_asm option.split_asm)

lemma open_image_same: "open_image env f vl op path ctx = (r, ctx') \<Longrightarrow> same_cache ctx ctx'"
  by (auto simp: open_image_def same_cache_def pid_part_def
      split: if_split_asm option.split_asm prod.split_asm sum.split_asm)

lemma unretired_entry:
  assumes "elf_cache_ok refs ctx" "elf_ctx_list ctx = xs @ (p, e) # ys" "retired e" "refs p + 1 < 2 ^ 64"
  shows "\<exists>ctx'. share_elf p ctx = Ok ctx' \<and> elf_cache_ok (refs(p := refs p + 1)) ctx' \<and> pid_part ctx' = pid_part ctx \<and>
    map fst (elf_ctx_list ctx') = map fst (elf_ctx_list ctx)"
proof -
  have T: "elf_table_ok refs ctx" using assms(1) by (simp add: elf_cache_ok_def)
  have d: "distinct (map fst (xs @ (p, e) # ys))" using T by (simp add: elf_table_ok_def assms(2))
  then have o: "p \<notin> fst ` set xs" "p \<notin> fst ` set ys" by auto
  have e: "get_elf ctx p = Some e" by (rule get_elf_at [OF assms(2) o(1)])
  have n0: "retired_elf_ctx_count (statistics ctx) \<noteq> 0"
    by (rule retired_count_pos [OF T, of "(p, e)"]) (simp_all add: assms(2,3))
  define e1 where "e1 = e\<lparr>retired := False, retire_deadline_ns := 0\<rparr>"
  obtain ctx1 where c1: "gu_unretire_elf_ctx p True ctx = Ok ctx1" "elf_ctx_list ctx1 = elf_ctx_list (put_elf p e1 ctx)"
      "elf_ctx_count (statistics ctx1) = elf_ctx_count (statistics ctx) + 1"
      "retired_elf_ctx_count (statistics ctx1) = retired_elf_ctx_count (statistics ctx) - 1"
      "next_retired_elf_deadline_ns ctx1 = next_retired_elf_deadline_ns ctx" "pid_part ctx1 = pid_part ctx"
    using n0 by (simp add: gu_unretire_elf_ctx_def e assms(3) e1_def pid_part_def)
  define ctx2 where "ctx2 = count_stat (\<lambda>s. s\<lparr>retired_elf_cache_hit := retired_elf_cache_hit s + 1\<rparr>) ctx1"
  have L2: "elf_ctx_list ctx2 = xs @ (p, e1) # ys"
    by (simp add: ctx2_def c1(2) put_elf_split [OF assms(2) o])
  have e2: "get_elf ctx2 p = Some e1" by (rule get_elf_at [OF L2 o(1)])
  define ctx3 where "ctx3 = put_elf p (e1\<lparr>refcnt := refcnt e1 + 1\<rparr>) ctx2"
  have L3: "elf_ctx_list ctx3 = xs @ (p, e1\<lparr>refcnt := refcnt e1 + 1\<rparr>) # ys"
    unfolding ctx3_def by (rule put_elf_split [OF L2 o])
  have "entry_ok refs (p, e)" using T by (simp add: elf_table_ok_def assms(2))
  then have "elf_table_ok (refs(p := refs p + 1)) ctx3"
    using assms(3,4) c1(3,4)
    by (intro table_splitI [OF T assms(2) L3]) (simp_all add: entry_ok_def e1_def ctx3_def ctx2_def)
  moreover have "deadline_ok (next_retired_elf_deadline_ns ctx3) (elf_ctx_list ctx3)"
    using assms(1) unfolding elf_cache_ok_def deadline_ok_def assms(2) L3
    by (auto simp: ctx3_def ctx2_def c1(5) e1_def)
  moreover have "share_elf p ctx = Ok ctx3"
    using e2 by (simp add: share_elf_def e assms(3) c1(1) ctx2_def ctx3_def)
  moreover have "pid_part ctx3 = pid_part ctx"
    using c1(6) by (simp add: pid_part_def ctx3_def ctx2_def)
  ultimately show ?thesis by (simp add: elf_cache_ok_def assms(2) L3)
qed

lemma share_elf_ok:
  assumes ok: "elf_cache_ok refs ctx" and p: "x \<in> set (elf_ctx_list ctx)" "refs (fst x) + 1 < 2 ^ 64"
  shows "\<exists>ctx'. share_elf (fst x) ctx = Ok ctx' \<and> elf_cache_ok (refs(fst x := refs (fst x) + 1)) ctx' \<and> pid_part ctx' = pid_part ctx \<and>
    map fst (elf_ctx_list ctx') = map fst (elf_ctx_list ctx)"
proof -
  obtain p e where x: "x = (p, e)" by (cases x)
  obtain xs ys where L: "elf_ctx_list ctx = xs @ (p, e) # ys" using p(1) x by (auto simp: in_set_conv_decomp)
  show ?thesis
  proof (cases "retired e")
    case True
    then show ?thesis using unretired_entry [OF ok L True] p(2) by (simp add: x)
  next
    case False
    have T: "elf_table_ok refs ctx" using ok by (simp add: elf_cache_ok_def)
    then have "distinct (map fst (xs @ (p, e) # ys))" by (simp add: elf_table_ok_def L)
    then have o: "p \<notin> fst ` set xs" "p \<notin> fst ` set ys" by auto
    have e: "get_elf ctx p = Some e" by (rule get_elf_at [OF L o(1)])
    define ctx3 where "ctx3 = put_elf p (e\<lparr>refcnt := refcnt e + 1\<rparr>) ctx"
    have L3: "elf_ctx_list ctx3 = xs @ (p, e\<lparr>refcnt := refcnt e + 1\<rparr>) # ys"
      unfolding ctx3_def by (rule put_elf_split [OF L o])
    have "entry_ok refs (p, e)" using T by (simp add: elf_table_ok_def L)
    then have "elf_table_ok (refs(p := refs p + 1)) ctx3"
      using False p(2) by (intro table_splitI [OF T L L3]) (simp_all add: entry_ok_def ctx3_def x)
    moreover have "deadline_ok (next_retired_elf_deadline_ns ctx3) (elf_ctx_list ctx3)"
      using ok False unfolding elf_cache_ok_def deadline_ok_def L L3 by (auto simp: ctx3_def)
    moreover have "share_elf p ctx = Ok ctx3" by (simp add: share_elf_def e False ctx3_def)
    moreover have "pid_part ctx3 = pid_part ctx" by (simp add: pid_part_def ctx3_def)
    ultimately show ?thesis by (simp add: elf_cache_ok_def x L L3)
  qed
qed

lemma add_drop_same:
  "same_cache ctx (add_tables e ctx)" "same_cache ctx (drop_tables e ctx)"
  by (simp_all add: same_cache_def add_tables_def drop_tables_def pid_part_def)

lemma insert_elf_ok:
  assumes ok: "elf_cache_ok refs ctx" and fresh: "addr \<notin> fst ` set (elf_ctx_list ctx)"
    and key: "build_id e \<notin> (build_id \<circ> snd) ` set (elf_ctx_list ctx)" and e: "refcnt e = 1" "\<not> retired e"
    and ins: "insert_elf addr e ctx = (r, ctx')"
  shows "(case r of None \<Rightarrow> elf_cache_ok refs ctx' | Some p \<Rightarrow> elf_cache_ok (refs(p := refs p + 1)) ctx') \<and>
    pid_part ctx' = pid_part ctx \<and> fst ` set (elf_ctx_list ctx') \<subseteq> insert addr (fst ` set (elf_ctx_list ctx))"
proof (cases "addr = 0")
  case True
  then show ?thesis
    using ins same_cache_ok [OF add_drop_same(2)] ok add_drop_same(2) [of ctx e]
    by (auto simp: insert_elf_def same_cache_def)
next
  case False
  have T: "elf_table_ok refs ctx" using ok by (simp add: elf_cache_ok_def)
  then have r0: "refs addr = 0" using fresh unfolding elf_table_ok_def by blast
  have c: "r = Some addr" "elf_ctx_list ctx' = elf_ctx_list ctx @ [(addr, e)]"
      "elf_ctx_count (statistics ctx') = elf_ctx_count (statistics ctx) + 1"
      "retired_elf_ctx_count (statistics ctx') = retired_elf_ctx_count (statistics ctx)"
      "next_retired_elf_deadline_ns ctx' = next_retired_elf_deadline_ns ctx" "pid_part ctx' = pid_part ctx"
    using ins False by (auto simp: insert_elf_def pid_part_def)
  have "entry_ok (refs(addr := 1)) x" if "x \<in> set (elf_ctx_list ctx)" for x
    using T that fresh by (auto simp: elf_table_ok_def list_all_iff entry_ok_def image_iff)
  then have "elf_table_ok (refs(addr := 1)) ctx'"
    using T fresh key e False c(3,4) by (auto simp: elf_table_ok_def c(2) list_all_iff entry_ok_def)
  moreover have "deadline_ok (next_retired_elf_deadline_ns ctx') (elf_ctx_list ctx')"
    using ok e(2) by (auto simp: elf_cache_ok_def deadline_ok_def c(2,5))
  ultimately show ?thesis using c(1,6) r0 by (simp add: elf_cache_ok_def c(2))
qed

lemma load_new_elf_ok:
  assumes ok: "elf_cache_ok refs ctx" and fresh: "le_elf_addr env \<notin> fst ` set (elf_ctx_list ctx)"
    and key: "key \<notin> (build_id \<circ> snd) ` set (elf_ctx_list ctx)"
    and load: "load_new_elf env pidn f replaced path v t key ctx = Ok (r, ctx')"
  shows "(case r of None \<Rightarrow> elf_cache_ok refs ctx' | Some p \<Rightarrow> elf_cache_ok (refs(p := refs p + 1)) ctx') \<and>
    pid_part ctx' = pid_part ctx \<and>
    fst ` set (elf_ctx_list ctx') \<subseteq> insert (le_elf_addr env) (fst ` set (elf_ctx_list ctx))"
proof -
  define ctx1 where "ctx1 = count_stat (\<lambda>s. s\<lparr>elf_ctx_alloc_count := elf_ctx_alloc_count s + 1\<rparr>) ctx"
  have s1: "same_cache ctx ctx1" by (simp add: same_cache_def ctx1_def pid_part_def)
  consider "r = None" "ctx' = ctx1"
    | e ctx2 where "same_cache ctx1 ctx2" "build_id e = key" "refcnt e = 1" "\<not> retired e"
        "insert_elf (le_elf_addr env) e ctx2 = (r, ctx')"
  proof -
    obtain rs va dp where a: "image_ranges env v = Ok (rs, va)"
        "choose_debug_path env (debug ctx1) pidn f replaced t key path = Ok dp"
      using load unfolding load_new_elf_def Let_def ctx1_def [symmetric] by (auto elim!: cbind_OkE)
    note l1 = load [unfolded load_new_elf_def Let_def ctx1_def [symmetric] a cbind.simps prod.case]
    show thesis
    proof (cases "debug_sections env path dp t")
      case (Ok t')
      obtain g cfi where b: "image_cfi env t' (cfi_defaults ctx1) = Ok (g, cfi)"
        using l1 unfolding Ok by (auto elim!: cbind_OkE)
      obtain syms where c: "image_symbols env ctx1 t' = Ok syms"
        using l1 unfolding Ok by (auto elim!: cbind_OkE)
      let ?c = "ctx1\<lparr>cfi_defaults := g, elf_frees := elf_frees ctx1 @ map Free_Name (fill_freed syms)\<rparr>"
      let ?e = "new_elf f path dp key (fst t' ELF_SCN_TYPE_GO_BUILD_ID \<noteq> None) syms cfi rs va"
      have "same_cache ctx1 ?c" by (simp add: same_cache_def pid_part_def)
      then have "same_cache ctx1 (add_tables ?e ?c)" by (rule same_cache_trans [OF _ add_drop_same(1)])
      moreover have "insert_elf (le_elf_addr env) ?e (add_tables ?e ?c) = (r, ctx')" using l1 by (simp add: Ok b c)
      ultimately show thesis by (intro that(2) [of _ ?e]) (simp_all add: new_elf_def)
    qed (use l1 that(1) in auto)
  qed
  then show ?thesis
  proof cases
    case 1
    then show ?thesis using ok same_cache_ok [OF s1] s1 by (auto simp: same_cache_def)
  next
    case 2
    have s2: "same_cache ctx ctx2" by (rule same_cache_trans [OF s1 2(1)])
    show ?thesis
      using insert_elf_ok [OF _ _ _ 2(3,4,5), of refs] ok same_cache_ok [OF s2] s2 fresh key 2(2)
      by (simp add: same_cache_def)
  qed
qed

text \<open>
  Whatever the file contains, a load that returns either leaves the references alone or adds the one
  it hands out.
\<close>

lemma load_elf_ok:
  assumes ok: "elf_cache_ok refs ctx" and fresh: "le_elf_addr env \<notin> fst ` set (elf_ctx_list ctx)"
    and bound: "\<And>p. refs p + 1 < 2 ^ 64"
    and load: "load_elf env pidn name open_path ctx = Ok (r, ctx')"
  shows "(case r of None \<Rightarrow> elf_cache_ok refs ctx' | Some p \<Rightarrow> elf_cache_ok (refs(p := refs p + 1)) ctx') \<and>
    pid_part ctx' = pid_part ctx \<and>
    fst ` set (elf_ctx_list ctx') \<subseteq> insert (le_elf_addr env) (fst ` set (elf_ctx_list ctx))"
proof -
  have none: ?thesis if "r = None" "same_cache ctx ctx'"
    using that ok same_cache_ok [OF that(2)] by (auto simp: same_cache_def)
  obtain n ctx1 where n: "image_name env name ctx = (n, ctx1)" by (cases "image_name env name ctx")
  have s1: "same_cache ctx ctx1" by (rule image_name_same [OF n])
  show ?thesis
  proof (cases "n = None \<or> \<not> le_base_ok env")
    case True
    then show ?thesis using load n s1 none by (auto simp: load_elf_def split: option.split_asm prod.split_asm)
  next
    case False
    then obtain f vl where f: "n = Some (f, vl)" and base: "(\<not> le_base_ok env) = False" by (cases n) auto
    note l1 = load [unfolded load_elf_def n f prod.case option.case base if_False]
    show ?thesis
    proof (cases "image_path env (debug ctx1) pidn f vl open_path")
      case None
      then show ?thesis using l1 s1 none by simp
    next
      case (Some path)
      obtain w ctx2 where w: "open_image env f vl open_path path ctx1 = (w, ctx2)"
        by (cases "open_image env f vl open_path path ctx1")
      have s2: "same_cache ctx ctx2" by (rule same_cache_trans [OF s1 open_image_same [OF w]])
      note l2 = l1 [unfolded Some w option.case prod.case]
      show ?thesis
      proof (cases w)
        case None
        then show ?thesis using l2 s2 none by simp
      next
        case (Some v)
        note l3 = l2 [unfolded Some option.case prod.case]
        show ?thesis
        proof (cases "view_begin v \<and> scan_all_elf_scn (view_strndx v) (view_scns v) ((\<lambda>_. None), 0) \<noteq> Fail")
          case False
          then show ?thesis using l3 s2 none by (auto split: if_split_asm)
        next
          case True
          then obtain t key where t: "scan_all_elf_scn (view_strndx v) (view_scns v) ((\<lambda>_. None), 0) = Ok t"
              "image_key env v t (base_of f) = Ok key"
            using l3 by (cases "scan_all_elf_scn (view_strndx v) (view_scns v) ((\<lambda>_. None), 0)") (auto elim!: cbind_OkE)
          have vb: "(\<not> view_begin v) = False" using True by simp
          note l4 = l3 [unfolded t cbind.simps cres.case vb if_False]
          have ok2: "elf_cache_ok refs ctx2" using ok same_cache_ok [OF s2] by simp
          have p2: "pid_part ctx2 = pid_part ctx" "elf_ctx_list ctx2 = elf_ctx_list ctx" using s2 by (simp_all add: same_cache_def)
          show ?thesis
          proof (cases "find (\<lambda>x. build_id (snd x) = key) (elf_ctx_list ctx2)")
            case None
            then have "key \<notin> (build_id \<circ> snd) ` set (elf_ctx_list ctx2)" unfolding find_None_iff comp_def by blast
            moreover have "load_new_elf env pidn f (open_path \<noteq> None) path v t key ctx2 = Ok (r, ctx')"
              using l4 None by simp
            ultimately show ?thesis using load_new_elf_ok [OF ok2 fresh [folded p2(2)]] p2 by simp
          next
            case (Some x)
            then have "x \<in> set (elf_ctx_list ctx2)" by (auto simp: find_Some_iff)
            from share_elf_ok [OF ok2 this bound] obtain ctx3 where c3: "share_elf (fst x) ctx2 = Ok ctx3"
                "elf_cache_ok (refs(fst x := refs (fst x) + 1)) ctx3" "pid_part ctx3 = pid_part ctx2"
                "map fst (elf_ctx_list ctx3) = map fst (elf_ctx_list ctx2)" by blast
            have "fst ` set (elf_ctx_list ctx3) = fst ` set (elf_ctx_list ctx)"
              using arg_cong [OF c3(4), of set] p2(2) by simp
            then show ?thesis using l4 [unfolded Some option.case] p2(1) c3(1-3) by auto
          qed
        qed
      qed
    qed
  qed
qed

end
