(* ===== verification/Pid_Ctx.thy ===== *)
theory Pid_Ctx
  imports Elf_Load
begin

text \<open>
  Process contexts, in \<open>src/gu_stacktrace.c\<close>: loading the executable mappings of a process, the
  per-mapping references to ELF images, the throttled reload on a program-counter miss, destruction,
  and the events and private data of a process.

  \<^item> A process context is found by its process id; the hash table is the list \<open>pid_ctx_list\<close>.
  \<^item> \<open>pid_env\<close> is what the system answers while one process is loaded. \<open>pe_map_addr\<close> and the ELF
    addresses are what \<open>calloc\<close> returns, 0 on failure.
  \<^item> A registered listener sees \<open>pid_events\<close>.
\<close>

unbundle bit_operations_syntax

record pid_env =
  pe_file :: "string list option"
  pe_maps_malloc :: bool
  pe_maps_realloc :: "nat \<Rightarrow> bool"
  pe_maps_strdup :: "nat \<Rightarrow> bool"
  pe_maps_shrink :: bool
  pe_items_ok :: bool
  pe_ctx_addr :: u64
  pe_load :: "nat \<Rightarrow> load_env"
  pe_map_addr :: "nat \<Rightarrow> u64"
  pe_array_ok :: bool
  pe_array_items_ok :: bool
  pe_comm :: "string option"
  pe_alive :: bool
  pe_private_ok :: bool
  pe_clk :: u64

definition find_pid :: "gu_context \<Rightarrow> int \<Rightarrow> per_pid_ctx option" where
  "find_pid ctx p = find (\<lambda>c. ctx_pid c = p) (pid_ctx_list ctx)"

definition put_pid :: "per_pid_ctx \<Rightarrow> gu_context \<Rightarrow> gu_context" where
  "put_pid c ctx = ctx\<lparr>pid_ctx_list := map (\<lambda>d. if ctx_pid d = ctx_pid c then c else d) (pid_ctx_list ctx)\<rparr>"

subsection \<open>Mapping contexts\<close>

definition gu_alloc_elf_map_ctx :: "u64 \<Rightarrow> elf_ptr option \<Rightarrow> u64 \<Rightarrow> gu_context \<Rightarrow> (u64 \<times> gu_context) cres" where
  "gu_alloc_elf_map_ctx addr elf vaddr ctx =
     (case elf of
        None \<Rightarrow> Ok (0, ctx)
      | Some p \<Rightarrow>
          if addr = 0 then Ok (0, ctx)
          else
            (case get_elf ctx p of
               None \<Rightarrow> Undef UseAfterFree
             | Some e \<Rightarrow>
                 Ok (addr, ctx\<lparr>map_ctxs := (map_ctxs ctx)(addr \<mapsto>
                       \<lparr>map_elf = p, map_exec_virt_addr = (if vaddr \<noteq> 0 then vaddr else exec_virt_addr e)\<rparr>)\<rparr>)))"

definition gu_resolve_map_exec_virt_addr :: "per_elf_ctx option \<Rightarrow> maps_info \<Rightarrow> u64" where
  "gu_resolve_map_exec_virt_addr elf m =
     (case elf of
        None \<Rightarrow> 0
      | Some e \<Rightarrow>
          if map_end m \<le> map_start m then 0
          else
            (case gu_elf_exec_ranges_find_by_offset (exec_ranges e) (map_offset m) (map_end m - map_start m) of
               None \<Rightarrow> 0 | Some va \<Rightarrow> va))"

definition gu_get_elf_ctx_from_item :: "gu_context \<Rightarrow> interval_array_item \<Rightarrow> (elf_ptr option \<times> u64) cres" where
  "gu_get_elf_ctx_from_item ctx it =
     (if ia_private it = 0 then Ok (None, 0)
      else
        let q = fst (get_interval_array_pointer (ia_private it)) in
        if q = 0 then Ok (None, 0)
        else
          (case map_ctxs ctx q of
             None \<Rightarrow> Undef UseAfterFree
           | Some m \<Rightarrow> Ok (Some (map_elf m), map_exec_virt_addr m)))"

text \<open>\<open>__private_clean_elf_ctx\<close> and its two callers.\<close>

definition private_clean_elf_ctx :: "u64 \<Rightarrow> u64 \<Rightarrow> gu_context \<Rightarrow> gu_context cres" where
  "private_clean_elf_ctx clk q ctx =
     (if q = 0 then Ok ctx
      else
        (case map_ctxs ctx q of
           None \<Rightarrow> Undef UseAfterFree
         | Some m \<Rightarrow>
             cbind (gu_put_elf_ctx clk (map_elf m) ctx) (\<lambda>ctx.
               Ok (ctx\<lparr>map_ctxs := (map_ctxs ctx)(q := None)\<rparr>))))"

fun gu_cleanup_elf_map_items :: "u64 \<Rightarrow> interval_array_item list \<Rightarrow> gu_context \<Rightarrow> gu_context cres" where
  "gu_cleanup_elf_map_items clk [] ctx = Ok ctx"
| "gu_cleanup_elf_map_items clk (it # its) ctx =
     cbind (private_clean_elf_ctx clk (fst (get_interval_array_pointer (ia_private it))) ctx)
       (gu_cleanup_elf_map_items clk its)"

subsection \<open>The reload throttle\<close>

abbreviation (input) GU_PID_MAPS_RELOAD_MIN_INTERVAL_NS :: u64 where "GU_PID_MAPS_RELOAD_MIN_INTERVAL_NS \<equiv> 30000000000"
abbreviation (input) GU_PID_MAPS_RELOAD_MAX_INTERVAL_NS :: u64 where "GU_PID_MAPS_RELOAD_MAX_INTERVAL_NS \<equiv> 90000000000"

definition xorshift :: "u64 \<Rightarrow> u64" where
  "xorshift x0 =
     (let x1 = x0 XOR push_bit 13 x0; x2 = x1 XOR drop_bit 7 x1 in x2 XOR push_bit 17 x2)"

definition gu_maps_reload_random_u64 :: "u64 \<Rightarrow> per_pid_ctx \<Rightarrow> u64 \<times> per_pid_ctx" where
  "gu_maps_reload_random_u64 clk c =
     (let x = maps_reload_rand_state c;
          x = (if x = 0 then push_bit 32 (ucast (word_of_int (ctx_pid c) :: u32)) XOR ctx_unique_id c XOR clk XOR pid_addr c
               else x);
          x = (if x = 0 then 0x9e3779b97f4a7c15 else x);
          x = xorshift x;
          x = (if x = 0 then 0xd1b54a32d192ed03 else x) in
      (x, c\<lparr>maps_reload_rand_state := x\<rparr>))"

definition gu_schedule_next_maps_reload :: "u64 \<Rightarrow> gu_context \<Rightarrow> per_pid_ctx \<Rightarrow> per_pid_ctx" where
  "gu_schedule_next_maps_reload clk ctx c =
     (let now = gu_cache_now_ns clk ctx;
          span = GU_PID_MAPS_RELOAD_MAX_INTERVAL_NS - GU_PID_MAPS_RELOAD_MIN_INTERVAL_NS;
          (r, c) = gu_maps_reload_random_u64 clk c;
          delay = GU_PID_MAPS_RELOAD_MIN_INTERVAL_NS + r mod (span + 1) in
      c\<lparr>last_maps_load_ns := now, next_maps_reload_ns := now + delay\<rparr>)"

definition gu_maps_reload_allowed :: "u64 \<Rightarrow> int \<Rightarrow> gu_context \<Rightarrow> (bool \<times> gu_context) cres" where
  "gu_maps_reload_allowed clk pidn ctx =
     (case find_pid ctx pidn of
        None \<Rightarrow> Undef UseAfterFree
      | Some c \<Rightarrow>
          let c = (if next_maps_reload_ns c = 0 then gu_schedule_next_maps_reload clk ctx c else c);
              ctx = put_pid c ctx in
          if next_maps_reload_ns c \<le> gu_cache_now_ns clk ctx then Ok (True, ctx)
          else Ok (False, count_stat (\<lambda>s. s\<lparr>pid_maps_reload_throttle_count := pid_maps_reload_throttle_count s + 1\<rparr>) ctx))"

subsection \<open>Loading a process\<close>

text \<open>A deleted mapping is opened through the live process: \<open>/proc/pid/exe\<close> or \<open>map_files\<close>.\<close>

definition live_open_path :: "bool \<Rightarrow> int \<Rightarrow> nat \<Rightarrow> maps_info \<Rightarrow> string option" where
  "live_open_path dbg pidn i m =
     (if dbg \<or> \<not> map_deleted m then None
      else if i = 0 then Some (snprintf 64 (''/proc/'' @ print_dec pidn @ ''/exe''))
      else Some (snprintf 64 (''/proc/'' @ print_dec pidn @ ''/map_files/'' @ map hex_char (hex_digits (unat (map_start m))) @ ''-'' @
                              map hex_char (hex_digits (unat (map_end m))))))"

text \<open>The loop over the mappings: the items filled so far, whether the first image is a Go binary, success.\<close>

fun load_items ::
  "pid_env \<Rightarrow> int \<Rightarrow> nat \<Rightarrow> maps_info list \<Rightarrow> gu_context \<Rightarrow> (interval_array_item list \<times> bool \<times> bool \<times> gu_context) cres" where
  "load_items env pidn i [] ctx = Ok ([], False, True, ctx)"
| "load_items env pidn i (m # ms) ctx =
     cbind (load_elf (pe_load env i) pidn (map_path m) (live_open_path (debug ctx) pidn i m) ctx) (\<lambda>(elf, ctx).
       let e = Option.bind elf (get_elf ctx);
           golang = (i = 0 \<and> (case e of None \<Rightarrow> False | Some x \<Rightarrow> elf_golang x)) in
       cbind (gu_alloc_elf_map_ctx (pe_map_addr env i) elf (gu_resolve_map_exec_virt_addr e m) ctx) (\<lambda>(q, ctx).
         if elf \<noteq> None \<and> q = 0 then
           cbind (gu_put_elf_ctx (pe_clk env) (the elf) ctx) (\<lambda>ctx. Ok ([], golang, False, ctx))
         else
           cbind (load_items env pidn (Suc i) ms ctx) (\<lambda>(items, g, ok, ctx).
             Ok (\<lparr>ia_start = map_start m, ia_end = map_end m,
                  ia_private = (if q = 0 then 0 else mark_interval_array_pointer_no_free q)\<rparr> # items,
                 golang \<or> g, ok, ctx))))"

definition gu_load_pid :: "pid_env \<Rightarrow> int \<Rightarrow> u64 \<Rightarrow> gu_context \<Rightarrow> (per_pid_ctx option \<times> gu_context) cres" where
  "gu_load_pid env pidn uid ctx =
     (case find_pid ctx pidn of
        Some c \<Rightarrow> Ok (Some c, ctx)
      | None \<Rightarrow>
          (case gu_get_maps_info (pe_maps_malloc env) (pe_maps_realloc env) (pe_maps_strdup env) (pe_maps_shrink env)
                  PERMISSION_X (pe_file env) of
             Undef k \<Rightarrow> Undef k
           | Fail \<Rightarrow> Ok (None, ctx)
           | Ok maps \<Rightarrow>
               if \<not> pe_items_ok env \<or> pe_ctx_addr env = 0 then Ok (None, ctx)
               else
                 cbind (load_items env pidn 0 maps
                          (count_stat (\<lambda>s. s\<lparr>pid_ctx_alloc_count := pid_ctx_alloc_count s + 1\<rparr>) ctx))
                   (\<lambda>(items, golang, ok, ctx).
                 if \<not> ok then cbind (gu_cleanup_elf_map_items (pe_clk env) items ctx) (\<lambda>ctx. Ok (None, ctx))
                 else
                   (case gu_interval_array_init (pe_array_ok env) (pe_array_items_ok env) items of
                      (None, items') \<Rightarrow>
                        cbind (gu_cleanup_elf_map_items (pe_clk env) items' ctx) (\<lambda>ctx. Ok (None, ctx))
                    | (Some arr, _) \<Rightarrow>
                        cbind (gu_get_pid_comm TASK_COMM_LEN (pe_comm env)) (\<lambda>(_, comm).
                        Ok (Some (gu_schedule_next_maps_reload (pe_clk env) ctx
                              \<lparr>pid_addr = pe_ctx_addr env, elf_map_list = Some arr, ctx_pid = pidn, ctx_comm = comm,
                               ctx_golang = golang, preload = False, ctx_unique_id = uid, last_maps_load_ns = 0,
                               next_maps_reload_ns = 0, maps_reload_rand_state = 0, pid_private = None\<rparr>), ctx))))))"

subsection \<open>Events, destruction and reload\<close>

definition notify :: "per_pid_ctx \<Rightarrow> gu_pid_ctx_event_type \<Rightarrow> gu_context \<Rightarrow> gu_context" where
  "notify c ty ctx =
     ctx\<lparr>pid_events := pid_events ctx @
           map (fst \<circ> snd) (gu_pid_ctx_event_notify_pid_ctx (ctx_pid c) (ctx_unique_id c) (Some (ctx_comm c)) ty [Some ((), ())])\<rparr>"

definition gu_clear_pid_ctx :: "u64 \<Rightarrow> int \<Rightarrow> gu_context \<Rightarrow> gu_context cres" where
  "gu_clear_pid_ctx clk pidn ctx =
     (case find_pid ctx pidn of
        None \<Rightarrow> Undef UseAfterFree
      | Some c \<Rightarrow>
          let ctx = count_stat (\<lambda>s. s\<lparr>pid_ctx_count := pid_ctx_count s - 1\<rparr>)
                      (ctx\<lparr>pid_ctx_list := filter (\<lambda>d. ctx_pid d \<noteq> pidn) (pid_ctx_list ctx)\<rparr>) in
          gu_interval_array_for_each_private (elf_map_list c) (\<lambda>q r. cbind r (private_clean_elf_ctx clk q)) (Ok ctx))"

definition add_pid :: "per_pid_ctx \<Rightarrow> gu_context \<Rightarrow> gu_context" where
  "add_pid c ctx =
     notify c GU_PID_CTX_EVENT_CREATE
       (count_stat (\<lambda>s. s\<lparr>pid_ctx_count := pid_ctx_count s + 1\<rparr>) (ctx\<lparr>pid_ctx_list := pid_ctx_list ctx @ [c]\<rparr>))"

definition hint_fp :: "per_pid_ctx \<Rightarrow> gu_stack_info \<Rightarrow> gu_stack_info" where
  "hint_fp c info = (if ctx_golang c then gu_flags_set info GU_FLAG_HINT_SET_FP else info)"

definition gu_reload_pid_ctx :: "pid_env \<Rightarrow> gu_stack_info \<Rightarrow> gu_context \<Rightarrow> (bool \<times> gu_stack_info \<times> gu_context) cres" where
  "gu_reload_pid_ctx env info ctx =
     (case find_pid ctx (pid info) of
        None \<Rightarrow> Undef UseAfterFree
      | Some old \<Rightarrow>
          let private_copy = (case pid_private old of
                                None \<Rightarrow> None
                              | Some b \<Rightarrow> if b \<noteq> [] \<and> pe_private_ok env then Some b else None) in
          cbind (gu_clear_pid_ctx (pe_clk env) (pid info) (notify old GU_PID_CTX_EVENT_DESTROY ctx)) (\<lambda>ctx.
          cbind (gu_load_pid env (pid info) (unique_id info) ctx) (\<lambda>(new, ctx).
            case new of
              None \<Rightarrow> Ok (False, info, ctx)
            | Some c \<Rightarrow>
                let c = c\<lparr>preload := preload old, pid_private := private_copy\<rparr> in
                Ok (True, hint_fp c info, add_pid c ctx))))"

text \<open>
  \<open>gu_search_pid_elf_ctx\<close>: the return value, the item, whether a reload happened, whether the process
  context still exists, the sample with its flags and the context.
\<close>

record search_state =
  ss_item :: interval_array_item
  ss_reloaded :: bool
  ss_pid :: bool
  ss_info :: gu_stack_info
  ss_ctx :: gu_context

definition blank_item :: interval_array_item where
  "blank_item = \<lparr>ia_start = 0, ia_end = 0, ia_private = 0\<rparr>"

definition search_maps :: "int \<Rightarrow> u64 \<Rightarrow> gu_context \<Rightarrow> interval_array_item \<Rightarrow> (int \<times> interval_array_item) cres" where
  "search_maps pidn pc ctx it =
     (case find_pid ctx pidn of
        None \<Rightarrow> Undef UseAfterFree
      | Some c \<Rightarrow>
          (case gu_interval_array_search (elf_map_list c) pc (Some it) of (ret, it') \<Rightarrow> Ok (ret, the it')))"

definition gu_search_pid_elf_ctx :: "pid_env \<Rightarrow> u64 \<Rightarrow> search_state \<Rightarrow> (int \<times> search_state) cres" where
  "gu_search_pid_elf_ctx env pc s =
     (if \<not> ss_pid s then Undef NullDeref
      else
        cbind (search_maps (pid (ss_info s)) pc (ss_ctx s) (ss_item s)) (\<lambda>(ret, it).
        let s = s\<lparr>ss_item := it\<rparr> in
        if 0 \<le> ret \<or> ss_reloaded s then Ok (ret, s)
        else
          cbind (gu_maps_reload_allowed (pe_clk env) (pid (ss_info s)) (ss_ctx s)) (\<lambda>(allowed, ctx).
          let s = s\<lparr>ss_ctx := ctx\<rparr> in
          if \<not> allowed then Ok (ret, s)
          else if \<not> debug ctx \<and> \<not> pe_alive env
          then Ok (ret, s\<lparr>ss_info := gu_flags_set_reason (ss_info s) GU_UNWIND_REASON_PROCESS_EXIT\<rparr>)
          else
            cbind (gu_reload_pid_ctx env (ss_info s)
                     (count_stat (\<lambda>t. t\<lparr>pid_maps_reload_count := pid_maps_reload_count t + 1\<rparr>) ctx)) (\<lambda>(ok, info, ctx).
            let s = s\<lparr>ss_reloaded := True, ss_pid := ok, ss_info := info, ss_ctx := ctx\<rparr> in
            if \<not> ok then Ok (ret, s)
            else
              cbind (search_maps (pid info) pc ctx blank_item) (\<lambda>(ret, it). Ok (ret, s\<lparr>ss_item := it\<rparr>))))))"

subsection \<open>Private data, exit and process identity\<close>

definition gu_set_pid_private_info :: "bool \<Rightarrow> int \<Rightarrow> bytes option \<Rightarrow> gu_context \<Rightarrow> gu_context" where
  "gu_set_pid_private_info malloc_ok pidn data ctx =
     (case find_pid ctx pidn of
        None \<Rightarrow> ctx
      | Some c \<Rightarrow>
          put_pid (c\<lparr>pid_private := (case data of
                                        None \<Rightarrow> None
                                      | Some b \<Rightarrow> if b \<noteq> [] \<and> malloc_ok then Some b else None)\<rparr>) ctx)"

definition gu_get_pid_private_info :: "bool \<Rightarrow> int \<Rightarrow> gu_context \<Rightarrow> (bytes \<times> int) option" where
  "gu_get_pid_private_info malloc_ok pidn ctx =
     (case find_pid ctx pidn of
        None \<Rightarrow> None
      | Some c \<Rightarrow>
          (case pid_private c of
             None \<Rightarrow> None
           | Some b \<Rightarrow> if b \<noteq> [] \<and> malloc_ok then Some (b, int (length b)) else None))"

definition gu_set_pid_exit_unique :: "u64 \<Rightarrow> int \<Rightarrow> u64 \<Rightarrow> gu_context \<Rightarrow> gu_context cres" where
  "gu_set_pid_exit_unique clk pidn uid ctx =
     (case find_pid ctx pidn of
        None \<Rightarrow> Ok ctx
      | Some c \<Rightarrow>
          if uid \<noteq> 0 \<and> ctx_unique_id c \<noteq> uid then Ok ctx
          else gu_clear_pid_ctx clk pidn (notify c GU_PID_CTX_EVENT_DESTROY ctx))"

definition gu_set_pid_exit :: "u64 \<Rightarrow> int \<Rightarrow> gu_context \<Rightarrow> gu_context cres" where
  "gu_set_pid_exit clk pidn ctx = gu_set_pid_exit_unique clk pidn 0 ctx"

text \<open>
  The start time is field 22 of \<open>/proc/pid/stat\<close>, counted after the last closing parenthesis.
  \<open>stat_field n s\<close> is what starts at the field \<open>n\<close> fields on; \<open>strtoull\<close> skips blanks, a sign and
  reads digits, with an error when the value does not fit.
\<close>

fun stat_field :: "nat \<Rightarrow> string \<Rightarrow> string option" where
  "stat_field n s =
     (let t = skip_space s in
      if t = [] then None
      else case n of 0 \<Rightarrow> Some t | Suc m \<Rightarrow> stat_field m (dropWhile (\<lambda>c. \<not> isspace c) t))"

declare stat_field.simps [simp del]

definition decimal :: "string \<Rightarrow> nat" where
  "decimal ds = foldl (\<lambda>n c. 10 * n + (of_char c - 48)) 0 ds"

definition strtoull :: "string \<Rightarrow> u64 option" where
  "strtoull s =
     (case scan_sign s of (neg, r) \<Rightarrow>
        let ds = takeWhile (\<lambda>c. c \<in> set ''0123456789'') r in
        if ds = [] \<or> 2 ^ 64 \<le> decimal ds then None
        else Some (if neg then - of_nat (decimal ds) else of_nat (decimal ds)))"

definition after_last_paren :: "string \<Rightarrow> string option" where
  "after_last_paren s =
     (if CHR '')'' \<in> set s then Some (rev (takeWhile (\<lambda>c. c \<noteq> CHR '')'') (rev s))) else None)"

definition stat_start_time :: "string option \<Rightarrow> u64" where
  "stat_start_time stat =
     (case Option.bind (Option.bind (map_option (take 4095) stat) after_last_paren) (stat_field 19) of
        None \<Rightarrow> 0 | Some t \<Rightarrow> (case strtoull t of None \<Rightarrow> 0 | Some v \<Rightarrow> v))"

definition gu_get_pid_unique_id :: "string option \<Rightarrow> int \<Rightarrow> gu_context \<Rightarrow> u64" where
  "gu_get_pid_unique_id stat pidn ctx =
     (if pidn \<le> 0 then 0
      else
        (case find_pid ctx pidn of
           Some c \<Rightarrow> if ctx_unique_id c \<noteq> 0 then ctx_unique_id c else stat_start_time stat
         | None \<Rightarrow> stat_start_time stat))"

subsection \<open>Ownership of the mapping contexts\<close>

text \<open>
  Every mapping context in the heap is owned by exactly one place: an item of one process context, or
  the items a load in progress has filled (\<open>extra\<close>). The reference count of an image is the number of
  mapping contexts that refer to it.
\<close>

definition arr_payloads :: "interval_array option \<Rightarrow> u64 list" where
  "arr_payloads array =
     (case array of None \<Rightarrow> []
      | Some arr \<Rightarrow> (case items_u32 arr of None \<Rightarrow> [] | Some xs \<Rightarrow> map private_u32 xs) @
                   (case items_u64 arr of None \<Rightarrow> [] | Some xs \<Rightarrow> map ia_private xs))"

definition untagged :: "u64 \<Rightarrow> u64" where
  "untagged p = fst (get_interval_array_pointer p)"

definition live_ptrs :: "u64 list \<Rightarrow> u64 list" where
  "live_ptrs ps = filter (\<lambda>q. q \<noteq> 0) (map untagged ps)"

definition owners :: "gu_context \<Rightarrow> u64 list" where
  "owners ctx = concat (map (\<lambda>c. live_ptrs (arr_payloads (elf_map_list c))) (pid_ctx_list ctx))"

definition heap_ok :: "u64 list \<Rightarrow> gu_context \<Rightarrow> bool" where
  "heap_ok extra ctx \<longleftrightarrow>
     distinct (owners ctx @ extra) \<and> set (owners ctx @ extra) = dom (map_ctxs ctx) \<and>
     (\<forall>q\<in>dom (map_ctxs ctx). q \<noteq> 0 \<and> \<not> bit q 63) \<and> distinct (map ctx_pid (pid_ctx_list ctx))"

definition refs_of :: "(u64 \<Rightarrow> per_elf_map_ctx option) \<Rightarrow> elf_ptr \<Rightarrow> nat" where
  "refs_of h p = card {q. \<exists>m. h q = Some m \<and> map_elf m = p}"

definition ctx_ok :: "u64 list \<Rightarrow> gu_context \<Rightarrow> bool" where
  "ctx_ok extra ctx \<longleftrightarrow> heap_ok extra ctx \<and> elf_cache_ok (refs_of (map_ctxs ctx)) ctx"

lemma finite_u64 [simp]: "finite (A :: u64 set)"
  by (rule finite_subset [OF subset_UNIV]) (simp add: card_word card_ge_0_finite)

lemma refs_of_add:
  assumes "h q = None"
  shows "refs_of (h(q \<mapsto> m)) = (refs_of h)(map_elf m := refs_of h (map_elf m) + 1)"
proof
  fix p
  have "{r. \<exists>n. (h(q \<mapsto> m)) r = Some n \<and> map_elf n = p} =
      {r. \<exists>n. h r = Some n \<and> map_elf n = p} \<union> (if map_elf m = p then {q} else {})"
    using assms by auto
  moreover have "q \<notin> {r. \<exists>n. h r = Some n \<and> map_elf n = p}" using assms by simp
  ultimately show "refs_of (h(q \<mapsto> m)) p = ((refs_of h)(map_elf m := refs_of h (map_elf m) + 1)) p"
    unfolding refs_of_def by (cases "map_elf m = p") (simp_all del: fun_upd_apply add: fun_upd_same fun_upd_other)
qed

lemma refs_of_remove:
  assumes "h q = Some m"
  shows "refs_of (h(q := None)) = (refs_of h)(map_elf m := refs_of h (map_elf m) - 1)"
proof -
  have "h = (h(q := None))(q \<mapsto> m)" using assms by auto
  then have "refs_of h = (refs_of (h(q := None)))(map_elf m := refs_of (h(q := None)) (map_elf m) + 1)"
    using refs_of_add [of "h(q := None)" q m] by simp
  then show ?thesis by (simp add: fun_eq_iff)
qed

lemma refs_of_pos: "h q = Some m \<Longrightarrow> refs_of h (map_elf m) \<noteq> 0"
  by (auto simp: refs_of_def card_eq_0_iff)

lemma refs_of_bound:
  assumes "\<forall>q\<in>dom h. q \<noteq> 0 \<and> \<not> bit q 63"
  shows "refs_of h p + 1 < 2 ^ 64"
proof -
  have b: "bit (push_bit 63 1 :: u64) 63" by (simp add: bit_simps)
  have "{q. \<exists>m. h q = Some m \<and> map_elf m = p} \<subseteq> UNIV - {0, push_bit 63 1}"
    using assms b by blast
  then have "refs_of h p \<le> card (UNIV - {0 :: u64, push_bit 63 1})"
    unfolding refs_of_def by (rule card_mono [rotated]) simp
  also have "\<dots> = 2 ^ 64 - 2" by (subst card_Diff_subset) (simp_all add: card_word)
  finally show ?thesis by simp
qed

subsection \<open>Giving references back\<close>

fun clean_ptrs :: "u64 \<Rightarrow> u64 list \<Rightarrow> gu_context \<Rightarrow> gu_context cres" where
  "clean_ptrs clk [] ctx = Ok ctx"
| "clean_ptrs clk (q # qs) ctx = cbind (private_clean_elf_ctx clk q ctx) (clean_ptrs clk qs)"

lemma clean_0 [simp]: "private_clean_elf_ctx clk 0 = Ok"
  by (simp add: private_clean_elf_ctx_def fun_eq_iff)

lemma cbind_Ok [simp]: "cbind m Ok = m"
  by (cases m) simp_all

lemma clean_ptrs_live: "clean_ptrs clk (map untagged ps) = clean_ptrs clk (live_ptrs ps)"
proof (rule ext, rename_tac ctx)
  fix ctx
  show "clean_ptrs clk (map untagged ps) ctx = clean_ptrs clk (live_ptrs ps) ctx"
    by (induction ps arbitrary: ctx) (auto simp: live_ptrs_def intro!: cbind_cong)
qed

lemma cleanup_items_eq: "gu_cleanup_elf_map_items clk its ctx = clean_ptrs clk (live_ptrs (map ia_private its)) ctx"
proof -
  have "gu_cleanup_elf_map_items clk its ctx = clean_ptrs clk (map untagged (map ia_private its)) ctx"
    by (induction its arbitrary: ctx) (auto simp: untagged_def intro!: cbind_cong)
  then show ?thesis by (simp only: clean_ptrs_live)
qed

lemma untagged_0 [simp]: "untagged 0 = 0"
  unfolding untagged_def by (subst get_plain) simp_all

lemma visit_clean_eq:
  "visit_payloads (\<lambda>q r. cbind r (private_clean_elf_ctx clk q)) ps r = cbind r (clean_ptrs clk (map untagged ps))"
proof (induction ps arbitrary: r)
  case (Cons p ps)
  have "visit_payloads (\<lambda>q r. cbind r (private_clean_elf_ctx clk q)) (p # ps) r =
      visit_payloads (\<lambda>q r. cbind r (private_clean_elf_ctx clk q)) ps
        (if p \<noteq> 0 then cbind r (private_clean_elf_ctx clk (untagged p)) else r)"
    by (simp add: visit_payloads_def untagged_def)
  then show ?case unfolding Cons.IH by (simp add: cbind_assoc)
next
  case Nil
  show ?case by (cases r) (simp_all add: visit_payloads_def)
qed

lemma for_each_clean_eq:
  "gu_interval_array_for_each_private arr (\<lambda>q r. cbind r (private_clean_elf_ctx clk q)) (Ok ctx) =
     clean_ptrs clk (live_ptrs (arr_payloads arr)) ctx"
proof -
  have "gu_interval_array_for_each_private arr func s = visit_payloads func (arr_payloads arr) s" for func and s :: "gu_context cres"
    by (auto simp: gu_interval_array_for_each_private_def arr_payloads_def visit_payloads_def Let_def split: option.split)
  then show ?thesis by (simp add: visit_clean_eq clean_ptrs_live)
qed

text \<open>What cleaning up keeps, and that it only takes addresses away.\<close>

definition pid_frame :: "gu_context \<Rightarrow> gu_context \<Rightarrow> bool" where
  "pid_frame ctx ctx' \<longleftrightarrow>
     pid_ctx_list ctx' = pid_ctx_list ctx \<and> timer ctx' = timer ctx \<and> pid_events ctx' = pid_events ctx \<and>
     pid_ctx_count (statistics ctx') = pid_ctx_count (statistics ctx) \<and> debug ctx' = debug ctx \<and>
     kernel_symbols ctx' = kernel_symbols ctx"

definition shrinks :: "gu_context \<Rightarrow> gu_context \<Rightarrow> bool" where
  "shrinks ctx ctx' \<longleftrightarrow> fst ` set (elf_ctx_list ctx') \<subseteq> fst ` set (elf_ctx_list ctx) \<and> dom (map_ctxs ctx') \<subseteq> dom (map_ctxs ctx)"

lemma pid_frame_refl [simp]: "pid_frame ctx ctx" and shrinks_refl [simp]: "shrinks ctx ctx"
  by (simp_all add: pid_frame_def shrinks_def)

lemma pid_frame_trans: "pid_frame a b \<Longrightarrow> pid_frame b c \<Longrightarrow> pid_frame a c"
  by (simp add: pid_frame_def)

lemma shrinks_trans: "shrinks a b \<Longrightarrow> shrinks b c \<Longrightarrow> shrinks a c"
  unfolding shrinks_def by blast

lemma clock_ok_frame: "pid_frame ctx ctx' \<Longrightarrow> clock_ok clk ctx' = clock_ok clk ctx"
  by (simp add: pid_frame_def clock_ok_def)

lemma private_clean_ok:
  assumes ok: "ctx_ok (q # extra) ctx" and clk: "clock_ok clk ctx"
  shows "\<exists>ctx'. private_clean_elf_ctx clk q ctx = Ok ctx' \<and> ctx_ok extra ctx' \<and> pid_frame ctx ctx' \<and> shrinks ctx ctx'"
proof -
  have H: "heap_ok (q # extra) ctx" and E: "elf_cache_ok (refs_of (map_ctxs ctx)) ctx" using ok by (simp_all add: ctx_ok_def)
  have "q \<in> dom (map_ctxs ctx)" using H unfolding heap_ok_def by auto
  then obtain m where m: "map_ctxs ctx q = Some m" and q0: "q \<noteq> 0" using H by (auto simp: heap_ok_def)
  obtain ctx1 where c1: "gu_put_elf_ctx clk (map_elf m) ctx = Ok ctx1"
      "elf_cache_ok ((refs_of (map_ctxs ctx))(map_elf m := refs_of (map_ctxs ctx) (map_elf m) - 1)) ctx1"
      "pid_part ctx1 = pid_part ctx" "map fst (elf_ctx_list ctx1) = map fst (elf_ctx_list ctx)"
    using gu_put_elf_ctx_ok [OF E refs_of_pos [where h = "map_ctxs ctx", OF m] clk] by blast
  define ctx2 where "ctx2 = ctx1\<lparr>map_ctxs := (map_ctxs ctx1)(q := None)\<rparr>"
  have h1: "map_ctxs ctx1 = map_ctxs ctx" and f: "pid_frame ctx ctx2"
    using c1(3) by (simp_all add: pid_part_def pid_frame_def ctx2_def)
  have "elf_cache_ok (refs_of (map_ctxs ctx2)) ctx1"
    using c1(2) refs_of_remove [where h = "map_ctxs ctx", OF m] by (simp add: ctx2_def h1)
  then have "elf_cache_ok (refs_of (map_ctxs ctx2)) ctx2"
    by (subst elf_cache_ok_frame [of ctx2 ctx1]) (simp_all add: ctx2_def)
  moreover have "heap_ok extra ctx2"
  proof -
    have "owners ctx2 = owners ctx" using f by (simp add: owners_def pid_frame_def)
    moreover have "dom (map_ctxs ctx2) = dom (map_ctxs ctx) - {q}" by (auto simp: ctx2_def h1)
    moreover have "distinct (owners ctx @ q # extra)" "set (owners ctx @ q # extra) = dom (map_ctxs ctx)"
      using H by (simp_all add: heap_ok_def)
    ultimately show ?thesis using H f unfolding heap_ok_def pid_frame_def by auto
  qed
  moreover have "private_clean_elf_ctx clk q ctx = Ok ctx2"
    using q0 c1(1) by (simp add: private_clean_elf_ctx_def m ctx2_def)
  moreover have "shrinks ctx ctx2"
    using arg_cong [OF c1(4), of set] by (auto simp: shrinks_def ctx2_def h1)
  ultimately show ?thesis using f by (auto simp: ctx_ok_def)
qed

lemma clean_ptrs_ok:
  assumes "ctx_ok (qs @ extra) ctx" "clock_ok clk ctx"
  shows "\<exists>ctx'. clean_ptrs clk qs ctx = Ok ctx' \<and> ctx_ok extra ctx' \<and> pid_frame ctx ctx' \<and> shrinks ctx ctx'"
  using assms
proof (induction qs arbitrary: ctx)
  case (Cons q qs)
  obtain ctx1 where c1: "private_clean_elf_ctx clk q ctx = Ok ctx1" "ctx_ok (qs @ extra) ctx1" "pid_frame ctx ctx1" "shrinks ctx ctx1"
    using private_clean_ok [of q "qs @ extra" ctx clk] Cons.prems by auto
  then obtain ctx2 where c2: "clean_ptrs clk qs ctx1 = Ok ctx2" "ctx_ok extra ctx2" "pid_frame ctx1 ctx2" "shrinks ctx1 ctx2"
    using Cons.IH [of ctx1] Cons.prems(2) clock_ok_frame [OF c1(3)] by auto
  then show ?case using c1 pid_frame_trans shrinks_trans by fastforce
qed simp

lemma ctx_ok_perm:
  assumes "mset xs = mset ys"
  shows "ctx_ok xs ctx = ctx_ok ys ctx"
proof -
  have "set xs = set ys" "distinct xs = distinct ys"
    using assms by (rule mset_eq_setD, rule mset_eq_imp_distinct_iff)
  then show ?thesis by (simp add: ctx_ok_def heap_ok_def)
qed

lemma find_pid_Some: "find_pid ctx pidn = Some c \<Longrightarrow> c \<in> set (pid_ctx_list ctx) \<and> ctx_pid c = pidn"
  by (auto simp: find_pid_def find_Some_iff)

text \<open>Destroying a process context gives back exactly its references.\<close>

lemma gu_clear_pid_ctx_ok:
  assumes ok: "ctx_ok extra ctx" and clk: "clock_ok clk ctx" and c: "find_pid ctx pidn = Some c"
  shows "\<exists>ctx'. gu_clear_pid_ctx clk pidn ctx = Ok ctx' \<and> ctx_ok extra ctx' \<and> shrinks ctx ctx' \<and>
    pid_ctx_list ctx' = filter (\<lambda>d. ctx_pid d \<noteq> pidn) (pid_ctx_list ctx) \<and> timer ctx' = timer ctx \<and>
    pid_events ctx' = pid_events ctx \<and> debug ctx' = debug ctx \<and> kernel_symbols ctx' = kernel_symbols ctx \<and>
    pid_ctx_count (statistics ctx') = pid_ctx_count (statistics ctx) - 1"
proof -
  obtain xs ys where L: "pid_ctx_list ctx = xs @ c # ys" "ctx_pid c = pidn"
    using find_pid_Some [OF c] split_list by fastforce
  have H: "heap_ok extra ctx" and E: "elf_cache_ok (refs_of (map_ctxs ctx)) ctx" using ok by (simp_all add: ctx_ok_def)
  have "distinct (map ctx_pid (xs @ c # ys))" using H L(1) by (simp add: heap_ok_def)
  then have "pidn \<notin> ctx_pid ` set xs" "pidn \<notin> ctx_pid ` set ys" using L(2) by simp_all
  then have "\<forall>d\<in>set xs. ctx_pid d \<noteq> pidn" "\<forall>d\<in>set ys. ctx_pid d \<noteq> pidn" by blast+
  then have f: "filter (\<lambda>d. ctx_pid d \<noteq> pidn) (pid_ctx_list ctx) = xs @ ys"
    using L by (simp add: filter_id_conv)
  define ctx1 where "ctx1 = count_stat (\<lambda>s. s\<lparr>pid_ctx_count := pid_ctx_count s - 1\<rparr>)
      (ctx\<lparr>pid_ctx_list := filter (\<lambda>d. ctx_pid d \<noteq> pidn) (pid_ctx_list ctx)\<rparr>)"
  have P1: "pid_ctx_list ctx1 = xs @ ys" by (simp add: ctx1_def f)
  have "ctx_ok (live_ptrs (arr_payloads (elf_map_list c)) @ extra) ctx1"
  proof -
    have "elf_cache_ok (refs_of (map_ctxs ctx1)) ctx1"
      using E by (subst elf_cache_ok_frame [of _ ctx]) (simp_all add: ctx1_def)
    moreover have "heap_ok (live_ptrs (arr_payloads (elf_map_list c)) @ extra) ctx1"
      using H L(1) unfolding heap_ok_def owners_def P1 by (auto simp: ctx1_def)
    ultimately show ?thesis by (simp add: ctx_ok_def)
  qed
  moreover have "clock_ok clk ctx1" using clk by (simp add: clock_ok_def ctx1_def)
  ultimately obtain ctx2 where c2: "clean_ptrs clk (live_ptrs (arr_payloads (elf_map_list c))) ctx1 = Ok ctx2"
      "ctx_ok extra ctx2" "pid_frame ctx1 ctx2" "shrinks ctx1 ctx2"
    using clean_ptrs_ok by blast
  have "gu_clear_pid_ctx clk pidn ctx = Ok ctx2"
    using c2(1) by (simp add: gu_clear_pid_ctx_def c Let_def ctx1_def [symmetric] for_each_clean_eq)
  then show ?thesis
    using c2(2-4) by (auto simp: pid_frame_def shrinks_def ctx1_def)
qed

subsection \<open>Taking references\<close>

text \<open>
  The allocator's contract for the blocks one load asks for: an address it returns is not in use, is
  given out once, and is a user-space address (bit 63 clear).
\<close>

definition env_fresh :: "nat \<Rightarrow> pid_env \<Rightarrow> gu_context \<Rightarrow> bool" where
  "env_fresh i env ctx \<longleftrightarrow>
     (\<forall>j\<ge>i. pe_map_addr env j \<noteq> 0 \<longrightarrow>
        pe_map_addr env j \<notin> dom (map_ctxs ctx) \<and> \<not> bit (pe_map_addr env j) 63 \<and>
        (\<forall>k\<ge>i. k \<noteq> j \<longrightarrow> pe_map_addr env k \<noteq> pe_map_addr env j)) \<and>
     (\<forall>j\<ge>i. le_elf_addr (pe_load env j) \<notin> fst ` set (elf_ctx_list ctx) \<and>
        (\<forall>k\<ge>i. k \<noteq> j \<longrightarrow> le_elf_addr (pe_load env k) = 0 \<or> le_elf_addr (pe_load env k) \<noteq> le_elf_addr (pe_load env j)))"

definition elf_addrs :: "pid_env \<Rightarrow> u64 set" where
  "elf_addrs env = range (\<lambda>i. le_elf_addr (pe_load env i))"

definition grows :: "pid_env \<Rightarrow> gu_context \<Rightarrow> gu_context \<Rightarrow> bool" where
  "grows env ctx ctx' \<longleftrightarrow>
     fst ` set (elf_ctx_list ctx') \<subseteq> fst ` set (elf_ctx_list ctx) \<union> elf_addrs env \<and>
     dom (map_ctxs ctx') \<subseteq> dom (map_ctxs ctx) \<union> range (pe_map_addr env)"

lemma shrinks_grows: "shrinks ctx ctx' \<Longrightarrow> grows env ctx ctx'"
  unfolding shrinks_def grows_def by blast

lemma grows_trans: "grows env a b \<Longrightarrow> grows env b c \<Longrightarrow> grows env a c"
  unfolding grows_def by blast

lemma pid_part_frame: "pid_part ctx' = pid_part ctx \<Longrightarrow> pid_frame ctx ctx' \<and> map_ctxs ctx' = map_ctxs ctx"
  by (simp add: pid_part_def pid_frame_def)

lemma heap_ok_frame: "pid_frame ctx ctx' \<Longrightarrow> map_ctxs ctx' = map_ctxs ctx \<Longrightarrow> heap_ok extra ctx' = heap_ok extra ctx"
  by (simp add: heap_ok_def owners_def pid_frame_def)

lemma env_fresh_Suc:
  assumes "env_fresh i env ctx" "fst ` set (elf_ctx_list ctx') \<subseteq> insert (le_elf_addr (pe_load env i)) (fst ` set (elf_ctx_list ctx))"
    and "0 \<notin> fst ` set (elf_ctx_list ctx')" "dom (map_ctxs ctx') \<subseteq> insert (pe_map_addr env i) (dom (map_ctxs ctx))"
  shows "env_fresh (Suc i) env ctx'"
proof -
  have M: "pe_map_addr env j \<notin> dom (map_ctxs ctx) \<and> \<not> bit (pe_map_addr env j) 63"
      "k \<ge> i \<Longrightarrow> k \<noteq> j \<Longrightarrow> pe_map_addr env k \<noteq> pe_map_addr env j" if "j \<ge> i" "pe_map_addr env j \<noteq> 0" for j k
    using assms(1) that unfolding env_fresh_def by simp_all
  have E: "le_elf_addr (pe_load env j) \<notin> fst ` set (elf_ctx_list ctx)"
      "k \<ge> i \<Longrightarrow> k \<noteq> j \<Longrightarrow> le_elf_addr (pe_load env k) = 0 \<or> le_elf_addr (pe_load env k) \<noteq> le_elf_addr (pe_load env j)"
    if "j \<ge> i" for j k
    using assms(1) that unfolding env_fresh_def by simp_all
  have "le_elf_addr (pe_load env j) \<notin> fst ` set (elf_ctx_list ctx')" if "j \<ge> Suc i" for j
  proof (cases "le_elf_addr (pe_load env j) = 0")
    case True
    then show ?thesis using assms(3) by simp
  next
    case False
    then have "le_elf_addr (pe_load env j) \<noteq> le_elf_addr (pe_load env i)" using E(2) [of i j] that by simp
    then show ?thesis using E(1) [of j] that assms(2) by auto
  qed
  moreover have "pe_map_addr env j \<notin> dom (map_ctxs ctx')" if "j \<ge> Suc i" "pe_map_addr env j \<noteq> 0" for j
    using M(1) [of j] M(2) [of j i] that assms(4) by auto
  ultimately show ?thesis
    unfolding env_fresh_def using M E by simp
qed

lemma elf_no_null: "elf_cache_ok refs ctx \<Longrightarrow> 0 \<notin> fst ` set (elf_ctx_list ctx)"
  by (auto simp: elf_cache_ok_def elf_table_ok_def list_all_iff entry_ok_def)

text \<open>One mapping context more: the reference the load handed out now has its owner.\<close>

lemma alloc_ctx_ok:
  assumes ok: "heap_ok extra ctx" "elf_cache_ok ((refs_of (map_ctxs ctx))(p := refs_of (map_ctxs ctx) p + 1)) ctx"
    and a: "a \<noteq> 0" "a \<notin> dom (map_ctxs ctx)" "\<not> bit a 63" and m: "map_elf m = p"
  shows "ctx_ok (a # extra) (ctx\<lparr>map_ctxs := (map_ctxs ctx)(a \<mapsto> m)\<rparr>)"
proof -
  let ?c = "ctx\<lparr>map_ctxs := (map_ctxs ctx)(a \<mapsto> m)\<rparr>"
  have "map_ctxs ctx a = None" using a(2) by blast
  then have r: "refs_of (map_ctxs ?c) = (refs_of (map_ctxs ctx))(p := refs_of (map_ctxs ctx) p + 1)"
    using refs_of_add [of "map_ctxs ctx" a m] m by simp
  have "elf_cache_ok (refs_of (map_ctxs ?c)) ?c"
    unfolding r using ok(2) by (subst elf_cache_ok_frame [of ?c ctx]) simp_all
  moreover have "owners ?c = owners ctx" by (simp add: owners_def)
  then have "heap_ok (a # extra) ?c"
    using ok(1) a unfolding heap_ok_def by auto
  ultimately show ?thesis by (simp add: ctx_ok_def)
qed

lemma untagged_mark: "\<not> bit q 63 \<Longrightarrow> untagged (mark_interval_array_pointer_no_free q) = q"
  by (simp add: untagged_def)

lemma live_ptrs_Cons: "live_ptrs (p # ps) = (if untagged p = 0 then [] else [untagged p]) @ live_ptrs ps"
  by (simp add: live_ptrs_def)

declare load_items.simps [simp del]

text \<open>The three ways one round of the loop goes.\<close>

lemma load_items_step:
  assumes "load_items env pidn i (m # ms) ctx = Ok (items, g, ok, ctx')"
  obtains
    (none) ctx1 items' g' where
      "load_elf (pe_load env i) pidn (map_path m) (live_open_path (debug ctx) pidn i m) ctx = Ok (None, ctx1)"
      "load_items env pidn (Suc i) ms ctx1 = Ok (items', g', ok, ctx')"
      "items = \<lparr>ia_start = map_start m, ia_end = map_end m, ia_private = 0\<rparr> # items'"
  | (full) p ctx1 where
      "load_elf (pe_load env i) pidn (map_path m) (live_open_path (debug ctx) pidn i m) ctx = Ok (Some p, ctx1)"
      "pe_map_addr env i = 0" "gu_put_elf_ctx (pe_clk env) p ctx1 = Ok ctx'" "items = []" "\<not> ok"
  | (more) p ctx1 mc items' g' where
      "load_elf (pe_load env i) pidn (map_path m) (live_open_path (debug ctx) pidn i m) ctx = Ok (Some p, ctx1)"
      "pe_map_addr env i \<noteq> 0" "map_elf mc = p"
      "load_items env pidn (Suc i) ms (ctx1\<lparr>map_ctxs := (map_ctxs ctx1)(pe_map_addr env i \<mapsto> mc)\<rparr>) = Ok (items', g', ok, ctx')"
      "items = \<lparr>ia_start = map_start m, ia_end = map_end m,
                ia_private = mark_interval_array_pointer_no_free (pe_map_addr env i)\<rparr> # items'"
proof -
  obtain elf ctx1 where l: "load_elf (pe_load env i) pidn (map_path m) (live_open_path (debug ctx) pidn i m) ctx = Ok (elf, ctx1)"
    using assms by (auto simp: load_items.simps elim!: cbind_OkE)
  note r = assms [unfolded load_items.simps l cbind.simps prod.case Let_def]
  show thesis
  proof (cases elf)
    case None
    then show thesis using r l by (auto simp: gu_alloc_elf_map_ctx_def elim!: cbind_OkE intro: none)
  next
    case (Some p)
    show thesis
    proof (cases "pe_map_addr env i = 0")
      case True
      then show thesis using r l Some by (intro full) (auto simp: gu_alloc_elf_map_ctx_def elim!: cbind_OkE)
    next
      case False
      then show thesis
        using r l Some by (cases "get_elf ctx1 p") (auto simp: gu_alloc_elf_map_ctx_def elim!: cbind_OkE intro!: more)
    qed
  qed
qed

lemma load_items_ok:
  assumes "ctx_ok extra ctx" "env_fresh i env ctx" "clock_ok (pe_clk env) ctx"
    and "load_items env pidn i ms ctx = Ok (items, g, ok, ctx')"
  shows "ctx_ok (live_ptrs (map ia_private items) @ extra) ctx' \<and> pid_frame ctx ctx' \<and> grows env ctx ctx'"
  using assms
proof (induction ms arbitrary: i extra ctx items g)
  case Nil
  then show ?case by (simp add: load_items.simps live_ptrs_def grows_def)
next
  case (Cons m ms)
  have H: "heap_ok extra ctx" and E: "elf_cache_ok (refs_of (map_ctxs ctx)) ctx" using Cons.prems(1) by (simp_all add: ctx_ok_def)
  have fresh: "le_elf_addr (pe_load env i) \<notin> fst ` set (elf_ctx_list ctx)" using Cons.prems(2) by (simp add: env_fresh_def)
  have bound: "refs_of (map_ctxs ctx) p + 1 < 2 ^ 64" for p using H by (intro refs_of_bound) (simp add: heap_ok_def)
  note load = load_elf_ok [OF E fresh bound]
  have addr: "le_elf_addr (pe_load env i) \<in> elf_addrs env" by (simp add: elf_addrs_def)
  from Cons.prems(4) show ?case
  proof (cases rule: load_items_step)
    case (none ctx1 items' g')
    have l: "elf_cache_ok (refs_of (map_ctxs ctx)) ctx1" "pid_part ctx1 = pid_part ctx"
        "fst ` set (elf_ctx_list ctx1) \<subseteq> insert (le_elf_addr (pe_load env i)) (fst ` set (elf_ctx_list ctx))"
      using load [OF none(1)] by simp_all
    have f: "pid_frame ctx ctx1" "map_ctxs ctx1 = map_ctxs ctx" using pid_part_frame [OF l(2)] by simp_all
    have "ctx_ok extra ctx1" using l(1) H heap_ok_frame [OF f] by (simp add: ctx_ok_def f(2))
    moreover have "env_fresh (Suc i) env ctx1"
      by (rule env_fresh_Suc [OF Cons.prems(2) l(3) elf_no_null [OF l(1)]]) (auto simp: f(2))
    ultimately have "ctx_ok (live_ptrs (map ia_private items') @ extra) ctx' \<and> pid_frame ctx1 ctx' \<and> grows env ctx1 ctx'"
      using Cons.IH [OF _ _ _ none(2)] Cons.prems(3) clock_ok_frame [OF f(1)] by blast
    moreover have "grows env ctx ctx1" using l(3) addr by (auto simp: grows_def f(2))
    ultimately show ?thesis
      using pid_frame_trans [OF f(1)] grows_trans by (auto simp: none(3) live_ptrs_Cons)
  next
    case (full p ctx1)
    have l: "elf_cache_ok ((refs_of (map_ctxs ctx))(p := refs_of (map_ctxs ctx) p + 1)) ctx1" "pid_part ctx1 = pid_part ctx"
        "fst ` set (elf_ctx_list ctx1) \<subseteq> insert (le_elf_addr (pe_load env i)) (fst ` set (elf_ctx_list ctx))"
      using load [OF full(1)] by simp_all
    have f: "pid_frame ctx ctx1" "map_ctxs ctx1 = map_ctxs ctx" using pid_part_frame [OF l(2)] by simp_all
    obtain c where c: "gu_put_elf_ctx (pe_clk env) p ctx1 = Ok c" "elf_cache_ok (refs_of (map_ctxs ctx)) c"
        "pid_part c = pid_part ctx1" "map fst (elf_ctx_list c) = map fst (elf_ctx_list ctx1)"
      using gu_put_elf_ctx_ok [OF l(1), of p] Cons.prems(3) clock_ok_frame [OF f(1)] by auto
    have [simp]: "c = ctx'" using c(1) full(3) by simp
    have f': "pid_frame ctx1 ctx'" "map_ctxs ctx' = map_ctxs ctx1" using pid_part_frame [OF c(3)] by simp_all
    have "ctx_ok extra ctx'"
      using c(2) H heap_ok_frame [OF f] heap_ok_frame [OF f'] by (simp add: ctx_ok_def f(2) f'(2))
    moreover have "grows env ctx ctx'"
      using l(3) addr arg_cong [OF c(4), of set] by (auto simp: grows_def f(2) f'(2))
    ultimately show ?thesis using pid_frame_trans [OF f(1) f'(1)] by (simp add: full(4) live_ptrs_def)
  next
    case (more p ctx1 mc items' g')
    let ?a = "pe_map_addr env i" and ?c = "ctx1\<lparr>map_ctxs := (map_ctxs ctx1)(pe_map_addr env i \<mapsto> mc)\<rparr>"
    have l: "elf_cache_ok ((refs_of (map_ctxs ctx))(p := refs_of (map_ctxs ctx) p + 1)) ctx1" "pid_part ctx1 = pid_part ctx"
        "fst ` set (elf_ctx_list ctx1) \<subseteq> insert (le_elf_addr (pe_load env i)) (fst ` set (elf_ctx_list ctx))"
      using load [OF more(1)] by simp_all
    have f: "pid_frame ctx ctx1" "map_ctxs ctx1 = map_ctxs ctx" using pid_part_frame [OF l(2)] by simp_all
    have a: "?a \<notin> dom (map_ctxs ctx)" "\<not> bit ?a 63" using Cons.prems(2) more(2) by (auto simp: env_fresh_def)
    have "ctx_ok (?a # extra) ?c"
      using l(1) H heap_ok_frame [OF f] a more(2,3) by (intro alloc_ctx_ok [where p = p]) (simp_all add: f(2))
    moreover have "env_fresh (Suc i) env ?c"
      using l(3) elf_no_null [OF l(1)] by (intro env_fresh_Suc [OF Cons.prems(2)]) (auto simp: f(2))
    moreover have fc: "pid_frame ctx ?c" using f(1) by (simp add: pid_frame_def)
    ultimately have "ctx_ok (live_ptrs (map ia_private items') @ ?a # extra) ctx' \<and> pid_frame ?c ctx' \<and> grows env ?c ctx'"
      using Cons.IH [OF _ _ _ more(4)] Cons.prems(3) clock_ok_frame [OF fc] by blast
    moreover have "grows env ctx ?c" using l(3) addr by (auto simp: grows_def f(2))
    moreover have "ctx_ok (live_ptrs (map ia_private items') @ ?a # extra) ctx' = ctx_ok (live_ptrs (map ia_private items) @ extra) ctx'"
      using more(2) a(2) by (intro ctx_ok_perm) (simp add: more(5) live_ptrs_Cons untagged_mark)
    ultimately show ?thesis using pid_frame_trans [OF fc] grows_trans by blast
  qed
qed

lemma live_ptrs_mset: "mset xs = mset ys \<Longrightarrow> mset (live_ptrs xs) = mset (live_ptrs ys)"
  by (simp add: live_ptrs_def)

lemma init_payloads:
  assumes "gu_interval_array_init ca ci items = (r, items')"
  shows "mset (map ia_private items') = mset (map ia_private items)"
    and "r = Some arr \<Longrightarrow> mset (arr_payloads r) = mset (map ia_private items)"
proof -
  have "items' = items \<or> items' = built items"
    using assms by (auto simp: gu_interval_array_init_def Let_def built_def split: if_split_asm)
  then show "mset (map ia_private items') = mset (map ia_private items)"
    using mset_built_privates [of items] by auto
  assume r: "r = Some arr"
  then have "fst (gu_interval_array_init ca ci items) = Some arr" using assms by simp
  then have "arr_payloads r = map ia_private (built items)"
    by (cases rule: init_Some_cases) (simp_all add: r arr_payloads_def narrow_item_def comp_def)
  then show "mset (arr_payloads r) = mset (map ia_private items)" using mset_built_privates [of items] by simp
qed

lemma schedule_sel [simp]:
  "elf_map_list (gu_schedule_next_maps_reload clk ctx c) = elf_map_list c"
  "ctx_pid (gu_schedule_next_maps_reload clk ctx c) = ctx_pid c"
  "ctx_unique_id (gu_schedule_next_maps_reload clk ctx c) = ctx_unique_id c"
  "ctx_comm (gu_schedule_next_maps_reload clk ctx c) = ctx_comm c"
  by (simp_all add: gu_schedule_next_maps_reload_def gu_maps_reload_random_u64_def Let_def)

lemma ctx_ok_count_stat:
  "(\<And>t. elf_ctx_count (f t) = elf_ctx_count t \<and> retired_elf_ctx_count (f t) = retired_elf_ctx_count t) \<Longrightarrow>
     ctx_ok extra (count_stat f ctx) = ctx_ok extra ctx"
  unfolding ctx_ok_def by (subst elf_cache_ok_frame [of _ ctx]) (simp_all add: heap_ok_def owners_def)

text \<open>
  Loading a process: when it fails every reference taken on the way has been given back, when it
  succeeds the new context owns exactly the references it took.
\<close>

lemma gu_load_pid_ok:
  assumes ok: "ctx_ok [] ctx" and fresh: "env_fresh 0 env ctx" and clk: "clock_ok (pe_clk env) ctx"
    and none: "find_pid ctx pidn = None" and load: "gu_load_pid env pidn uid ctx = Ok (r, ctx')"
  shows "pid_frame ctx ctx' \<and> grows env ctx ctx' \<and>
    (case r of None \<Rightarrow> ctx_ok [] ctx'
     | Some c \<Rightarrow> ctx_ok (live_ptrs (arr_payloads (elf_map_list c))) ctx' \<and> ctx_pid c = pidn \<and> ctx_unique_id c = uid \<and>
         (\<exists>arr. elf_map_list c = Some arr \<and> ia_ok arr))"
proof -
  define ctx0 where "ctx0 = count_stat (\<lambda>s. s\<lparr>pid_ctx_alloc_count := pid_ctx_alloc_count s + 1\<rparr>) ctx"
  have c0: "ctx_ok [] ctx0" "env_fresh 0 env ctx0" "clock_ok (pe_clk env) ctx0" "pid_frame ctx ctx0" "grows env ctx ctx0"
    using ok fresh clk by (simp_all add: ctx0_def ctx_ok_count_stat env_fresh_def clock_ok_def pid_frame_def grows_def)
  show ?thesis
  proof (cases "r = None \<and> ctx' = ctx")
    case True
    then show ?thesis using ok by (simp add: grows_def)
  next
    case False
    note l = load [unfolded gu_load_pid_def none option.case ctx0_def [symmetric]]
    obtain maps where m: "gu_get_maps_info (pe_maps_malloc env) (pe_maps_realloc env) (pe_maps_strdup env) (pe_maps_shrink env)
        PERMISSION_X (pe_file env) = Ok maps"
      using l False by (cases "gu_get_maps_info (pe_maps_malloc env) (pe_maps_realloc env) (pe_maps_strdup env) (pe_maps_shrink env)
        PERMISSION_X (pe_file env)") auto
    have al: "\<not> (\<not> pe_items_ok env \<or> pe_ctx_addr env = 0)"
    proof
      assume bad: "\<not> pe_items_ok env \<or> pe_ctx_addr env = 0"
      show False using l [unfolded m cres.case if_P [OF bad]] False by simp
    qed
    note l2 = l [unfolded m cres.case if_not_P [OF al]]
    obtain items g k ctx1 where i: "load_items env pidn 0 maps ctx0 = Ok (items, g, k, ctx1)"
      using l2 by (auto elim!: cbind_OkE)
    note l3 = l2 [unfolded i cbind.simps prod.case]
    have c1: "ctx_ok (live_ptrs (map ia_private items)) ctx1" "pid_frame ctx0 ctx1" "grows env ctx0 ctx1"
      using load_items_ok [OF c0(1-3) i] by simp_all
    have f1: "pid_frame ctx ctx1" "grows env ctx ctx1" "clock_ok (pe_clk env) ctx1"
      using pid_frame_trans [OF c0(4) c1(2)] grows_trans [OF c0(5) c1(3)] clk clock_ok_frame by blast+
    have clean: ?thesis if "gu_cleanup_elf_map_items (pe_clk env) its ctx1 = Ok ctx'" "r = None"
        "mset (map ia_private its) = mset (map ia_private items)" for its
    proof -
      have "ctx_ok (live_ptrs (map ia_private its)) ctx1"
        using c1(1) ctx_ok_perm [OF live_ptrs_mset [OF that(3)]] by simp
      then obtain c where "clean_ptrs (pe_clk env) (live_ptrs (map ia_private its)) ctx1 = Ok c" "ctx_ok [] c"
          "pid_frame ctx1 c" "shrinks ctx1 c"
        using clean_ptrs_ok [of "live_ptrs (map ia_private its)" "[]"] f1(3) by auto
      then show ?thesis
        using that(1,2) f1(1,2) pid_frame_trans grows_trans shrinks_grows by (auto simp: cleanup_items_eq)
    qed
    show ?thesis
    proof (cases "k")
      case False
      then show ?thesis using l3 clean [of items] by (auto elim!: cbind_OkE)
    next
      case True
      obtain a items' where ia: "gu_interval_array_init (pe_array_ok env) (pe_array_items_ok env) items = (a, items')"
        by (cases "gu_interval_array_init (pe_array_ok env) (pe_array_items_ok env) items")
      show ?thesis
      proof (cases a)
        case None
        then show ?thesis
          using l3 ia True clean [of items'] init_payloads(1) [OF ia] by (auto elim!: cbind_OkE)
      next
        case (Some arr)
        have "ctx' = ctx1 \<and> (\<exists>c. r = Some c \<and> elf_map_list c = Some arr \<and> ctx_pid c = pidn \<and> ctx_unique_id c = uid)"
          using l3 ia True Some by (auto elim!: cbind_OkE)
        moreover have "ctx_ok (live_ptrs (arr_payloads (Some arr))) ctx1"
          using c1(1) ctx_ok_perm [OF live_ptrs_mset [OF init_payloads(2) [OF ia Some]]] Some by simp
        moreover have "ia_ok arr" using init_ok [of "pe_array_ok env" "pe_array_items_ok env" items arr] ia Some by simp
        ultimately show ?thesis using f1 by auto
      qed
    qed
  qed
qed

subsection \<open>The whole context\<close>

text \<open>
  Besides the ownership invariant: every process context has a consistent index, a listener has seen one more creation than destruction of exactly
  the processes that have a context, and the statistics count the contexts.
\<close>

definition ev_count :: "gu_pid_ctx_event_type \<Rightarrow> int \<Rightarrow> gu_pid_ctx_event list \<Rightarrow> nat" where
  "ev_count ty p evs = length (filter (\<lambda>e. event_pid e = p \<and> event_type e = ty) evs)"

definition events_ok :: "gu_context \<Rightarrow> bool" where
  "events_ok ctx \<longleftrightarrow> (\<forall>p. ev_count GU_PID_CTX_EVENT_CREATE p (pid_events ctx) =
     ev_count GU_PID_CTX_EVENT_DESTROY p (pid_events ctx) + of_bool (p \<in> ctx_pid ` set (pid_ctx_list ctx)))"

definition arrays_ok :: "gu_context \<Rightarrow> bool" where
  "arrays_ok ctx \<longleftrightarrow> (\<forall>c\<in>set (pid_ctx_list ctx). case elf_map_list c of None \<Rightarrow> False | Some arr \<Rightarrow> ia_ok arr)"

definition world_ok :: "gu_context \<Rightarrow> bool" where
  "world_ok ctx \<longleftrightarrow> ctx_ok [] ctx \<and> arrays_ok ctx \<and> events_ok ctx \<and>
     pid_ctx_count (statistics ctx) = of_nat (length (pid_ctx_list ctx))"

lemma notify_sel [simp]:
  "pid_ctx_list (notify c ty ctx) = pid_ctx_list ctx" "map_ctxs (notify c ty ctx) = map_ctxs ctx"
  "timer (notify c ty ctx) = timer ctx" "statistics (notify c ty ctx) = statistics ctx"
  "elf_ctx_list (notify c ty ctx) = elf_ctx_list ctx" "debug (notify c ty ctx) = debug ctx"
  "next_retired_elf_deadline_ns (notify c ty ctx) = next_retired_elf_deadline_ns ctx"
  "find_pid (notify c ty ctx) = find_pid ctx" "kernel_symbols (notify c ty ctx) = kernel_symbols ctx"
  by (simp_all add: notify_def find_pid_def fun_eq_iff)

lemma notify_count:
  "ev_count ty' p (pid_events (notify c ty ctx)) = ev_count ty' p (pid_events ctx) + of_bool (p = ctx_pid c \<and> ty' = ty)"
  by (auto simp: notify_def gu_pid_ctx_event_notify_pid_ctx_def pid_ctx_event_notify_def ev_count_def Let_def)

lemma ctx_ok_notify [simp]: "ctx_ok extra (notify c ty ctx) = ctx_ok extra ctx"
  unfolding ctx_ok_def by (subst elf_cache_ok_frame [of _ ctx]) (simp_all add: heap_ok_def owners_def)

lemma find_pid_None: "find_pid ctx p = None \<longleftrightarrow> p \<notin> ctx_pid ` set (pid_ctx_list ctx)"
  unfolding find_pid_def find_None_iff by auto

lemma add_pid_ok:
  assumes "ctx_ok (live_ptrs (arr_payloads (elf_map_list c))) ctx" "events_ok ctx" "find_pid ctx (ctx_pid c) = None"
    and "pid_ctx_count (statistics ctx) = of_nat (length (pid_ctx_list ctx))"
    and "arrays_ok ctx" "elf_map_list c = Some arr" "ia_ok arr"
  shows "world_ok (add_pid c ctx)"
proof -
  let ?c = "count_stat (\<lambda>s. s\<lparr>pid_ctx_count := pid_ctx_count s + 1\<rparr>) (ctx\<lparr>pid_ctx_list := pid_ctx_list ctx @ [c]\<rparr>)"
  have new: "ctx_pid c \<notin> ctx_pid ` set (pid_ctx_list ctx)" using assms(3) by (simp add: find_pid_None)
  have "elf_cache_ok (refs_of (map_ctxs ?c)) ?c"
    using assms(1) unfolding ctx_ok_def by (subst elf_cache_ok_frame [of _ ctx]) simp_all
  moreover have "heap_ok [] ?c"
    using assms(1) new unfolding ctx_ok_def heap_ok_def owners_def by simp
  ultimately have "ctx_ok [] ?c" by (simp add: ctx_ok_def)
  moreover have "events_ok (add_pid c ctx)"
    unfolding events_ok_def
  proof
    fix p
    show "ev_count GU_PID_CTX_EVENT_CREATE p (pid_events (add_pid c ctx)) =
        ev_count GU_PID_CTX_EVENT_DESTROY p (pid_events (add_pid c ctx)) + of_bool (p \<in> ctx_pid ` set (pid_ctx_list (add_pid c ctx)))"
      using spec [OF assms(2) [unfolded events_ok_def], of p] new
      by (cases "p = ctx_pid c") (simp_all add: add_pid_def notify_count)
  qed
  moreover have "arrays_ok (add_pid c ctx)" using assms(5-7) by (auto simp: arrays_ok_def add_pid_def)
  ultimately show ?thesis using assms(4) by (simp add: world_ok_def add_pid_def)
qed

lemma clear_notified_ok:
  assumes ok: "world_ok ctx" and clk: "clock_ok clk ctx" and c: "find_pid ctx pidn = Some c"
  shows "\<exists>ctx'. gu_clear_pid_ctx clk pidn (notify c GU_PID_CTX_EVENT_DESTROY ctx) = Ok ctx' \<and> world_ok ctx' \<and>
    shrinks ctx ctx' \<and> timer ctx' = timer ctx \<and> debug ctx' = debug ctx \<and> kernel_symbols ctx' = kernel_symbols ctx \<and>
    pid_ctx_list ctx' = filter (\<lambda>d. ctx_pid d \<noteq> pidn) (pid_ctx_list ctx)"
proof -
  let ?n = "notify c GU_PID_CTX_EVENT_DESTROY ctx"
  have p: "ctx_pid c = pidn" "pidn \<in> ctx_pid ` set (pid_ctx_list ctx)" using find_pid_Some [OF c] by auto
  have "ctx_ok [] ?n" "clock_ok clk ?n" "find_pid ?n pidn = Some c"
    using ok clk c by (simp_all add: world_ok_def clock_ok_def)
  from gu_clear_pid_ctx_ok [OF this] obtain ctx' where c': "gu_clear_pid_ctx clk pidn ?n = Ok ctx'" "ctx_ok [] ctx'"
      "shrinks ?n ctx'" "pid_ctx_list ctx' = filter (\<lambda>d. ctx_pid d \<noteq> pidn) (pid_ctx_list ctx)" "timer ctx' = timer ctx"
      "pid_events ctx' = pid_events ?n" "debug ctx' = debug ctx" "kernel_symbols ctx' = kernel_symbols ctx"
      "pid_ctx_count (statistics ctx') = pid_ctx_count (statistics ctx) - 1"
    by auto
  have E: "ev_count GU_PID_CTX_EVENT_CREATE q (pid_events ctx) =
      ev_count GU_PID_CTX_EVENT_DESTROY q (pid_events ctx) + of_bool (q \<in> ctx_pid ` set (pid_ctx_list ctx))" for q
    using ok by (simp add: world_ok_def events_ok_def)
  have "q \<in> ctx_pid ` set (pid_ctx_list ctx') \<longleftrightarrow> q \<noteq> pidn \<and> q \<in> ctx_pid ` set (pid_ctx_list ctx)" for q
    by (auto simp: c'(4))
  then have "events_ok ctx'"
    unfolding events_ok_def c'(6) notify_count E using p by (simp add: of_bool_def)
  moreover have "pid_ctx_count (statistics ctx') = of_nat (length (pid_ctx_list ctx'))"
  proof -
    have "length (pid_ctx_list ctx) = length (pid_ctx_list ctx') + 1"
    proof -
      obtain xs ys where L: "pid_ctx_list ctx = xs @ c # ys" using find_pid_Some [OF c] split_list by fastforce
      have "distinct (map ctx_pid (xs @ c # ys))" using ok L by (simp add: world_ok_def ctx_ok_def heap_ok_def)
      then have "pidn \<notin> ctx_pid ` set xs" "pidn \<notin> ctx_pid ` set ys" using p(1) by simp_all
      then have "\<forall>d\<in>set xs. ctx_pid d \<noteq> pidn" "\<forall>d\<in>set ys. ctx_pid d \<noteq> pidn" by blast+
      then show ?thesis using p(1) by (simp add: c'(4) L)
    qed
    then show ?thesis using ok c'(9) by (simp add: world_ok_def)
  qed
  moreover have "shrinks ctx ctx'" using c'(3) by (simp add: shrinks_def)
  moreover have "arrays_ok ctx'" using ok by (auto simp: world_ok_def arrays_ok_def c'(4))
  ultimately show ?thesis using c' by (auto simp: world_ok_def)
qed

lemma gu_set_pid_exit_unique_ok:
  assumes "world_ok ctx" "clock_ok clk ctx"
  shows "\<exists>ctx'. gu_set_pid_exit_unique clk pidn uid ctx = Ok ctx' \<and> world_ok ctx' \<and> shrinks ctx ctx' \<and> timer ctx' = timer ctx \<and>
    (uid = 0 \<longrightarrow> find_pid ctx' pidn = None)"
proof (cases "find_pid ctx pidn")
  case None
  then show ?thesis using assms(1) by (simp add: gu_set_pid_exit_unique_def)
next
  case (Some c)
  show ?thesis
  proof (cases "uid \<noteq> 0 \<and> ctx_unique_id c \<noteq> uid")
    case True
    then show ?thesis using assms(1) Some by (auto simp: gu_set_pid_exit_unique_def)
  next
    case False
    obtain ctx' where "gu_clear_pid_ctx clk pidn (notify c GU_PID_CTX_EVENT_DESTROY ctx) = Ok ctx'" "world_ok ctx'"
        "shrinks ctx ctx'" "timer ctx' = timer ctx" "pid_ctx_list ctx' = filter (\<lambda>d. ctx_pid d \<noteq> pidn) (pid_ctx_list ctx)"
      using clear_notified_ok [OF assms Some] by blast
    then show ?thesis using False Some by (auto simp: gu_set_pid_exit_unique_def find_pid_None)
  qed
qed

lemma env_fresh_shrinks:
  assumes "shrinks ctx ctx'" "env_fresh i env ctx"
  shows "env_fresh i env ctx'"
proof -
  have "a \<notin> dom (map_ctxs ctx) \<Longrightarrow> a \<notin> dom (map_ctxs ctx')"
      "b \<notin> fst ` set (elf_ctx_list ctx) \<Longrightarrow> b \<notin> fst ` set (elf_ctx_list ctx')" for a b
    using assms(1) unfolding shrinks_def by blast+
  then show ?thesis using assms(2) unfolding env_fresh_def by presburger
qed

lemma hint_fp_pid [simp]: "pid (hint_fp c info) = pid info"
  by (simp add: hint_fp_def gu_flags_set_def)

lemma gu_reload_pid_ctx_ok:
  assumes ok: "world_ok ctx" and fresh: "env_fresh 0 env ctx" and clk: "clock_ok (pe_clk env) ctx"
    and r: "gu_reload_pid_ctx env info ctx = Ok (k, info', ctx')"
  shows "world_ok ctx' \<and> (k \<longleftrightarrow> find_pid ctx' (pid info) \<noteq> None) \<and> pid info' = pid info \<and> grows env ctx ctx' \<and>
    timer ctx' = timer ctx \<and> debug ctx' = debug ctx \<and>
    (k \<longrightarrow> (\<exists>old c. find_pid ctx (pid info) = Some old \<and> find_pid ctx' (pid info) = Some c \<and> preload c = preload old \<and>
       pid_private c = (case pid_private old of None \<Rightarrow> None | Some b \<Rightarrow> if b \<noteq> [] \<and> pe_private_ok env then Some b else None)))"
proof -
  obtain old where old: "find_pid ctx (pid info) = Some old" using r by (cases "find_pid ctx (pid info)") (auto simp: gu_reload_pid_ctx_def)
  obtain ctx1 where c1: "gu_clear_pid_ctx (pe_clk env) (pid info) (notify old GU_PID_CTX_EVENT_DESTROY ctx) = Ok ctx1" "world_ok ctx1"
      "shrinks ctx ctx1" "timer ctx1 = timer ctx" "debug ctx1 = debug ctx"
      "pid_ctx_list ctx1 = filter (\<lambda>d. ctx_pid d \<noteq> pid info) (pid_ctx_list ctx)"
    using clear_notified_ok [OF ok clk old] by blast
  have n1: "find_pid ctx1 (pid info) = None" by (auto simp: find_pid_None c1(6))
  have k1: "clock_ok (pe_clk env) ctx1" using clk by (simp add: clock_ok_def c1(4))
  obtain new ctx2 where l: "gu_load_pid env (pid info) (unique_id info) ctx1 = Ok (new, ctx2)"
    using r by (auto simp: gu_reload_pid_ctx_def old c1(1) Let_def elim!: cbind_OkE)
  have "ctx_ok [] ctx1" using c1(2) by (simp add: world_ok_def)
  note L = gu_load_pid_ok [OF this env_fresh_shrinks [OF c1(3) fresh] k1 n1 l]
  have f: "pid_frame ctx1 ctx2" "grows env ctx ctx2"
    using L grows_trans [OF shrinks_grows [OF c1(3)]] by blast+
  have e2: "events_ok ctx2" "arrays_ok ctx2" "pid_ctx_count (statistics ctx2) = of_nat (length (pid_ctx_list ctx2))"
      "find_pid ctx2 (pid info) = None"
    using c1(2) f(1) n1 by (simp_all add: world_ok_def events_ok_def arrays_ok_def pid_frame_def find_pid_def)
  show ?thesis
  proof (cases new)
    case None
    then show ?thesis
      using r L f e2 c1(4,5) by (auto simp: gu_reload_pid_ctx_def old c1(1) l world_ok_def pid_frame_def)
  next
    case (Some c)
    define c' where "c' = c\<lparr>preload := preload old, pid_private := (case pid_private old of None \<Rightarrow> None
        | Some b \<Rightarrow> if b \<noteq> [] \<and> pe_private_ok env then Some b else None)\<rparr>"
    have res: "k" "info' = hint_fp c' info" "ctx' = add_pid c' ctx2"
      using r by (auto simp: gu_reload_pid_ctx_def old c1(1) l Some c'_def Let_def)
    have c': "elf_map_list c' = elf_map_list c" "ctx_pid c' = pid info" using L Some by (simp_all add: c'_def)
    obtain arr where arr: "elf_map_list c = Some arr" "ia_ok arr" using L Some by auto
    have "world_ok ctx'"
      unfolding res(3) using L Some e2 arr c' by (intro add_pid_ok) simp_all
    moreover have "find_pid ctx' (pid info) = Some c'"
    proof -
      have "find P (xs @ [y]) = (case find P xs of None \<Rightarrow> if P y then Some y else None | Some z \<Rightarrow> Some z)" for P xs and y :: per_pid_ctx
        by (induction xs) auto
      then show ?thesis using c'(2) e2(4) by (simp add: find_pid_def res(3) add_pid_def)
    qed
    moreover have "grows env ctx ctx'" using f(2) by (simp add: grows_def res(3) add_pid_def)
    ultimately show ?thesis using res f(1) c1(4,5) old by (simp add: add_pid_def pid_frame_def) (simp add: c'_def)
  qed
qed

end
