(* ===== verification/Kernel_Syms.thy ===== *)
theory Kernel_Syms
  imports Elf_Cache
begin

text \<open>
  Kernel symbols, in \<open>src/gu_stacktrace.c\<close>: loading \<open>/proc/kallsyms\<close> into an interval index and a name
  table, and the two lookups.

  \<^item> The file is the list of its lines, \<open>None\<close> when it cannot be opened. \<open>dup\<close> gives the address of the
    copy of the n-th name, 0 when \<open>strdup\<close> fails; \<open>entry_ok\<close> says whether its hash entry is allocated.
  \<^item> \<open>g_ksym_items_count\<close>, the capacity kept between loads, is threaded through.
  \<^item> The items come from \<open>calloc\<close>, so their ends are zero; those in the part a later \<open>realloc\<close> adds are
    indeterminate, and building the index reads them.
  \<^item> The name table lists the newest entry first.
\<close>

record ksym_state =
  ks_items :: "interval_array_item list"
  ks_cap :: nat
  ks_clean :: nat
  ks_names :: "u64 \<Rightarrow> string option"
  ks_hash :: "(string \<times> u64) list"
  ks_mem :: u64

record ksym_env =
  ke_file :: "string list option"
  ke_items_ok :: bool
  ke_realloc_ok :: "nat \<Rightarrow> bool"
  ke_dup :: "nat \<Rightarrow> u64"
  ke_entry_ok :: "nat \<Rightarrow> bool"
  ke_array_ok :: bool
  ke_array_items_ok :: bool

definition ksym_lines :: "string list \<Rightarrow> nat" where
  "ksym_lines lines = length (filter (\<lambda>l. strstr l '' t '' \<or> strstr l '' T '') lines)"

text \<open>\<open>items_cap\<close> is an \<open>int\<close>: doubling it past 2^30 overflows.\<close>

function grow_cap :: "nat \<Rightarrow> nat \<Rightarrow> nat cres" where
  "grow_cap cap n =
     (if cap = 0 \<or> n \<le> cap then Ok cap
      else if 2 ^ 31 \<le> 2 * cap then Undef SignedOverflow
      else grow_cap (2 * cap) n)"
  by pat_completeness auto
termination
  by (relation "measure (\<lambda>(cap, n). n - cap)") auto

declare grow_cap.simps [simp del]

definition ksym_cap :: "nat \<Rightarrow> string list \<Rightarrow> nat cres" where
  "ksym_cap last_cap lines =
     (if last_cap \<noteq> 0 then Ok last_cap
      else if ksym_lines lines = 0 then Ok 1024
      else grow_cap 1 (ksym_lines lines))"

text \<open>\<open>sscanf(line, "%lx %c %511s", ...)\<close>, \<open>None\<close> unless all three are assigned.\<close>

definition scan_ksym :: "string \<Rightarrow> (u64 \<times> char \<times> string) option" where
  "scan_ksym line =
     Option.bind (scan_lx line) (\<lambda>(addr, r).
       case skip_space r of
         [] \<Rightarrow> None
       | c # r' \<Rightarrow> Option.bind (scan_s 511 r') (\<lambda>(name, _). Some (addr, c, name)))"

definition ksym_add :: "ksym_env \<Rightarrow> u64 \<Rightarrow> string \<Rightarrow> ksym_state \<Rightarrow> ksym_state" where
  "ksym_add env addr name s =
     (let i = length (ks_items s); p = ke_dup env i;
          s = s\<lparr>ks_items := ks_items s @ [\<lparr>ia_start = addr, ia_end = 0, ia_private = p\<rparr>]\<rparr> in
      if p = 0 then s
      else s\<lparr>ks_names := (ks_names s)(p \<mapsto> name),
             ks_hash := (if ke_entry_ok env i then (name, addr) # ks_hash s else ks_hash s),
             ks_mem := ks_mem s + of_nat (length name + 1)\<rparr>)"

fun ksym_loop :: "ksym_env \<Rightarrow> string list \<Rightarrow> ksym_state \<Rightarrow> ksym_state cres" where
  "ksym_loop env [] s = Ok s"
| "ksym_loop env (line # lines) s =
     (case scan_ksym line of
        None \<Rightarrow> ksym_loop env lines s
      | Some (addr, ty, name) \<Rightarrow>
          if ty \<noteq> CHR ''t'' \<and> ty \<noteq> CHR ''T'' then ksym_loop env lines s
          else if length (ks_items s) < ks_cap s then ksym_loop env lines (ksym_add env addr name s)
          else if 2 ^ 31 \<le> 2 * ks_cap s then Undef SignedOverflow
          else if \<not> ke_realloc_ok env (2 * ks_cap s) then Fail
          else ksym_loop env lines (ksym_add env addr name (s\<lparr>ks_cap := 2 * ks_cap s\<rparr>)))"

text \<open>The return value, the kept capacity and the context; a failed load changes only the capacity.\<close>

definition gu_load_kernel_symbols :: "ksym_env \<Rightarrow> nat \<Rightarrow> gu_context \<Rightarrow> (int \<times> nat \<times> gu_context) cres" where
  "gu_load_kernel_symbols env last_cap ctx =
     (case ke_file env of
        None \<Rightarrow> Ok (- 1, last_cap, ctx)
      | Some lines \<Rightarrow>
          cbind (ksym_cap last_cap lines) (\<lambda>cap.
          if \<not> ke_items_ok env then Ok (- 1, last_cap, ctx)
          else
            (case ksym_loop env lines \<lparr>ks_items = [], ks_cap = cap, ks_clean = cap, ks_names = (\<lambda>_. None),
                                       ks_hash = [], ks_mem = 0\<rparr> of
               Undef k \<Rightarrow> Undef k
             | Fail \<Rightarrow> Ok (- 1, last_cap, ctx)
             | Ok s \<Rightarrow>
                 if ks_clean s < length (ks_items s) then Undef Uninitialised
                 else
                   (case gu_interval_array_init (ke_array_ok env) (ke_array_items_ok env) (ks_items s) of
                      (None, _) \<Rightarrow> Ok (- 1, ks_cap s, ctx)
                    | (Some arr, _) \<Rightarrow>
                        Ok (0, ks_cap s,
                            count_stat (\<lambda>t. t\<lparr>kernel_symbols_mem_size := ks_mem s\<rparr>)
                              (ctx\<lparr>kernel_symbols := Some arr, kernel_names := ks_names s,
                                   kernel_symbol_hash := ks_hash s\<rparr>))))))"

text \<open>\<open>buf\<close> is the size of the caller's buffer, \<open>None\<close> when there is none; the result holds the string in it and the offset.\<close>

definition gu_search_kernel_symbol :: "u64 \<Rightarrow> nat option \<Rightarrow> gu_context \<Rightarrow> (string \<times> u64) cres" where
  "gu_search_kernel_symbol addr buf ctx =
     (case kernel_symbols ctx of
        None \<Rightarrow> Fail
      | Some arr \<Rightarrow>
          (case gu_interval_array_search (Some arr) addr (Some \<lparr>ia_start = 0, ia_end = 0, ia_private = 0\<rparr>) of
             (ret, item) \<Rightarrow>
               if ret < 0 then Fail
               else
                 let off = addr - ia_start (the item); p = ia_private (the item) in
                 (case buf of
                    None \<Rightarrow> Ok ([], off)
                  | Some len \<Rightarrow>
                      if len = 0 then Ok ([], off)
                      else if p = 0 then Undef NullDeref
                      else (case kernel_names ctx p of
                              None \<Rightarrow> Undef WildPointer
                            | Some name \<Rightarrow> Ok (c_string ((strncpy len name)[len - 1 := NUL]), off)))))"

definition gu_search_kernel_address :: "string \<Rightarrow> gu_context \<Rightarrow> u64" where
  "gu_search_kernel_address name ctx =
     (case map_of (kernel_symbol_hash ctx) name of None \<Rightarrow> 0 | Some addr \<Rightarrow> addr)"

subsection \<open>The file as the kernel prints it\<close>

definition ksym_line :: "u64 \<times> char \<times> string \<Rightarrow> string" where
  "ksym_line x = (case x of (addr, ty, name) \<Rightarrow> print_hex (unat addr) @ '' '' @ [ty] @ '' '' @ name @ [CHR 0x0a])"

definition ksym_ok :: "u64 \<times> char \<times> string \<Rightarrow> bool" where
  "ksym_ok x \<longleftrightarrow> (case x of (addr, ty, name) \<Rightarrow> word name \<and> length name \<le> 511 \<and> NUL \<notin> set name \<and> \<not> isspace ty \<and>
     UINT32_MAX \<le> addr \<and> addr < UINT64_MAX - 1)"

definition text_syms :: "(u64 \<times> char \<times> string) list \<Rightarrow> (u64 \<times> string) list" where
  "text_syms xs = [(addr, name). (addr, ty, name) \<leftarrow> xs, ty = CHR ''t'' \<or> ty = CHR ''T'']"

lemma scan_ksym_line:
  assumes "ksym_ok x"
  shows "scan_ksym (ksym_line x) = Some x"
proof -
  obtain addr ty name where x: "x = (addr, ty, name)" by (cases x)
  have n: "word name" "length name \<le> 511" "\<not> isspace ty" using assms by (simp_all add: x ksym_ok_def)
  let ?r = "ty # CHR '' '' # name @ [CHR 0x0a]"
  have "scan_lx (print_hex (unat addr) @ CHR '' '' # ?r) = Some (addr, CHR '' '' # ?r)"
    by (rule scan_lx_print) (simp_all add: hex_digit_def)
  moreover have "skip_space (CHR '' '' # ?r) = ?r" using n(3) by (simp add: skip_space_def isspace_def)
  moreover have "scan_s 511 (CHR '' '' # name @ [CHR 0x0a]) = Some (name, [CHR 0x0a])"
    by (rule scan_s_word [OF n(1,2)]) (simp add: isspace_def)
  ultimately show ?thesis by (simp add: scan_ksym_def ksym_line_def x)
qed

lemma strstr_append: "strstr s t \<Longrightarrow> strstr (r @ s) t"
  by (induction r) simp_all

lemma ksym_lines_enough: "length (text_syms xs) \<le> ksym_lines (map ksym_line xs)"
proof (induction xs)
  case Nil
  show ?case by (simp add: text_syms_def)
next
  case (Cons x xs)
  obtain addr ty name where x: "x = (addr, ty, name)" by (cases x)
  have "strstr (ksym_line x) ('' '' @ [ty] @ '' '')"
    unfolding ksym_line_def x prod.case by (rule strstr_append) simp
  then show ?case using Cons.IH by (auto simp: text_syms_def ksym_lines_def x)
qed

lemma grow_cap_ok: "0 < cap \<Longrightarrow> cap \<le> 2 ^ 30 \<Longrightarrow> n \<le> 2 ^ 30 \<Longrightarrow> \<exists>c. grow_cap cap n = Ok c \<and> n \<le> c \<and> 0 < c \<and> cap \<le> c"
proof (induction cap n rule: grow_cap.induct)
  case (1 cap n)
  show ?case
  proof (cases "n \<le> cap")
    case True
    then show ?thesis using 1(2) by (simp add: grow_cap.simps [of cap n])
  next
    case False
    then have c: "cap < 2 ^ 30" using 1(4) by simp
    show ?thesis
    proof (cases "2 * cap \<le> 2 ^ 30")
      case True
      then show ?thesis using 1 False c by (simp add: grow_cap.simps [of cap n]) force
    next
      case no: False
      then have "grow_cap (2 * cap) n = Ok (2 * cap)" using 1(4) by (simp add: grow_cap.simps [of "2 * cap" n])
      then show ?thesis using 1(2,4) False c no by (simp add: grow_cap.simps [of cap n])
    qed
  qed
qed

subsection \<open>What a load leaves behind\<close>

definition ksym_fill :: "ksym_env \<Rightarrow> (u64 \<times> string) list \<Rightarrow> ksym_state \<Rightarrow> ksym_state" where
  "ksym_fill env syms s = fold (\<lambda>(addr, name). ksym_add env addr name) syms s"

lemma text_syms_Cons:
  "text_syms ((addr, ty, name) # xs) = (if ty = CHR ''t'' \<or> ty = CHR ''T'' then [(addr, name)] else []) @ text_syms xs"
  by (simp add: text_syms_def)

lemma ksym_add_sel [simp]:
  "ks_cap (ksym_add env addr name s) = ks_cap s" "ks_clean (ksym_add env addr name s) = ks_clean s"
  "length (ks_items (ksym_add env addr name s)) = Suc (length (ks_items s))"
  by (simp_all add: ksym_add_def Let_def)

lemma ksym_loop_fill:
  assumes "\<forall>x\<in>set xs. ksym_ok x" "length (ks_items s) + length (text_syms xs) \<le> ks_cap s"
  shows "ksym_loop env (map ksym_line xs) s = Ok (ksym_fill env (text_syms xs) s)"
  using assms
proof (induction xs arbitrary: s)
  case Nil
  show ?case by (simp add: ksym_fill_def text_syms_def)
next
  case (Cons x xs)
  obtain addr ty name where x: "x = (addr, ty, name)" by (cases x)
  have "scan_ksym (ksym_line (addr, ty, name)) = Some (addr, ty, name)" using Cons.prems(1) scan_ksym_line [of x] x by simp
  then show ?case using Cons.prems Cons.IH [of s] Cons.IH [of "ksym_add env addr name s"]
    by (auto simp: x text_syms_Cons ksym_fill_def)
qed

lemma ksym_loop_length:
  assumes "\<forall>x\<in>set xs. ksym_ok x" "\<And>n. ke_realloc_ok env n" "length (ks_items s) + length (text_syms xs) \<le> 2 ^ 30"
    and "0 < ks_cap s" "length (ks_items s) \<le> ks_cap s"
  shows "\<exists>s'. ksym_loop env (map ksym_line xs) s = Ok s' \<and> ks_clean s' = ks_clean s \<and>
    length (ks_items s') = length (ks_items s) + length (text_syms xs)"
  using assms
proof (induction xs arbitrary: s)
  case Nil
  show ?case by (simp add: text_syms_def)
next
  case (Cons x xs)
  obtain addr ty name where x: "x = (addr, ty, name)" by (cases x)
  have sc: "scan_ksym (ksym_line (addr, ty, name)) = Some (addr, ty, name)" using Cons.prems(1) scan_ksym_line [of x] x by simp
  show ?case
  proof (cases "ty = CHR ''t'' \<or> ty = CHR ''T''")
    case False
    then show ?thesis using Cons.prems Cons.IH [of s] sc by (simp add: x text_syms_Cons)
  next
    case ty: True
    define s1 where "s1 = (if length (ks_items s) < ks_cap s then s else s\<lparr>ks_cap := 2 * ks_cap s\<rparr>)"
    have s1: "ks_items s1 = ks_items s" "ks_clean s1 = ks_clean s" "0 < ks_cap s1" "length (ks_items s) < ks_cap s1"
      using Cons.prems(4,5) by (auto simp: s1_def)
    have tot: "length (ks_items s) + Suc (length (text_syms xs)) \<le> 2 ^ 30"
      using Cons.prems(3) ty by (simp add: x text_syms_Cons)
    then have "\<not> length (ks_items s) < ks_cap s \<Longrightarrow> 2 * ks_cap s < 2 ^ 31" using Cons.prems(5) by simp
    then have "ksym_loop env (map ksym_line (x # xs)) s = ksym_loop env (map ksym_line xs) (ksym_add env addr name s1)"
      using ty sc Cons.prems(2) by (auto simp: x s1_def)
    moreover have "\<exists>s'. ksym_loop env (map ksym_line xs) (ksym_add env addr name s1) = Ok s' \<and> ks_clean s' = ks_clean s1 \<and>
        length (ks_items s') = Suc (length (ks_items s)) + length (text_syms xs)"
      using Cons.IH [of "ksym_add env addr name s1"] Cons.prems(1,2) tot s1 by simp
    ultimately show ?thesis using ty s1(2) by (auto simp: x text_syms_Cons)
  qed
qed

lemma ksym_fill_snoc: "ksym_fill env (syms @ [(addr, name)]) s = ksym_add env addr name (ksym_fill env syms s)"
  by (simp add: ksym_fill_def)

definition ksym_items :: "ksym_env \<Rightarrow> (u64 \<times> string) list \<Rightarrow> interval_array_item list" where
  "ksym_items env syms = map (\<lambda>i. \<lparr>ia_start = fst (syms ! i), ia_end = 0, ia_private = ke_dup env i\<rparr>) [0..<length syms]"

lemma ksym_items_snoc:
  "ksym_items env (syms @ [x]) = ksym_items env syms @ [\<lparr>ia_start = fst x, ia_end = 0, ia_private = ke_dup env (length syms)\<rparr>]"
  by (simp add: ksym_items_def nth_append)

lemma ksym_fill_result:
  fixes syms :: "(u64 \<times> string) list"
  assumes "\<forall>i<length syms. ke_dup env i \<noteq> 0 \<and> ke_entry_ok env i" "inj_on (ke_dup env) {..<length syms}" "ks_items s = []" "ks_hash s = []"
  shows "ks_items (ksym_fill env syms s) = ksym_items env syms \<and>
    ks_clean (ksym_fill env syms s) = ks_clean s \<and> ks_cap (ksym_fill env syms s) = ks_cap s \<and>
    ks_hash (ksym_fill env syms s) = rev (map (\<lambda>(a, n). (n, a)) syms) \<and>
    (\<forall>i<length syms. ks_names (ksym_fill env syms s) (ke_dup env i) = Some (snd (syms ! i)))"
  using assms(1,2)
proof (induction syms rule: rev_induct)
  case Nil
  show ?case using assms(3,4) by (simp add: ksym_fill_def ksym_items_def)
next
  case (snoc x syms)
  obtain addr name where x: "x = (addr, name)" by (cases x)
  have IH: "ks_items (ksym_fill env syms s) = ksym_items env syms \<and>
      ks_clean (ksym_fill env syms s) = ks_clean s \<and> ks_cap (ksym_fill env syms s) = ks_cap s \<and>
      ks_hash (ksym_fill env syms s) = rev (map (\<lambda>(a, n). (n, a)) syms) \<and>
      (\<forall>i<length syms. ks_names (ksym_fill env syms s) (ke_dup env i) = Some (snd (syms ! i)))"
    using snoc.prems by (intro snoc.IH) (auto intro: inj_on_subset)
  have len: "length (ksym_items env syms) = length syms" by (simp add: ksym_items_def)
  have ne: "ke_dup env i \<noteq> ke_dup env (length syms)" if "i < length syms" for i
    using that inj_onD [OF snoc.prems(2), of i "length syms"] by auto
  have "ke_dup env (length syms) \<noteq> 0" "ke_entry_ok env (length syms)" using snoc.prems(1) by simp_all
  then show ?case
    using IH ne by (auto simp: x ksym_fill_snoc ksym_add_def Let_def len ksym_items_snoc nth_append less_Suc_eq)
qed

text \<open>An open interval reaches to the next start.\<close>

lemma fill_ends_cover:
  assumes "sorted (map ia_start xs)" "distinct (map ia_start xs)" "\<forall>x\<in>set xs. ia_end x = 0" "x \<in> set xs"
    and "UINT32_MAX \<le> ia_start x" "addr < UINT64_MAX - 1" "\<forall>y\<in>set xs. ia_start y \<le> ia_start x \<or> addr < ia_start y"
  shows "\<exists>e\<in>set (fill_ends xs). ia_start e = ia_start x \<and> ia_private e = ia_private x \<and> addr < ia_end e"
  using assms
proof (induction xs rule: fill_ends.induct)
  case (3 a b rest)
  show ?case
  proof (cases "x = a")
    case True
    have "ia_start a < ia_start b" using 3(2,3) by (simp add: less_le)
    then have "addr < ia_start b" using 3(8) True by auto
    then show ?thesis using True 3(4) by simp
  next
    case False
    then have "\<exists>e\<in>set (fill_ends (b # rest)). ia_start e = ia_start x \<and> ia_private e = ia_private x \<and> addr < ia_end e"
      using 3 by (intro 3(1)) simp_all
    then show ?thesis by auto
  qed
qed (auto simp: not_less)

lemma strncpy_take:
  assumes "NUL \<notin> set name" "0 < len"
  shows "c_string ((strncpy len name)[len - 1 := NUL]) = take (len - 1) name"
proof -
  have l: "length (strncpy len name) = len" by (simp add: strncpy_def)
  have "(strncpy len name)[len - 1 := NUL] = take (len - 1) (strncpy len name) @ [NUL]"
    using assms(2) l by (simp add: upd_conv_take_nth_drop)
  moreover have "take (len - 1) (strncpy len name) = take (len - 1) name @ replicate (len - 1 - length name) NUL"
    by (simp add: strncpy_def min_def)
  moreover have "takeWhile (\<lambda>c. c \<noteq> NUL) (take (len - 1) name @ replicate k NUL @ [NUL]) = take (len - 1) name" for k
  proof -
    have "\<forall>c\<in>set (take (len - 1) name). c \<noteq> NUL" using assms(1) by (auto dest: in_set_takeD)
    then show ?thesis by (subst takeWhile_append2) (simp, cases k, simp_all)
  qed
  ultimately show ?thesis by (simp add: c_string_def)
qed

definition ksym_allocs_ok :: "ksym_env \<Rightarrow> nat \<Rightarrow> bool" where
  "ksym_allocs_ok env n \<longleftrightarrow> ke_items_ok env \<and> ke_array_ok env \<and> ke_array_items_ok env \<and>
     (\<forall>i<n. ke_dup env i \<noteq> 0 \<and> \<not> bit (ke_dup env i) 63 \<and> ke_entry_ok env i) \<and> inj_on (ke_dup env) {..<n}"

lemma load_printed:
  assumes "\<forall>x\<in>set xs. ksym_ok x" "ke_file env = Some (map ksym_line xs)" "length xs \<le> 2 ^ 30"
    and "ksym_allocs_ok env (length (text_syms xs))" "text_syms xs \<noteq> []"
  shows "\<exists>cap arr names st. gu_load_kernel_symbols env 0 ctx =
      Ok (0, cap, ctx\<lparr>kernel_symbols := Some arr, kernel_names := names,
                     kernel_symbol_hash := rev (map (\<lambda>(a, n). (n, a)) (text_syms xs)), statistics := st\<rparr>) \<and>
    interval_build (ksym_items env (text_syms xs)) = Some arr \<and>
    (\<forall>i<length (text_syms xs). names (ke_dup env i) = Some (snd (text_syms xs ! i)))"
proof -
  let ?syms = "text_syms xs"
  have len: "length ?syms \<le> ksym_lines (map ksym_line xs)" by (rule ksym_lines_enough)
  moreover have "0 < length ?syms" using assms(5) by simp
  ultimately have n0: "ksym_lines (map ksym_line xs) \<noteq> 0" by linarith
  have "ksym_lines (map ksym_line xs) \<le> length (map ksym_line xs)" unfolding ksym_lines_def by (rule length_filter_le)
  then have "ksym_lines (map ksym_line xs) \<le> 2 ^ 30" using assms(3) by simp
  then obtain cap where cap: "grow_cap 1 (ksym_lines (map ksym_line xs)) = Ok cap" "ksym_lines (map ksym_line xs) \<le> cap"
    using grow_cap_ok [of 1 "ksym_lines (map ksym_line xs)"] by auto
  define s0 where "s0 = \<lparr>ks_items = [], ks_cap = cap, ks_clean = cap, ks_names = (\<lambda>_. None), ks_hash = [], ks_mem = 0\<rparr>"
  define s1 where "s1 = ksym_fill env ?syms s0"
  have loop: "ksym_loop env (map ksym_line xs) s0 = Ok s1"
    unfolding s1_def using len cap(2) by (intro ksym_loop_fill [OF assms(1)]) (simp add: s0_def)
  have r: "ks_items s1 = ksym_items env ?syms" "ks_clean s1 = cap" "ks_hash s1 = rev (map (\<lambda>(a, n). (n, a)) ?syms)"
      "\<forall>i<length ?syms. ks_names s1 (ke_dup env i) = Some (snd (?syms ! i))"
    using ksym_fill_result [of ?syms env s0] assms(4) by (simp_all add: s1_def s0_def ksym_allocs_ok_def)
  have il: "length (ksym_items env ?syms) = length ?syms" by (simp add: ksym_items_def)
  then have "ksym_items env ?syms \<noteq> []" using assms(5) by auto
  then obtain arr where arr: "interval_build (ksym_items env ?syms) = Some arr" using interval_build_Some by blast
  then obtain its where its: "gu_interval_array_init True True (ksym_items env ?syms) = (Some arr, its)"
    by (cases "gu_interval_array_init True True (ksym_items env ?syms)") (simp add: interval_build_def)
  have "\<not> cap < length ?syms" using len cap(2) by simp
  then show ?thesis
    using assms(2,4) cap(1) n0 loop its arr r
    by (auto simp: gu_load_kernel_symbols_def ksym_cap_def s0_def [symmetric] il ksym_allocs_ok_def count_stat_def)
qed


definition sample_ksyms :: "(u64 \<times> char \<times> string) list" where
  "sample_ksyms = [(0xffffffff81000000, CHR ''T'', ''_stext''), (0xffffffff82000000, CHR ''D'', ''jiffies''),
     (0xffffffff81000400, CHR ''t'', ''do_one_initcall'')]"

definition sample_ksym_env :: ksym_env where
  "sample_ksym_env = \<lparr>ke_file = Some (map ksym_line sample_ksyms), ke_items_ok = True, ke_realloc_ok = (\<lambda>_. True),
     ke_dup = (\<lambda>i. 0x1000 + 0x40 * of_nat i), ke_entry_ok = (\<lambda>_. True), ke_array_ok = True, ke_array_items_ok = True\<rparr>"

lemma sample_ksyms_ok: "\<forall>x\<in>set sample_ksyms. ksym_ok x"
    "text_syms sample_ksyms = [(0xffffffff81000000, ''_stext''), (0xffffffff81000400, ''do_one_initcall'')]"
  by (simp_all add: sample_ksyms_def ksym_ok_def word_def isspace_def NUL_def text_syms_def)

lemma sample_ksym_allocs: "ksym_allocs_ok sample_ksym_env (Suc (Suc 0))"
  by (auto simp: ksym_allocs_ok_def sample_ksym_env_def less_Suc_eq lessThan_Suc bit_numeral_rec)


text \<open>
  C38. A finding: when a later load finds more text symbols than the capacity kept from the first one,
  the items that \<open>realloc\<close> added have indeterminate ends, and building the index reads them.
\<close>

theorem kernel_reload_uninitialised:
  assumes "\<forall>x\<in>set xs. ksym_ok x" "ke_file env = Some (map ksym_line xs)" "ke_items_ok env" "\<And>n. ke_realloc_ok env n"
    and "0 < last_cap" "last_cap < length (text_syms xs)" "length (text_syms xs) \<le> 2 ^ 30"
  shows "gu_load_kernel_symbols env last_cap ctx = Undef Uninitialised"
proof -
  define s0 where "s0 = \<lparr>ks_items = [], ks_cap = last_cap, ks_clean = last_cap, ks_names = (\<lambda>_. None), ks_hash = [], ks_mem = 0\<rparr>"
  obtain s' where "ksym_loop env (map ksym_line xs) s0 = Ok s'" "ks_clean s' = last_cap" "length (ks_items s') = length (text_syms xs)"
    using ksym_loop_length [OF assms(1,4), of s0] assms(5,7) by (auto simp: s0_def)
  then show ?thesis using assms(2,3,5,6) by (simp add: gu_load_kernel_symbols_def ksym_cap_def s0_def [symmetric])
qed

theorem kernel_reload_uninitialised_witness:
  "\<forall>ctx. gu_load_kernel_symbols sample_ksym_env 1 ctx = Undef Uninitialised"
  by (rule allI, rule kernel_reload_uninitialised [OF sample_ksyms_ok(1)]) (simp_all add: sample_ksym_env_def sample_ksyms_ok(2))

end
