(* ===== verification/Gu_Context.thy ===== *)
theory Gu_Context
  imports Pid_Ctx Kernel_Syms
begin

text \<open>
  The life of a context, in \<open>src/gu_stacktrace.c\<close>: creation, destruction, external events and
  preloading a process.

  \<^item> Globals of the library that outlive a context (the availability of \<open>openat2\<close>, the cached default
    CFI rules, the kept symbol capacity) are arguments of \<open>gu_init\<close>.
  \<^item> \<open>gu_cleanup\<close> returns what is left of the context when the block itself is freed, with the symbol
    names it freed and the file it unlinked.
\<close>

record gu_init_cfg =
  cfg_debug_print :: bool
  cfg_go_not_strip_name :: bool
  cfg_go_buildid_only :: bool

datatype gu_event_type = GU_EVENT_PROCESS_EXIT | GU_EVENT_MODULE_RELOAD

definition zero_statistics :: gu_statistics where
  "zero_statistics =
     \<lparr>elf_ctx_count = 0, pid_ctx_count = 0, elf_ctx_alloc_count = 0, pid_ctx_alloc_count = 0, retired_elf_ctx_count = 0,
      retired_elf_cache_hit = 0, retired_elf_expired = 0, pid_maps_reload_count = 0, pid_maps_reload_throttle_count = 0,
      symbols_mem_size = 0, cfi_mem_size = 0, cfi_data_mem_size = 0, kernel_symbols_mem_size = 0,
      unique_id_caused_reload_count = 0\<rparr>"

definition zero_context :: "availability \<Rightarrow> cfi_globals \<Rightarrow> gu_context" where
  "zero_context avail g =
     \<lparr>pid_ctx_list = [], elf_ctx_list = [], map_ctxs = Map.empty, next_retired_elf_deadline_ns = 0,
      timer = \<lparr>timer_started = False, timer_stop = False, sweep_pending = False, timer_now_ns = 0, timer_event_fd = False\<rparr>,
      debug = False, go_only_buildid = False, go_not_strip_name = False, statistics = zero_statistics,
      kernel_symbols = None, kernel_names = Map.empty, kernel_symbol_hash = [], vdso_dumped = False, vdso_file_path = [],
      openat2_avail = avail, cfi_defaults = g, pid_events = [], elf_frees = []\<rparr>"

text \<open>The outcomes of the system while a context is created.\<close>

record init_env =
  in_elf_version :: bool
  in_malloc :: bool
  in_eventfd :: bool
  in_thread :: bool
  in_clk :: u64
  in_ksyms :: ksym_env

definition gu_init ::
  "init_env \<Rightarrow> availability \<Rightarrow> cfi_globals \<Rightarrow> nat \<Rightarrow> gu_init_cfg \<Rightarrow> (gu_context option \<times> nat) cres" where
  "gu_init env avail g last_cap cfg =
     (if \<not> in_elf_version env \<or> \<not> in_malloc env then Ok (None, last_cap)
      else
        let ctx = (zero_context avail g)\<lparr>debug := cfg_debug_print cfg, go_only_buildid := cfg_go_buildid_only cfg,
                     go_not_strip_name := cfg_go_not_strip_name cfg\<rparr>;
            ctx = ctx\<lparr>timer := snd (gu_retire_timer_start (in_eventfd env) (in_thread env) (in_clk env) (timer ctx))\<rparr> in
        cbind (gu_load_kernel_symbols (in_ksyms env) last_cap ctx) (\<lambda>(_, cap, ctx). Ok (Some ctx, cap)))"

fun clear_pids :: "u64 \<Rightarrow> int list \<Rightarrow> gu_context \<Rightarrow> gu_context cres" where
  "clear_pids clk [] ctx = Ok ctx"
| "clear_pids clk (p # ps) ctx = cbind (gu_clear_pid_ctx clk p ctx) (clear_pids clk ps)"

definition gu_cleanup :: "u64 \<Rightarrow> gu_context \<Rightarrow> (u64 list \<times> string option \<times> gu_context) cres" where
  "gu_cleanup clk ctx =
     (let ctx = ctx\<lparr>timer := gu_retire_timer_stop (timer ctx)\<rparr>;
          names = gu_interval_array_destroy (kernel_symbols ctx);
          ctx = ctx\<lparr>kernel_symbols := None, kernel_names := Map.empty, kernel_symbol_hash := []\<rparr> in
      cbind (clear_pids clk (map ctx_pid (pid_ctx_list ctx)) ctx) (\<lambda>ctx.
      cbind (gu_retired_elf_sweep UINT64_MAX ctx) (\<lambda>ctx.
        Ok (names, if vdso_file_path ctx \<noteq> [] then Some (vdso_file_path ctx) else None, ctx))))"

text \<open>\<open>event_data\<close> is the process id the caller points to, \<open>None\<close> for a null pointer.\<close>

definition gu_event_occur ::
  "u64 \<Rightarrow> ksym_env \<Rightarrow> nat \<Rightarrow> gu_event_type \<Rightarrow> int option \<Rightarrow> gu_context \<Rightarrow> (nat \<times> gu_context) cres" where
  "gu_event_occur clk kenv last_cap ty event_data ctx =
     cbind (gu_maybe_sweep_retired_elf clk ctx) (\<lambda>ctx.
       case ty of
         GU_EVENT_PROCESS_EXIT \<Rightarrow>
           (case event_data of
              None \<Rightarrow> Ok (last_cap, ctx)
            | Some p \<Rightarrow> cbind (gu_set_pid_exit_unique clk p 0 ctx) (\<lambda>ctx. Ok (last_cap, ctx)))
       | GU_EVENT_MODULE_RELOAD \<Rightarrow>
           cbind (gu_load_kernel_symbols kenv last_cap ctx) (\<lambda>(_, cap, ctx). Ok (cap, ctx)))"

definition gu_preload_pid_debug_info :: "pid_env \<Rightarrow> string option \<Rightarrow> int \<Rightarrow> gu_context \<Rightarrow> (u64 \<times> gu_context) cres" where
  "gu_preload_pid_debug_info env stat pidn ctx =
     (let uid = gu_get_pid_unique_id stat pidn ctx in
      cbind (gu_maybe_sweep_retired_elf (pe_clk env) ctx) (\<lambda>ctx.
        case find_pid ctx pidn of
          Some c \<Rightarrow> Ok (ctx_unique_id c, ctx)
        | None \<Rightarrow>
            if \<not> pe_alive env then Ok (0, ctx)
            else
              cbind (gu_load_pid env pidn uid ctx) (\<lambda>(r, ctx).
                case r of
                  None \<Rightarrow> Ok (0, ctx)
                | Some c \<Rightarrow> Ok (ctx_unique_id c, add_pid (c\<lparr>preload := True\<rparr>) ctx))))"

subsection \<open>Creation and the operations keep the invariant\<close>

lemma load_kernel_symbols_frame:
  assumes "gu_load_kernel_symbols env cap ctx = Ok (r, cap', ctx')"
  shows "pid_ctx_list ctx' = pid_ctx_list ctx \<and> elf_ctx_list ctx' = elf_ctx_list ctx \<and> map_ctxs ctx' = map_ctxs ctx \<and>
    next_retired_elf_deadline_ns ctx' = next_retired_elf_deadline_ns ctx \<and> timer ctx' = timer ctx \<and>
    pid_events ctx' = pid_events ctx \<and> debug ctx' = debug ctx \<and>
    elf_ctx_count (statistics ctx') = elf_ctx_count (statistics ctx) \<and>
    retired_elf_ctx_count (statistics ctx') = retired_elf_ctx_count (statistics ctx) \<and>
    pid_ctx_count (statistics ctx') = pid_ctx_count (statistics ctx)"
  using assms by (auto simp: gu_load_kernel_symbols_def count_stat_def split: option.splits if_splits cres.splits prod.splits elim!: cbind_OkE)

lemma world_ok_frame:
  assumes "pid_ctx_list ctx' = pid_ctx_list ctx" "elf_ctx_list ctx' = elf_ctx_list ctx" "map_ctxs ctx' = map_ctxs ctx"
    "next_retired_elf_deadline_ns ctx' = next_retired_elf_deadline_ns ctx" "pid_events ctx' = pid_events ctx"
    "elf_ctx_count (statistics ctx') = elf_ctx_count (statistics ctx)"
    "retired_elf_ctx_count (statistics ctx') = retired_elf_ctx_count (statistics ctx)"
    "pid_ctx_count (statistics ctx') = pid_ctx_count (statistics ctx)"
  shows "world_ok ctx' = world_ok ctx"
proof -
  have "elf_cache_ok refs ctx' = elf_cache_ok refs ctx" for refs by (rule elf_cache_ok_frame) (simp_all add: assms)
  then show ?thesis by (simp add: world_ok_def ctx_ok_def heap_ok_def owners_def arrays_ok_def events_ok_def assms)
qed

lemma zero_context_ok: "world_ok (zero_context avail g)"
  by (simp add: zero_context_def zero_statistics_def world_ok_def ctx_ok_def heap_ok_def owners_def elf_cache_ok_def elf_table_ok_def
      refs_of_def deadline_ok_def arrays_ok_def events_ok_def ev_count_def)

lemma gu_init_ok:
  assumes "gu_init env avail g cap cfg = Ok (Some ctx, cap')"
  shows "world_ok ctx \<and> pid_ctx_list ctx = [] \<and> timer_now_ns (timer ctx) = in_clk env \<and> debug ctx = cfg_debug_print cfg"
proof -
  define c0 where "c0 = (zero_context avail g)\<lparr>debug := cfg_debug_print cfg, go_only_buildid := cfg_go_buildid_only cfg,
      go_not_strip_name := cfg_go_not_strip_name cfg,
      timer := snd (gu_retire_timer_start (in_eventfd env) (in_thread env) (in_clk env) (timer (zero_context avail g)))\<rparr>"
  obtain r where l: "gu_load_kernel_symbols (in_ksyms env) cap c0 = Ok (r, cap', ctx)"
    using assms by (auto simp: gu_init_def Let_def c0_def split: if_splits elim!: cbind_OkE)
  note f = load_kernel_symbols_frame [OF l]
  have "world_ok ctx = world_ok c0" by (rule world_ok_frame) (use f in simp_all)
  moreover have "world_ok c0 = world_ok (zero_context avail g)" by (rule world_ok_frame) (simp_all add: c0_def)
  ultimately show ?thesis
    using f zero_context_ok by (simp add: c0_def zero_context_def gu_retire_timer_start_def Let_def)
qed

lemma maybe_sweep_world:
  assumes "world_ok ctx"
  shows "\<exists>ctx'. gu_maybe_sweep_retired_elf clk ctx = Ok ctx' \<and> world_ok ctx' \<and> shrinks ctx ctx' \<and>
    pid_ctx_list ctx' = pid_ctx_list ctx \<and> timer_now_ns (timer ctx') = timer_now_ns (timer ctx) \<and> debug ctx' = debug ctx"
proof -
  have "elf_cache_ok (refs_of (map_ctxs ctx)) ctx" using assms by (simp add: world_ok_def ctx_ok_def)
  from maybe_sweep_ok [OF this, of clk] obtain ctx' where c: "gu_maybe_sweep_retired_elf clk ctx = Ok ctx'"
      "elf_cache_ok (refs_of (map_ctxs ctx)) ctx'" "pid_ctx_list ctx' = pid_ctx_list ctx" "map_ctxs ctx' = map_ctxs ctx"
      "pid_events ctx' = pid_events ctx" "pid_ctx_count (statistics ctx') = pid_ctx_count (statistics ctx)" "debug ctx' = debug ctx"
      "timer_now_ns (timer ctx') = timer_now_ns (timer ctx)" "fst ` set (elf_ctx_list ctx') \<subseteq> fst ` set (elf_ctx_list ctx)"
    by blast
  then have "world_ok ctx'"
    using assms by (simp add: world_ok_def ctx_ok_def heap_ok_def owners_def arrays_ok_def events_ok_def)
  then show ?thesis using c by (simp add: shrinks_def)
qed

lemma gu_event_occur_ok:
  assumes "world_ok ctx" "clock_ok clk ctx" "gu_event_occur clk kenv cap ty data ctx = Ok (cap', ctx')"
  shows "world_ok ctx' \<and> timer_now_ns (timer ctx') = timer_now_ns (timer ctx)"
proof -
  obtain ctx1 where s: "gu_maybe_sweep_retired_elf clk ctx = Ok ctx1" "world_ok ctx1" "timer_now_ns (timer ctx1) = timer_now_ns (timer ctx)"
    using maybe_sweep_world [OF assms(1), of clk] by blast
  have clk: "clock_ok clk ctx1" using assms(2) s(3) by (simp add: clock_ok_def)
  show ?thesis
  proof (cases ty)
    case GU_EVENT_MODULE_RELOAD
    then obtain r where l: "gu_load_kernel_symbols kenv cap ctx1 = Ok (r, cap', ctx')"
      using assms(3) by (auto simp: gu_event_occur_def s(1) elim!: cbind_OkE)
    have "world_ok ctx' = world_ok ctx1" by (rule world_ok_frame) (use load_kernel_symbols_frame [OF l] in simp_all)
    then show ?thesis using s load_kernel_symbols_frame [OF l] by simp
  next
    case GU_EVENT_PROCESS_EXIT
    show ?thesis
    proof (cases data)
      case None
      then show ?thesis using assms(3) s GU_EVENT_PROCESS_EXIT by (simp add: gu_event_occur_def)
    next
      case (Some p)
      then show ?thesis
        using assms(3) s GU_EVENT_PROCESS_EXIT gu_set_pid_exit_unique_ok [OF s(2) clk, of p 0]
        by (auto simp: gu_event_occur_def elim!: cbind_OkE)
    qed
  qed
qed

text \<open>A loaded process enters the table with whatever its caller sets besides the mappings.\<close>

lemma load_add_ok:
  assumes ok: "world_ok ctx" and fresh: "env_fresh 0 env ctx" and clk: "clock_ok (pe_clk env) ctx" and none: "find_pid ctx p = None"
    and l: "gu_load_pid env p uid ctx = Ok (new, ctx')"
  shows "timer ctx' = timer ctx \<and> grows env ctx ctx' \<and>
    (case new of None \<Rightarrow> world_ok ctx'
     | Some c \<Rightarrow> \<forall>c'. elf_map_list c' = elf_map_list c \<longrightarrow> ctx_pid c' = ctx_pid c \<longrightarrow> world_ok (add_pid c' ctx'))"
proof -
  have "ctx_ok [] ctx" using ok by (simp add: world_ok_def)
  note L = gu_load_pid_ok [OF this fresh clk none l]
  have e: "events_ok ctx'" "arrays_ok ctx'" "pid_ctx_count (statistics ctx') = of_nat (length (pid_ctx_list ctx'))"
      "find_pid ctx' p = None" "timer ctx' = timer ctx"
    using ok L none by (auto simp: world_ok_def events_ok_def arrays_ok_def pid_frame_def find_pid_def)
  show ?thesis
  proof (cases new)
    case None
    then show ?thesis using L e by (simp add: world_ok_def)
  next
    case (Some c)
    obtain arr where arr: "elf_map_list c = Some arr" "ia_ok arr" using L Some by auto
    have "world_ok (add_pid c' ctx')" if "elf_map_list c' = elf_map_list c" "ctx_pid c' = ctx_pid c" for c'
      using L Some e arr that by (intro add_pid_ok) simp_all
    then show ?thesis using L Some e(5) by simp
  qed
qed

lemma gu_preload_ok:
  assumes ok: "world_ok ctx" and fresh: "env_fresh 0 env ctx" and clk: "clock_ok (pe_clk env) ctx"
    and r: "gu_preload_pid_debug_info env stat pidn ctx = Ok (u, ctx')"
  shows "world_ok ctx' \<and> timer_now_ns (timer ctx') = timer_now_ns (timer ctx)"
proof -
  obtain ctx1 where s: "gu_maybe_sweep_retired_elf (pe_clk env) ctx = Ok ctx1" "world_ok ctx1" "shrinks ctx ctx1"
      "timer_now_ns (timer ctx1) = timer_now_ns (timer ctx)"
    using maybe_sweep_world [OF ok, of "pe_clk env"] by blast
  have clk1: "clock_ok (pe_clk env) ctx1" using s(4) clk by (simp add: clock_ok_def)
  show ?thesis
  proof (cases "find_pid ctx1 pidn = None \<and> pe_alive env")
    case False
    then show ?thesis using r s by (auto simp: gu_preload_pid_debug_info_def Let_def split: option.splits)
  next
    case True
    then obtain new ctx2 where l: "gu_load_pid env pidn (gu_get_pid_unique_id stat pidn ctx) ctx1 = Ok (new, ctx2)"
        "ctx' = (case new of None \<Rightarrow> ctx2 | Some c \<Rightarrow> add_pid (c\<lparr>preload := True\<rparr>) ctx2)"
      using r s(1) by (auto simp: gu_preload_pid_debug_info_def Let_def split: option.splits elim!: cbind_OkE)
    show ?thesis
      using load_add_ok [OF s(2) env_fresh_shrinks [OF s(3) fresh] clk1 _ l(1)] True l(2) s(4)
      by (cases new) (simp_all add: add_pid_def)
  qed
qed

subsection \<open>Destruction releases everything\<close>

text \<open>Giving references back retires images but frees none; the final sweep frees each of them.\<close>

definition image_blocks :: "gu_context \<Rightarrow> (elf_ptr \<times> elf_free list) list" where
  "image_blocks ctx = map (\<lambda>(p, e). (p, elf_blocks e)) (elf_ctx_list ctx)"

definition frees_nothing :: "gu_context \<Rightarrow> gu_context \<Rightarrow> bool" where
  "frees_nothing ctx ctx' \<longleftrightarrow> image_blocks ctx' = image_blocks ctx \<and> elf_frees ctx' = elf_frees ctx \<and>
     vdso_file_path ctx' = vdso_file_path ctx"

lemma frees_nothing_trans: "frees_nothing a b \<Longrightarrow> frees_nothing b c \<Longrightarrow> frees_nothing a c"
  by (simp add: frees_nothing_def)

lemma put_elf_blocks:
  assumes "get_elf ctx p = Some e" "elf_blocks e' = elf_blocks e" "distinct (map fst (elf_ctx_list ctx))"
  shows "frees_nothing ctx (put_elf p e' ctx)"
proof -
  obtain xs ys where L: "elf_ctx_list ctx = xs @ (p, e) # ys" "p \<notin> fst ` set xs" "p \<notin> fst ` set ys"
    by (rule get_elf_split [OF assms(1,3)])
  have "elf_ctx_list (put_elf p e' ctx) = xs @ (p, e') # ys" by (rule put_elf_split [OF L])
  then show ?thesis using L(1) assms(2) by (simp add: frees_nothing_def image_blocks_def) (simp add: put_elf_def)
qed

lemma count_stat_blocks: "frees_nothing ctx (count_stat f ctx)"
  by (simp add: frees_nothing_def image_blocks_def count_stat_def)

lemma put_elf_fst: "map fst (elf_ctx_list (put_elf p e ctx)) = map fst (elf_ctx_list ctx)"
  by (simp add: put_elf_def comp_def case_prod_unfold)

lemma gu_retire_elf_ctx_blocks:
  assumes "gu_retire_elf_ctx clk p ctx = Ok ctx'" "distinct (map fst (elf_ctx_list ctx))"
  shows "frees_nothing ctx ctx'"
proof -
  obtain e where e: "get_elf ctx p = Some e" using assms(1) by (cases "get_elf ctx p") (auto simp: gu_retire_elf_ctx_def)
  show ?thesis
  proof (cases "retired e")
    case True
    then show ?thesis using assms(1) e by (simp add: gu_retire_elf_ctx_def frees_nothing_def)
  next
    case False
    have "frees_nothing ctx (put_elf p (e\<lparr>retired := True, retire_deadline_ns := d\<rparr>) ctx)" for d
      by (rule put_elf_blocks [OF e _ assms(2)]) (simp add: elf_blocks_def)
    then show ?thesis
      using assms(1) e False
      by (auto simp: gu_retire_elf_ctx_def Let_def frees_nothing_def image_blocks_def count_stat_def)
  qed
qed

lemma private_clean_blocks:
  assumes "private_clean_elf_ctx clk q ctx = Ok ctx'" "distinct (map fst (elf_ctx_list ctx))"
  shows "frees_nothing ctx ctx'"
proof (cases "q = 0")
  case True
  then show ?thesis using assms(1) by (simp add: frees_nothing_def)
next
  case False
  then obtain m ctx1 where m: "map_ctxs ctx q = Some m" "gu_put_elf_ctx clk (map_elf m) ctx = Ok ctx1"
      "ctx' = ctx1\<lparr>map_ctxs := (map_ctxs ctx1)(q := None)\<rparr>"
    using assms(1) by (auto simp: private_clean_elf_ctx_def split: option.splits elim!: cbind_OkE)
  obtain e where e: "get_elf ctx (map_elf m) = Some e" using m(2) by (cases "get_elf ctx (map_elf m)") (auto simp: gu_put_elf_ctx_def)
  let ?c = "put_elf (map_elf m) (e\<lparr>refcnt := refcnt e - 1\<rparr>) ctx"
  have "frees_nothing ctx ?c" by (rule put_elf_blocks [OF e _ assms(2)]) (simp add: elf_blocks_def)
  moreover have "distinct (map fst (elf_ctx_list ?c))" using assms(2) by (simp only: put_elf_fst)
  ultimately have "frees_nothing ctx ctx1"
    using m(2) e frees_nothing_trans gu_retire_elf_ctx_blocks
    by (auto simp: gu_put_elf_ctx_def Let_def split: if_split_asm)
  then show ?thesis by (simp add: m(3) frees_nothing_def image_blocks_def)
qed

lemma image_blocks_fst: "map fst (image_blocks ctx) = map fst (elf_ctx_list ctx)"
  by (simp add: image_blocks_def case_prod_unfold comp_def)

lemma clean_ptrs_blocks:
  assumes "clean_ptrs clk qs ctx = Ok ctx'" "distinct (map fst (elf_ctx_list ctx))"
  shows "frees_nothing ctx ctx'"
  using assms
proof (induction qs arbitrary: ctx)
  case Nil
  then show ?case by (simp add: frees_nothing_def)
next
  case (Cons q qs)
  obtain ctx1 where c: "private_clean_elf_ctx clk q ctx = Ok ctx1" "clean_ptrs clk qs ctx1 = Ok ctx'"
    using Cons.prems(1) by (auto elim!: cbind_OkE)
  have f: "frees_nothing ctx ctx1" by (rule private_clean_blocks [OF c(1) Cons.prems(2)])
  then have "distinct (map fst (elf_ctx_list ctx1))"
    using Cons.prems(2) unfolding image_blocks_fst [symmetric] by (simp add: frees_nothing_def)
  then show ?case using Cons.IH [OF c(2)] f frees_nothing_trans by blast
qed

lemma clear_pid_blocks:
  assumes "gu_clear_pid_ctx clk p ctx = Ok ctx'" "distinct (map fst (elf_ctx_list ctx))"
  shows "frees_nothing ctx ctx'"
proof -
  obtain c where c: "find_pid ctx p = Some c" using assms(1) by (cases "find_pid ctx p") (auto simp: gu_clear_pid_ctx_def)
  let ?c = "count_stat (\<lambda>s. s\<lparr>pid_ctx_count := pid_ctx_count s - 1\<rparr>)
      (ctx\<lparr>pid_ctx_list := filter (\<lambda>d. ctx_pid d \<noteq> p) (pid_ctx_list ctx)\<rparr>)"
  have "frees_nothing ?c ctx'"
    using assms(1) by (intro clean_ptrs_blocks) (simp_all add: gu_clear_pid_ctx_def c Let_def for_each_clean_eq assms(2))
  then show ?thesis by (simp add: frees_nothing_def image_blocks_def) (simp add: count_stat_def)
qed

lemma clear_pids_ok:
  assumes "ctx_ok [] ctx" "clock_ok clk ctx" "distinct ps" "set ps \<subseteq> ctx_pid ` set (pid_ctx_list ctx)"
  shows "\<exists>ctx'. clear_pids clk ps ctx = Ok ctx' \<and> ctx_ok [] ctx' \<and> frees_nothing ctx ctx' \<and>
    pid_ctx_list ctx' = filter (\<lambda>c. ctx_pid c \<notin> set ps) (pid_ctx_list ctx) \<and>
    pid_ctx_count (statistics ctx') = pid_ctx_count (statistics ctx) - of_nat (length ps) \<and> kernel_symbols ctx' = kernel_symbols ctx"
  using assms
proof (induction ps arbitrary: ctx)
  case Nil
  then show ?case by (simp add: frees_nothing_def)
next
  case (Cons p ps)
  then have "find_pid ctx p \<noteq> None" by (simp add: find_pid_None)
  then obtain c where "find_pid ctx p = Some c" by blast
  from gu_clear_pid_ctx_ok [OF Cons.prems(1,2) this] obtain ctx1 where c1: "gu_clear_pid_ctx clk p ctx = Ok ctx1" "ctx_ok [] ctx1"
      "pid_ctx_list ctx1 = filter (\<lambda>d. ctx_pid d \<noteq> p) (pid_ctx_list ctx)" "timer ctx1 = timer ctx"
      "pid_ctx_count (statistics ctx1) = pid_ctx_count (statistics ctx) - 1" "kernel_symbols ctx1 = kernel_symbols ctx"
    by blast
  have "distinct (map fst (elf_ctx_list ctx))" using Cons.prems(1) by (simp add: ctx_ok_def elf_cache_ok_def elf_table_ok_def)
  then have f1: "frees_nothing ctx ctx1" by (rule clear_pid_blocks [OF c1(1)])
  have "q \<in> ctx_pid ` set (pid_ctx_list ctx1)" if "q \<in> ctx_pid ` set (pid_ctx_list ctx)" "q \<noteq> p" for q
    using that by (auto simp: c1(3))
  moreover have "q \<in> ctx_pid ` set (pid_ctx_list ctx) \<and> q \<noteq> p" if "q \<in> set ps" for q using Cons.prems(3,4) that by auto
  ultimately have sub: "set ps \<subseteq> ctx_pid ` set (pid_ctx_list ctx1)" by blast
  have k1: "clock_ok clk ctx1" using Cons.prems(2) c1(4) by (simp add: clock_ok_def)
  from Cons.IH [OF c1(2) k1 _ sub] obtain ctx2 where "clear_pids clk ps ctx1 = Ok ctx2" "ctx_ok [] ctx2" "frees_nothing ctx1 ctx2"
      "pid_ctx_list ctx2 = filter (\<lambda>c. ctx_pid c \<notin> set ps) (pid_ctx_list ctx1)"
      "pid_ctx_count (statistics ctx2) = pid_ctx_count (statistics ctx1) - of_nat (length ps)"
      "kernel_symbols ctx2 = kernel_symbols ctx1"
    using Cons.prems(3) by auto
  moreover have "filter (\<lambda>c. ctx_pid c \<notin> set ps) (pid_ctx_list ctx1) = filter (\<lambda>c. ctx_pid c \<notin> set (p # ps)) (pid_ctx_list ctx)"
    by (auto simp: c1(3) intro: filter_cong)
  ultimately show ?case using c1(1,5,6) frees_nothing_trans [OF f1] by (auto simp: algebra_simps)
qed

lemma clear_retired_frees:
  assumes "clear_elf_ctx p ctx = Ok ctx'" "elf_ctx_list ctx = (p, e) # ys" "p \<notin> fst ` set ys" "retired e"
  shows "elf_ctx_list ctx' = ys \<and> elf_frees ctx' = elf_frees ctx @ elf_blocks e @ [Free_Elf p] \<and>
    vdso_file_path ctx' = vdso_file_path ctx"
proof -
  have e: "get_elf ctx p = Some e" by (simp add: get_elf_def assms(2))
  have "elf_ctx_list (put_elf p e' ctx) = (p, e') # ys" for e'
    using put_elf_split [of ctx "[]" p e ys e'] assms(2,3) by simp
  then show ?thesis
    using assms(1,4) e filter_key_other [OF assms(3)]
    by (auto simp: clear_elf_ctx_def gu_unretire_elf_ctx_def drop_tables_def Let_def) (simp_all add: count_stat_def put_elf_def)
qed

lemma sweep_all_frees:
  assumes "sweep_loop UINT64_MAX (map fst (elf_ctx_list ctx)) d ctx = Ok (nd, ctx')" "distinct (map fst (elf_ctx_list ctx))"
    and "\<forall>x\<in>set (elf_ctx_list ctx). retired (snd x)"
  shows "elf_ctx_list ctx' = [] \<and> elf_frees ctx' = elf_frees ctx @ concat (map (\<lambda>(p, bs). bs @ [Free_Elf p]) (image_blocks ctx)) \<and>
    vdso_file_path ctx' = vdso_file_path ctx"
  using assms
proof (induction "elf_ctx_list ctx" arbitrary: ctx)
  case Nil
  then have "ctx' = ctx" "elf_ctx_list ctx = []" by simp_all
  then show ?case by (simp add: image_blocks_def)
next
  case (Cons x ys)
  obtain p e where x: "x = (p, e)" by force
  then have L: "elf_ctx_list ctx = (p, e) # ys" "retired e" "p \<notin> fst ` set ys"
    using Cons.hyps(2) Cons.prems(2,3) by (auto simp flip: Cons.hyps(2))
  let ?c = "count_stat (\<lambda>s. s\<lparr>retired_elf_expired := retired_elf_expired s + 1\<rparr>) ctx"
  have "get_elf ctx p = Some e" by (simp add: get_elf_def L(1))
  then obtain ctx1 where c: "clear_elf_ctx p ?c = Ok ctx1" "sweep_loop UINT64_MAX (map fst ys) d ctx1 = Ok (nd, ctx')"
    using Cons.prems(1) L by (auto simp: expires_def elim!: cbind_OkE)
  have c1: "elf_ctx_list ctx1 = ys" "elf_frees ctx1 = elf_frees ctx @ elf_blocks e @ [Free_Elf p]" "vdso_file_path ctx1 = vdso_file_path ctx"
    using clear_retired_frees [OF c(1), of e ys] L by (simp_all add: count_stat_def)
  have "elf_ctx_list ctx' = [] \<and> elf_frees ctx' = elf_frees ctx1 @ concat (map (\<lambda>(p, bs). bs @ [Free_Elf p]) (image_blocks ctx1)) \<and>
      vdso_file_path ctx' = vdso_file_path ctx1"
    by (rule Cons.hyps(1)) (use c(2) c1(1) Cons.prems(2,3) L(1) in simp_all)
  then show ?case by (simp add: c1 L(1) image_blocks_def)
qed

lemma gu_cleanup_ok:
  assumes ok: "world_ok ctx" and clk: "clock_ok clk ctx"
  shows "\<exists>names path left. gu_cleanup clk ctx = Ok (names, path, left) \<and>
    names = gu_interval_array_destroy (kernel_symbols ctx) \<and>
    path = (if vdso_file_path ctx = [] then None else Some (vdso_file_path ctx)) \<and>
    pid_ctx_list left = [] \<and> map_ctxs left = Map.empty \<and> elf_ctx_list left = [] \<and> kernel_symbols left = None \<and>
    elf_frees left = elf_frees ctx @ concat (map (\<lambda>(p, e). elf_blocks e @ [Free_Elf p]) (elf_ctx_list ctx)) \<and>
    pid_ctx_count (statistics left) = 0"
proof -
  define c0 where "c0 = ctx\<lparr>timer := gu_retire_timer_stop (timer ctx), kernel_symbols := None, kernel_names := Map.empty,
      kernel_symbol_hash := []\<rparr>"
  have "world_ok c0 = world_ok ctx" by (rule world_ok_frame) (simp_all add: c0_def)
  then have w0: "ctx_ok [] c0" "pid_ctx_count (statistics c0) = of_nat (length (pid_ctx_list c0))"
      "distinct (map ctx_pid (pid_ctx_list c0))"
    using ok by (simp_all add: world_ok_def ctx_ok_def heap_ok_def)
  have k0: "clock_ok clk c0" using clk by (simp add: clock_ok_def c0_def gu_retire_timer_stop_def)
  obtain c1 where c1: "clear_pids clk (map ctx_pid (pid_ctx_list c0)) c0 = Ok c1" "ctx_ok [] c1" "frees_nothing c0 c1"
      "pid_ctx_list c1 = filter (\<lambda>c. ctx_pid c \<notin> set (map ctx_pid (pid_ctx_list c0))) (pid_ctx_list c0)"
      "pid_ctx_count (statistics c1) = 0" "kernel_symbols c1 = None"
    using clear_pids_ok [OF w0(1) k0 w0(3)] w0(2) by (auto simp: c0_def)
  have p1: "pid_ctx_list c1 = []" unfolding c1(4) by (rule filter_False) simp
  then have "dom (map_ctxs c1) = {}" using c1(2) by (simp add: ctx_ok_def heap_ok_def owners_def)
  then have m1: "map_ctxs c1 = Map.empty" by (simp only: dom_eq_empty_conv)
  have "elf_cache_ok (refs_of (map_ctxs c1)) c1" using c1(2) by (simp add: ctx_ok_def)
  moreover have "refs_of (map_ctxs c1) = (\<lambda>_. 0)" by (simp add: m1 refs_of_def fun_eq_iff)
  ultimately have t1: "elf_cache_ok (\<lambda>_. 0) c1" "distinct (map fst (elf_ctx_list c1))"
    by (simp_all add: elf_cache_ok_def elf_table_ok_def)
  then have r1: "\<forall>x\<in>set (elf_ctx_list c1). retired (snd x)"
    by (auto simp: elf_cache_ok_def elf_table_ok_def entry_ok_def list_all_iff)
  obtain left where l: "gu_retired_elf_sweep UINT64_MAX c1 = Ok left" "pid_part left = pid_part c1"
    using sweep_ok [OF t1(1), of UINT64_MAX] by auto
  obtain nd c2 where s: "sweep_loop UINT64_MAX (map fst (elf_ctx_list c1)) 0 (c1\<lparr>next_retired_elf_deadline_ns := 0\<rparr>) = Ok (nd, c2)"
      "left = c2\<lparr>next_retired_elf_deadline_ns := nd\<rparr>"
    using l(1) by (auto simp: gu_retired_elf_sweep_def elim!: cbind_OkE)
  have f: "elf_ctx_list c2 = []" "elf_frees c2 = elf_frees c1 @ concat (map (\<lambda>(p, bs). bs @ [Free_Elf p]) (image_blocks c1))"
      "vdso_file_path c2 = vdso_file_path c1"
    using sweep_all_frees [of "c1\<lparr>next_retired_elf_deadline_ns := 0\<rparr>" 0 nd c2] s(1) t1(2) r1
    by (simp_all add: image_blocks_def)
  have "gu_cleanup clk ctx = Ok (gu_interval_array_destroy (kernel_symbols ctx),
      if vdso_file_path left \<noteq> [] then Some (vdso_file_path left) else None, left)"
    using c1(1) l(1) unfolding gu_cleanup_def Let_def by (simp add: c0_def)
  moreover have "elf_frees left = elf_frees ctx @ concat (map (\<lambda>(p, e). elf_blocks e @ [Free_Elf p]) (elf_ctx_list ctx))"
  proof -
    have "image_blocks c1 = image_blocks ctx" "elf_frees c1 = elf_frees ctx"
      using c1(3) by (simp_all add: frees_nothing_def image_blocks_def c0_def)
    then show ?thesis using f(2) by (simp add: s(2)) (simp add: image_blocks_def comp_def case_prod_unfold)
  qed
  moreover have "vdso_file_path left = vdso_file_path ctx" using f(3) c1(3) by (simp add: s(2) frees_nothing_def c0_def)
  ultimately show ?thesis
    using l(2) p1 m1 c1(5,6) f(1) by (simp add: pid_part_def s(2))
qed

subsection \<open>The reload throttle and private data\<close>

lemma find_put_pid:
  assumes "find_pid ctx (ctx_pid c) \<noteq> None"
  shows "find_pid (put_pid c ctx) p = (if p = ctx_pid c then Some c else find_pid ctx p)"
proof -
  have "find (\<lambda>d. ctx_pid d = p) (map (\<lambda>d. if ctx_pid d = ctx_pid c then c else d) L) =
      (if p = ctx_pid c then (if find (\<lambda>d. ctx_pid d = p) L = None then None else Some c) else find (\<lambda>d. ctx_pid d = p) L)" for L
    by (induction L) auto
  then show ?thesis using assms by (auto simp: find_pid_def put_pid_def)
qed

lemma put_pid_world:
  assumes ok: "world_ok ctx" and c: "find_pid ctx (ctx_pid c) = Some d" "elf_map_list c = elf_map_list d"
  shows "world_ok (put_pid c ctx)"
proof -
  have d: "d \<in> set (pid_ctx_list ctx)" "ctx_pid d = ctx_pid c" using find_pid_Some [OF c(1)] by auto
  have dist: "distinct (map ctx_pid (pid_ctx_list ctx))" using ok by (simp add: world_ok_def ctx_ok_def heap_ok_def)
  have same: "x = d" if "x \<in> set (pid_ctx_list ctx)" "ctx_pid x = ctx_pid c" for x
    using dist d that by (auto simp: distinct_map inj_on_def)
  have pids: "map ctx_pid (pid_ctx_list (put_pid c ctx)) = map ctx_pid (pid_ctx_list ctx)" by (simp add: put_pid_def)
  have maps: "map elf_map_list (pid_ctx_list (put_pid c ctx)) = map elf_map_list (pid_ctx_list ctx)"
    using same c(2) by (auto simp: put_pid_def)
  have "owners (put_pid c ctx) = owners ctx"
    using arg_cong [OF maps, of "\<lambda>L. concat (map (\<lambda>a. live_ptrs (arr_payloads a)) L)"] by (simp add: owners_def comp_def)
  then have "heap_ok [] (put_pid c ctx)" using ok pids by (simp add: world_ok_def ctx_ok_def heap_ok_def) (simp add: put_pid_def)
  moreover have "elf_cache_ok (refs_of (map_ctxs (put_pid c ctx))) (put_pid c ctx)"
    using ok by (subst elf_cache_ok_frame [of _ ctx]) (simp_all add: put_pid_def world_ok_def ctx_ok_def)
  moreover have "arrays_ok (put_pid c ctx)"
    using ok d c(2) by (auto simp: world_ok_def arrays_ok_def put_pid_def)
  moreover have "events_ok (put_pid c ctx)"
    using ok arg_cong [OF pids, of set] by (simp add: world_ok_def events_ok_def) (simp add: put_pid_def)
  moreover have "pid_ctx_count (statistics (put_pid c ctx)) = of_nat (length (pid_ctx_list (put_pid c ctx)))"
    using ok by (simp add: world_ok_def put_pid_def)
  ultimately show ?thesis by (simp add: world_ok_def ctx_ok_def)
qed

text \<open>The next reload lies between 30 and 90 seconds after the load.\<close>

lemma schedule_bounds:
  assumes "now = gu_cache_now_ns clk ctx" "now \<le> 0x7fffffffffffffff" "c' = gu_schedule_next_maps_reload clk ctx c"
  shows "now + GU_PID_MAPS_RELOAD_MIN_INTERVAL_NS \<le> next_maps_reload_ns c'"
    "next_maps_reload_ns c' \<le> now + GU_PID_MAPS_RELOAD_MAX_INTERVAL_NS" "next_maps_reload_ns c' \<noteq> 0"
proof -
  obtain r where n: "next_maps_reload_ns c' = now + (30000000000 + r mod 60000000001)"
    using assms(1,3) by (auto simp: gu_schedule_next_maps_reload_def Let_def split: prod.splits)
  have r: "unat (r mod 60000000001 :: u64) \<le> 60000000000" by (simp add: unat_mod)
  have now: "unat now \<le> 0x7fffffffffffffff" using assms(2) by (simp add: word_le_nat_alt)
  have d: "unat (30000000000 + r mod 60000000001 :: u64) = 30000000000 + unat (r mod 60000000001)"
    using r by (subst unat_add_lem [THEN iffD1]) simp_all
  have u: "unat (next_maps_reload_ns c') = unat now + (30000000000 + unat (r mod 60000000001))"
    unfolding n using r now d by (subst unat_add_lem [THEN iffD1]) simp_all
  have "unat (now + 30000000000) = unat now + 30000000000" "unat (now + 90000000000) = unat now + 90000000000"
    using now by (subst unat_add_lem [THEN iffD1]; simp)+
  then show "now + GU_PID_MAPS_RELOAD_MIN_INTERVAL_NS \<le> next_maps_reload_ns c'"
    "next_maps_reload_ns c' \<le> now + GU_PID_MAPS_RELOAD_MAX_INTERVAL_NS"
    using u r by (simp_all add: word_le_nat_alt)
  show "next_maps_reload_ns c' \<noteq> 0" using u by auto
qed

lemma reload_allowed_cases:
  assumes "find_pid ctx p = Some c" "next_maps_reload_ns c \<noteq> 0"
  shows "\<exists>ctx'. gu_maps_reload_allowed clk p ctx = Ok (next_maps_reload_ns c \<le> gu_cache_now_ns clk ctx, ctx')"
  using assms by (auto simp: gu_maps_reload_allowed_def Let_def gu_cache_now_ns_def put_pid_def)

lemma reload_allowed_ok:
  assumes "world_ok ctx" "gu_maps_reload_allowed clk p ctx = Ok (a, ctx')"
  shows "world_ok ctx' \<and> find_pid ctx' p \<noteq> None \<and> timer ctx' = timer ctx \<and> debug ctx' = debug ctx \<and>
    map_ctxs ctx' = map_ctxs ctx \<and> elf_ctx_list ctx' = elf_ctx_list ctx"
proof -
  obtain c where c: "find_pid ctx p = Some c" using assms(2) by (cases "find_pid ctx p") (auto simp: gu_maps_reload_allowed_def)
  then have p: "ctx_pid c = p" using find_pid_Some by blast
  define d where "d = (if next_maps_reload_ns c = 0 then gu_schedule_next_maps_reload clk ctx c else c)"
  have d: "ctx_pid d = p" "elf_map_list d = elf_map_list c" by (simp_all add: d_def p)
  have w: "world_ok (put_pid d ctx)" by (rule put_pid_world [OF assms(1), of d c]) (simp_all add: d c)
  define e where "e = count_stat (\<lambda>s. s\<lparr>pid_maps_reload_throttle_count := pid_maps_reload_throttle_count s + 1\<rparr>) (put_pid d ctx)"
  have e: "world_ok e = world_ok (put_pid d ctx)" by (rule world_ok_frame) (simp_all add: e_def count_stat_def)
  have "ctx' = put_pid d ctx \<or> ctx' = e"
    using assms(2) by (auto simp: gu_maps_reload_allowed_def c Let_def d_def [symmetric] e_def split: if_splits)
  moreover have "find_pid (put_pid d ctx) p \<noteq> None" using c by (simp add: find_put_pid d)
  moreover have "find_pid e p = find_pid (put_pid d ctx) p" by (simp add: find_pid_def e_def count_stat_def)
  ultimately show ?thesis using w e by (auto simp: e_def count_stat_def put_pid_def)
qed

lemma set_private_ok:
  assumes "world_ok ctx"
  shows "world_ok (gu_set_pid_private_info ok p data ctx)"
proof (cases "find_pid ctx p")
  case None
  then show ?thesis using assms by (simp add: gu_set_pid_private_info_def)
next
  case (Some c)
  then have "ctx_pid c = p" using find_pid_Some by blast
  then show ?thesis
    using Some unfolding gu_set_pid_private_info_def by (auto intro!: put_pid_world [OF assms])
qed

subsection \<open>A sample process\<close>

text \<open>
  A process with one executable mapping of a small Go binary: a build-id note and one loadable
  segment. It shows that the hypotheses below can hold.
\<close>

definition sample_image :: elf_view where
  "sample_image =
     \<lparr>view_begin = True, view_strndx = True,
      view_scns = [\<lparr>scan_addr = Some 0, scan_name = Some ''.note.go.buildid'',
                    scan_ref = \<lparr>sh_size = 20, sh_addr = 0, shdr_ok = True, scn_data = Some (replicate 16 0 @ [1, 2, 3, 4]),
                                scn_ident = None, sec_syms = \<lparr>sym_shdr = None, sym_data = None\<rparr>\<rparr>\<rparr>],
      view_phdrs = Some [Some \<lparr>p_type = 1, p_flags = 5, p_offset = 0, p_vaddr = 0x400000, p_memsz = 0x1000, p_align = 0x1000\<rparr>],
      view_reads = []\<rparr>"

definition sample_load :: "elf_ptr \<Rightarrow> load_env" where
  "sample_load addr =
     \<lparr>le_vdso_name = [], le_vdso_mem = (\<lambda>_ _. []), le_vdso_maps = None, le_vdso_opens = False, le_vdso_malloc = False,
      le_base_ok = True, le_path_ok = True, le_open = (\<lambda>_. Some sample_image), le_openat2 = (\<lambda>_. Inr 1), le_fs = (\<lambda>_. Other),
      le_can_open = (\<lambda>_. True), le_dup_ok = True, le_proc_root = Some 0, le_inode = (\<lambda>_. sample_image), le_malloc = (\<lambda>_. True),
      le_md5 = (\<lambda>_. []), le_md5_ok = True, le_ranges_ok = True, le_access = (\<lambda>_. False), le_id_path_ok = True,
      le_debug_files = (\<lambda>_. None), le_link_ok = True, le_debug_dup_ok = True, le_fuel = 10, le_arch = X86_64,
      le_cfi_mem = (\<lambda>_. True), le_next_cfi = (\<lambda>_. None), le_cfi_base = 0, le_sym_calloc = True, le_sym_realloc = True,
      le_sym_array = True, le_sym_items = True, le_sym_alloc = (\<lambda>_ _. 0), le_sym_cache_ok = (\<lambda>_. True),
      le_scn_flags = (\<lambda>_. None), le_names = (\<lambda>_. None), le_elf_addr = addr\<rparr>"

definition sample_pid_env :: pid_env where
  "sample_pid_env =
     \<lparr>pe_file = Some [maps_line 0x400000 0x401000 ''r-xp'' 0 ''fd:00'' ''7'' ''/bin/a'' []],
      pe_maps_malloc = True, pe_maps_realloc = (\<lambda>_. True), pe_maps_strdup = (\<lambda>_. True), pe_maps_shrink = True, pe_items_ok = True,
      pe_ctx_addr = 0x5000, pe_load = (\<lambda>i. sample_load (if i = 0 then 0x6000 else 0)), pe_map_addr = (\<lambda>i. if i = 0 then 0x7000 else 0),
      pe_array_ok = True, pe_array_items_ok = True, pe_comm = Some ''a'', pe_alive = True, pe_private_ok = True, pe_clk = 1000000000\<rparr>"

lemma sample_maps:
  "gu_get_maps_info True (\<lambda>_. True) (\<lambda>_. True) True PERMISSION_X (pe_file sample_pid_env) =
     Ok [\<lparr>map_path = ''/bin/a'', map_start = 0x400000, map_end = 0x401000, map_offset = 0, map_permission = 0x7f,
          map_deleted = strstr (maps_line 0x400000 0x401000 ''r-xp'' 0 ''fd:00'' ''7'' ''/bin/a'' []) '' (deleted)''\<rparr>]"
proof -
  have l: "scan_maps_line (maps_line s e ''r-xp'' off ''fd:00'' ''7'' ''/bin/a'' []) = Some (s, e, ''r-xp'', off, ''/bin/a'')" for s e off
    by (rule scan_line_printed) (simp_all add: word_def isspace_def)
  have perm: "perm_wanted ''r-xp'' 4 = Ok True" "perm_chars ''r-xp'' = Ok 0x7f"
    by (simp_all add: perm_wanted_def perm_bit_def perm_char_def perm_chars_def)
  show ?thesis by (simp add: sample_pid_env_def gu_get_maps_info_def add_map_def l perm merges_def)
qed


definition sample_globals :: cfi_globals where
  "sample_globals = \<lparr>default_init = False, default_calc_ctx = zero_ctx\<rparr>"

definition sample_ctx :: gu_context where
  "sample_ctx = zero_context Unknown sample_globals"

definition sample_scns :: "section_view scn_table" where
  "sample_scns = note_scn ''.note.go.buildid'' 0 (scan_ref (hd (view_scns sample_image))) ((\<lambda>_. None), 0)"

lemma sample_scan: "scan_all_elf_scn (view_strndx sample_image) (view_scns sample_image) ((\<lambda>_. None), 0) = Ok sample_scns"
  by (simp add: scan_all_elf_scn_def sample_image_def sample_scns_def)

lemma sample_scn: "fst sample_scns ty = (if ty = ELF_SCN_TYPE_GO_BUILD_ID then Some (scan_ref (hd (view_scns sample_image))) else None)"
  by (cases ty) (simp_all add: sample_scns_def note_scn_def)

lemma sample_key: "image_key (sample_load a) sample_image sample_scns b = Ok [1, 2, 3, 4]"
  by (simp add: image_key_def note_data_def sample_scn get_elf_build_id_def sample_load_def sample_image_def)

lemma sample_ranges: "\<exists>rs va. image_ranges (sample_load a) sample_image = Ok (rs, va)"
  by (simp add: image_ranges_def sample_load_def sample_image_def gu_elf_exec_ranges_load_from_elf_def exec_load_def Let_def split: cres.splits)

lemma sample_debug_path: "choose_debug_path (sample_load a) dbg pidn f rep sample_scns [1, 2, 3, 4] path = Ok path"
  by (simp add: choose_debug_path_def build_id_debug_path_def sample_scn find_debug_info_path_by_debuglink_def sample_load_def get_elf_gnu_debuglink_def)

lemma sample_cfi: "image_cfi (sample_load a) sample_scns g = Ok (g, None)"
  by (simp add: image_cfi_def sample_scn)

lemma sample_symbols: "image_symbols (sample_load a) ctx sample_scns = Ok \<lparr>fill_symbols = None, fill_search_size = 0, fill_final_heap = blank_heap, fill_freed = []\<rparr>"
  by (simp add: image_symbols_def sample_scn fill_symbols_debug_info_def Let_def)

lemma sample_new_elf:
  assumes "a \<noteq> 0"
  shows "\<exists>e ctx'. load_new_elf (sample_load a) pidn f rep path sample_image sample_scns [1, 2, 3, 4] ctx = Ok (Some a, ctx') \<and>
     elf_ctx_list ctx' = elf_ctx_list ctx @ [(a, e)] \<and> debug ctx' = debug ctx \<and> map_ctxs ctx' = map_ctxs ctx"
proof -
  obtain rs va where "image_ranges (sample_load a) sample_image = Ok (rs, va)" using sample_ranges by blast
  then show ?thesis
    using assms by (simp add: load_new_elf_def sample_debug_path debug_sections_def sample_cfi sample_symbols Let_def insert_elf_def)
      (simp add: sample_load_def count_stat_def add_tables_def)
qed

lemma sample_open:
  assumes "\<not> debug ctx" "openat2_avail ctx = Unknown"
  shows "\<exists>avail. open_image (sample_load a) ''/bin/a'' False op path ctx = (Some sample_image, ctx\<lparr>openat2_avail := avail\<rparr>)"
proof (cases op)
  case None
  then show ?thesis
    using assms by (intro exI [of _ Available]) (simp add: open_image_def sample_load_def gu_open_pid_root_path_def gu_openat2_in_root_def split: prod.splits)
next
  case (Some p)
  then show ?thesis by (intro exI [of _ "openat2_avail ctx"]) (simp add: open_image_def sample_load_def)
qed

lemma sample_load_elf:
  assumes "a \<noteq> 0" "\<not> debug ctx" "elf_ctx_list ctx = []" "openat2_avail ctx = Unknown"
  shows "\<exists>e ctx'. load_elf (sample_load a) pidn ''/bin/a'' op ctx = Ok (Some a, ctx') \<and>
     elf_ctx_list ctx' = [(a, e)] \<and> \<not> debug ctx' \<and> map_ctxs ctx' = map_ctxs ctx"
proof -
  obtain path where path: "image_path (sample_load a) False pidn ''/bin/a'' False op = Some path"
    by (cases op) (auto simp: image_path_def gu_path_join_def sample_load_def)
  obtain avail where o: "open_image (sample_load a) ''/bin/a'' False op path ctx = (Some sample_image, ctx\<lparr>openat2_avail := avail\<rparr>)"
    using sample_open assms(2,4) by blast
  have b: "le_base_ok (sample_load a)" "view_begin sample_image" by (simp_all add: sample_load_def sample_image_def)
  show ?thesis
    using sample_new_elf [OF assms(1), of pidn "''/bin/a''" "op \<noteq> None" path "ctx\<lparr>openat2_avail := avail\<rparr>"] assms
    by (auto simp: load_elf_def image_name_def path o b sample_scan sample_key)
qed

lemma sample_load_pid:
  assumes "\<not> debug ctx" "elf_ctx_list ctx = []" "map_ctxs ctx = Map.empty" "find_pid ctx pidn = None" "openat2_avail ctx = Unknown"
  shows "\<exists>c ctx'. gu_load_pid sample_pid_env pidn uid ctx = Ok (Some c, ctx') "
proof -
  obtain m where m: "gu_get_maps_info True (\<lambda>_. True) (\<lambda>_. True) True PERMISSION_X (pe_file sample_pid_env) = Ok [m]"
     "map_path m = ''/bin/a''" "map_start m = 0x400000" "map_end m = 0x401000" using sample_maps by simp
  define ctx1 where "ctx1 = count_stat (\<lambda>s. s\<lparr>pid_ctx_alloc_count := pid_ctx_alloc_count s + 1\<rparr>) ctx"
  obtain e ctx2 where e: "load_elf (sample_load 0x6000) pidn ''/bin/a'' (live_open_path (debug ctx1) pidn 0 m) ctx1 = Ok (Some 0x6000, ctx2)"
     "elf_ctx_list ctx2 = [(0x6000, e)]" "map_ctxs ctx2 = Map.empty"
    using sample_load_elf [of "0x6000" ctx1 pidn "live_open_path (debug ctx1) pidn 0 m"] assms by (auto simp: ctx1_def count_stat_def)
  have env: "pe_load sample_pid_env 0 = sample_load 0x6000" "pe_map_addr sample_pid_env 0 = 0x7000" "pe_items_ok sample_pid_env"
    "pe_ctx_addr sample_pid_env = 0x5000" "pe_array_ok sample_pid_env" "pe_array_items_ok sample_pid_env"
    "pe_comm sample_pid_env = Some ''a''" "pe_maps_malloc sample_pid_env" "pe_maps_realloc sample_pid_env = (\<lambda>_. True)"
    "pe_maps_strdup sample_pid_env = (\<lambda>_. True)" "pe_maps_shrink sample_pid_env"
    by (simp_all add: sample_pid_env_def)
  have items: "\<exists>g its ctx3. load_items sample_pid_env pidn 0 [m] ctx1 = Ok (its, g, True, ctx3) \<and> length its = 1"
    using e by (simp add: load_items.simps get_elf_def env m gu_alloc_elf_map_ctx_def Let_def)
  obtain n' comm where comm: "gu_get_pid_comm TASK_COMM_LEN (Some ''a'') = Ok (n', comm)"
    by (simp add: gu_get_pid_comm_def)
  show ?thesis
    using items by (auto simp: gu_load_pid_def assms env m ctx1_def [symmetric] comm gu_interval_array_init_def Let_def)
qed

lemma sample_pid_fresh: "env_fresh 0 sample_pid_env sample_ctx" "world_ok sample_ctx" "clock_ok 1000000000 sample_ctx"
  by (simp_all add: sample_ctx_def zero_context_ok)
   (auto simp: env_fresh_def sample_pid_env_def sample_load_def zero_context_def clock_ok_def bit_simps)

lemma sample_ctx_sel: "\<not> debug sample_ctx" "elf_ctx_list sample_ctx = []" "map_ctxs sample_ctx = Map.empty" "openat2_avail sample_ctx = Unknown"
  by (simp_all add: sample_ctx_def zero_context_def)

lemma sample_loaded:
  "\<exists>c ctx'. gu_load_pid sample_pid_env 7 42 sample_ctx = Ok (Some c, ctx') \<and> ctx_pid c = 7 \<and> timer ctx' = timer sample_ctx"
proof -
  have n: "find_pid sample_ctx 7 = None" by (simp add: sample_ctx_def zero_context_def find_pid_def)
  obtain c ctx' where l: "gu_load_pid sample_pid_env 7 42 sample_ctx = Ok (Some c, ctx')"
    using sample_load_pid [OF sample_ctx_sel(1-3) n sample_ctx_sel(4), of 42] by blast
  then show ?thesis
    using gu_load_pid_ok [OF _ sample_pid_fresh(1) _ n l] sample_pid_fresh by (simp add: world_ok_def sample_pid_env_def pid_frame_def)
qed



end
