(* ===== verification/Unwind.thy ===== *)
theory Unwind
  imports Gu_Context
begin

text \<open>
  The unwind driver, in \<open>src/gu_stacktrace.c\<close>: resolving a program counter to a frame, the CFI
  loop, the frame-pointer tail, the frame-pointer path and \<open>gu_unwind\<close>.

  \<^item> The frames handed to the callback are the list of the result, in order.
  \<^item> \<open>unwind_env\<close> is what the system answers during one call: one \<open>pid_env\<close> for the first load of the
    process and one for each of the two places that may reload it. \<open>ue_depth\<close> is the recursion depth
    the C stack allows the expression evaluator, \<open>ue_scratch\<close> and \<open>ue_fault\<close> are the per-thread
    buffers as the previous call left them.
  \<^item> A symbol name is the string its pointer leads to. The snapshot \<open>[]\<close> stands for a null
    \<open>stack_data\<close>. The callback, the context and the sample are not null.
\<close>

unbundle bit_operations_syntax

record gu_frame_record =
  frame_pc :: u64
  frame_abs_pc :: u64
  frame_offset :: u64
  frame_symbol :: "string option"
  frame_elf :: "elf_ptr option"
  frame_flags :: u32

abbreviation (input) GU_FRAME_ANON_EXEC :: u32 where "GU_FRAME_ANON_EXEC \<equiv> 1"
abbreviation (input) MAX_FP_STACK_LEVEL :: nat where "MAX_FP_STACK_LEVEL \<equiv> 127"

record unwind_env =
  ue_arch :: arch
  ue_page :: u64
  ue_depth :: nat
  ue_verbose :: bool
  ue_cfi_ok :: "nat \<Rightarrow> bool"
  ue_scratch :: ops_scratch
  ue_fault :: "read_fault option"
  ue_load :: pid_env
  ue_reload :: pid_env
  ue_tail :: pid_env

subsection \<open>One frame\<close>

definition is_stack_bottom_symbol :: "string option \<Rightarrow> bool" where
  "is_stack_bottom_symbol symbol =
     (case symbol of
        None \<Rightarrow> False
      | Some s \<Rightarrow> s \<in> set [''_start'', ''__libc_start_main'', ''__libc_start_call_main'', ''start_thread'', ''clone'', ''__clone''])"

definition gu_frame_lookup_pc_for_return_address :: "u64 \<Rightarrow> bool \<Rightarrow> bool \<Rightarrow> u64" where
  "gu_frame_lookup_pc_for_return_address pc initial_frame in_signal =
     (if initial_frame \<or> in_signal \<or> pc = 0 then pc else pc - 1)"

definition gu_cfi_lookup_pc_for_frame :: "u64 \<Rightarrow> bool \<Rightarrow> bool \<Rightarrow> u64" where
  "gu_cfi_lookup_pc_for_frame pc initial_frame in_signal =
     gu_frame_lookup_pc_for_return_address pc initial_frame in_signal"

definition symbol_at :: "per_elf_ctx \<Rightarrow> u64 \<Rightarrow> (string option \<times> u64) option cres" where
  "symbol_at e pc =
     (case gu_interval_array_search (symbols e) pc (Some blank_item) of (ret, it) \<Rightarrow>
        if ret < 0 then Ok None
        else
          let p = fst (get_interval_array_pointer (ia_private (the it))); off = pc - ia_start (the it) in
          if p = 0 then Ok (Some (None, off))
          else (case heap_names (symbol_heap e) p of None \<Rightarrow> Undef WildPointer | Some s \<Rightarrow> Ok (Some (Some s, off))))"

text \<open>The symbol and the offset, null and 0 when the function returns false.\<close>

definition gu_lookup_elf_symbol :: "per_elf_ctx \<Rightarrow> u64 \<Rightarrow> (string option \<times> u64) cres" where
  "gu_lookup_elf_symbol e pc =
     (if symbols e = None then Ok (None, 0)
      else cbind (symbol_at e pc) (\<lambda>r. Ok (case r of Some (Some s, off) \<Rightarrow> (Some s, off) | _ \<Rightarrow> (None, 0))))"

definition gu_stack_snapshot_read_u64 :: "u64 \<Rightarrow> gu_stack_info \<Rightarrow> u64 \<Rightarrow> u64 \<Rightarrow> u64 cres" where
  "gu_stack_snapshot_read_u64 page info raw_sp addr =
     (if stack_data info = [] then Fail
      else
        let stack_start = raw_sp - (raw_sp mod page); stack_end = stack_start + stack_size info in
        if addr < stack_start \<or> stack_end \<le> addr \<or> addr + 8 < addr \<or> stack_end - addr < 8 then Fail
        else
          let i = unat (addr - stack_start) in
          if i + 8 \<le> length (stack_data info) then Ok (le_word (take 8 (drop i (stack_data info)))) else Undef OutOfBounds)"

definition gu_frame_pointer_sane :: "u64 \<Rightarrow> u64 \<Rightarrow> bool" where
  "gu_frame_pointer_sane bp next_bp \<longleftrightarrow>
     bp \<noteq> 0 \<and> next_bp \<noteq> 0 \<and> bp AND 7 = 0 \<and> next_bp AND 7 = 0 \<and> bp < next_bp"

definition in_item :: "interval_array_item \<Rightarrow> u64 \<Rightarrow> bool" where
  "in_item it pc \<longleftrightarrow> ia_private it \<noteq> 0 \<and> ia_start it \<le> pc \<and> pc < ia_end it"

definition anon_frame :: "u64 \<Rightarrow> gu_frame_record" where
  "anon_frame pc = \<lparr>frame_pc = pc, frame_abs_pc = pc, frame_offset = 0, frame_symbol = None, frame_elf = None,
     frame_flags = GU_FRAME_ANON_EXEC\<rparr>"

text \<open>Go images may be reported by build-id and function entry only.\<close>

definition image_frame :: "bool \<Rightarrow> elf_ptr \<Rightarrow> per_elf_ctx \<Rightarrow> u64 \<Rightarrow> u64 \<Rightarrow> string option \<Rightarrow> u64 \<Rightarrow> gu_frame_record" where
  "image_frame only_buildid p e pc relative_pc symbol off =
     (if \<not> only_buildid \<or> \<not> elf_golang e
      then \<lparr>frame_pc = relative_pc, frame_abs_pc = pc, frame_offset = off, frame_symbol = symbol, frame_elf = Some p, frame_flags = 0\<rparr>
      else \<lparr>frame_pc = relative_pc - off, frame_abs_pc = pc, frame_offset = 0, frame_symbol = None, frame_elf = Some p, frame_flags = 0\<rparr>)"

definition image_of :: "gu_context \<Rightarrow> elf_ptr \<Rightarrow> per_elf_ctx cres" where
  "image_of ctx p = (case get_elf ctx p of None \<Rightarrow> Undef UseAfterFree | Some e \<Rightarrow> Ok e)"

text \<open>\<open>gu_append_pc_frame\<close>: the frame emitted, if any, and whether it is at the bottom of the stack.\<close>

definition gu_append_pc_frame ::
  "pid_env \<Rightarrow> u64 \<Rightarrow> bool \<Rightarrow> bool \<Rightarrow> search_state \<Rightarrow> (gu_frame_record option \<times> bool \<times> search_state) cres" where
  "gu_append_pc_frame env pc initial_frame in_signal s =
     (if pc = 0 then Ok (None, False, s)
      else
        cbind (if in_item (ss_item s) pc then Ok (0, s) else gu_search_pid_elf_ctx env pc (s\<lparr>ss_item := blank_item\<rparr>)) (\<lambda>(ret, s).
        if ret < 0 then Ok (None, False, s)
        else
          cbind (gu_get_elf_ctx_from_item (ss_ctx s) (ss_item s)) (\<lambda>(elf, map_exec_virt_addr).
          case elf of
            None \<Rightarrow> Ok (Some (anon_frame pc), False, s)
          | Some p \<Rightarrow>
              cbind (image_of (ss_ctx s) p) (\<lambda>e.
              let bias = ia_start (ss_item s) - map_exec_virt_addr; relative_pc = pc - bias in
              cbind (gu_lookup_elf_symbol e (gu_frame_lookup_pc_for_return_address relative_pc initial_frame in_signal))
                (\<lambda>(symbol, off). Ok (Some (image_frame False p e pc relative_pc symbol off), is_stack_bottom_symbol symbol, s))))))"

subsection \<open>The frame-pointer tail\<close>

definition tail_next :: "u64 \<Rightarrow> gu_stack_info \<Rightarrow> u64 \<Rightarrow> u64 \<Rightarrow> (u64 \<times> u64) cres" where
  "tail_next page info raw_sp bp =
     cbind (gu_stack_snapshot_read_u64 page info raw_sp bp) (\<lambda>next_bp.
     cbind (gu_stack_snapshot_read_u64 page info raw_sp (bp + 8)) (\<lambda>next_pc.
       if gu_frame_pointer_sane bp next_bp \<and> next_pc \<noteq> 0 then Ok (next_bp, next_pc) else Fail))"

fun tail_loop :: "pid_env \<Rightarrow> u64 \<Rightarrow> u64 \<Rightarrow> nat \<Rightarrow> u64 \<Rightarrow> search_state \<Rightarrow> (gu_frame_record list \<times> bool \<times> search_state) cres" where
  "tail_loop env page raw_sp 0 bp s = Ok ([], False, s)"
| "tail_loop env page raw_sp (Suc max_frames) bp s =
     (case tail_next page (ss_info s) raw_sp bp of
        Undef k \<Rightarrow> Undef k
      | Fail \<Rightarrow> Ok ([], False, s)
      | Ok (next_bp, next_pc) \<Rightarrow>
          cbind (gu_append_pc_frame env next_pc False False s) (\<lambda>(frame, end_of_stack, s).
          case frame of
            None \<Rightarrow> Ok ([], False, s)
          | Some fr \<Rightarrow>
              if end_of_stack then Ok ([fr], True, s)
              else cbind (tail_loop env page raw_sp max_frames next_bp s) (\<lambda>(frs, e, s). Ok (fr # frs, e, s))))"

definition gu_unwind_dwarf_tail_by_fp ::
  "pid_env \<Rightarrow> u64 \<Rightarrow> u64 \<Rightarrow> u64 \<Rightarrow> u64 \<Rightarrow> bool \<Rightarrow> gu_unwind_reason \<Rightarrow> search_state \<Rightarrow>
     (gu_frame_record list \<times> gu_unwind_reason \<times> search_state) cres" where
  "gu_unwind_dwarf_tail_by_fp env page raw_sp bp pc append_current_pc reason s =
     (if \<not> ss_pid s then Ok ([], reason, s)
      else
        let s = s\<lparr>ss_item := blank_item, ss_reloaded := False\<rparr> in
        cbind (if append_current_pc then gu_append_pc_frame env pc True False s else Ok (None, False, s))
          (\<lambda>(frame, end_of_stack, s).
        let frs = (case frame of None \<Rightarrow> [] | Some fr \<Rightarrow> [fr]) in
        if frs \<noteq> [] \<and> end_of_stack then Ok (frs, GU_UNWIND_REASON_END_OF_STACK, s)
        else
          cbind (tail_loop env page raw_sp MAX_FP_STACK_LEVEL bp s) (\<lambda>(frs', e, s).
          let reason = (if e then GU_UNWIND_REASON_END_OF_STACK else reason) in
          Ok (frs @ frs', if frs @ frs' \<noteq> [] then GU_UNWIND_REASON_END_OF_STACK else reason, s))))"

subsection \<open>The frame-pointer path\<close>

record fp_state =
  fs_search :: search_state
  fs_elf :: "elf_ptr option"
  fs_vaddr :: u64

text \<open>The image of the next program counter; \<open>False\<close> when the walk stops there.\<close>

definition fp_image :: "pid_env \<Rightarrow> bool \<Rightarrow> u64 \<Rightarrow> fp_state \<Rightarrow> (bool \<times> fp_state) cres" where
  "fp_image env allow_unknown pc st =
     (if in_item (ss_item (fs_search st)) pc then Ok (True, st)
      else
        cbind (gu_search_pid_elf_ctx env pc (fs_search st)) (\<lambda>(ret, s).
        if 0 \<le> ret then
          cbind (gu_get_elf_ctx_from_item (ss_ctx s) (ss_item s))
            (\<lambda>(elf, va). Ok (True, \<lparr>fs_search = s, fs_elf = elf, fs_vaddr = va\<rparr>))
        else Ok (allow_unknown, st\<lparr>fs_search := s, fs_elf := None\<rparr>)))"

text \<open>The frame and whether it is at the bottom; no frame where an unknown one is not allowed.\<close>

definition fp_frame :: "bool \<Rightarrow> u64 \<Rightarrow> fp_state \<Rightarrow> (gu_frame_record option \<times> bool) cres" where
  "fp_frame allow_unknown pc st =
     (case fs_elf st of
        None \<Rightarrow> Ok (if allow_unknown then Some (anon_frame pc) else None, False)
      | Some p \<Rightarrow>
          let ctx = ss_ctx (fs_search st) in
          cbind (image_of ctx p) (\<lambda>e.
          let relative_pc = pc - (ia_start (ss_item (fs_search st)) - fs_vaddr st) in
          cbind (if symbols e = None then Ok None else symbol_at e relative_pc) (\<lambda>r.
          let (symbol, off) = (case r of None \<Rightarrow> (None, 0) | Some x \<Rightarrow> x) in
          Ok (Some (image_frame (go_only_buildid ctx) p e pc relative_pc symbol off), is_stack_bottom_symbol symbol))))"

definition fp_entry :: "gu_stack_info \<Rightarrow> nat \<Rightarrow> u64 cres" where
  "fp_entry info i = (if i < length (ustack_fp info) then Ok (ustack_fp info ! i) else Undef OutOfBounds)"

text \<open>The frames, the reason, \<open>max_backtrace_level\<close> on leaving and the state.\<close>

fun fp_loop ::
  "pid_env \<Rightarrow> bool \<Rightarrow> nat \<Rightarrow> nat \<Rightarrow> nat \<Rightarrow> u64 \<Rightarrow> fp_state \<Rightarrow> (gu_frame_record list \<times> gu_unwind_reason \<times> int \<times> fp_state) cres" where
  "fp_loop env allow max_fp_level 0 fp_level pc st = Ok ([], GU_UNWIND_REASON_UNKNOWN, -1, st)"
| "fp_loop env allow max_fp_level (Suc n) fp_level pc st =
     (if pc = 0 then Ok ([], GU_UNWIND_REASON_END_OF_STACK, int n, st)
      else
        cbind (fp_image env allow pc st) (\<lambda>(known, st).
        if \<not> known then Ok ([], GU_UNWIND_REASON_NO_EXEC_PC, int n, st)
        else
          cbind (fp_frame allow pc st) (\<lambda>(frame, bottom).
          case frame of
            None \<Rightarrow> Ok ([], GU_UNWIND_REASON_NO_EXEC_PC, int n, st)
          | Some fr \<Rightarrow>
              if bottom \<or> max_fp_level \<le> fp_level then Ok ([fr], GU_UNWIND_REASON_END_OF_STACK, int n, st)
              else
                cbind (fp_entry (ss_info (fs_search st)) fp_level) (\<lambda>pc.
                cbind (fp_loop env allow max_fp_level n (Suc fp_level) pc st) (\<lambda>(frs, r, l, st).
                Ok (fr # frs, r, l, st))))))"

definition fp_levels :: "gu_stack_info \<Rightarrow> nat" where
  "fp_levels info = (if of_nat MAX_FP_STACK_LEVEL < ustack_fp_level info then MAX_FP_STACK_LEVEL else unat (ustack_fp_level info))"

definition gu_unwind_by_fp ::
  "pid_env \<Rightarrow> gu_stack_info \<Rightarrow> gu_context \<Rightarrow> (int \<times> gu_frame_record list \<times> gu_stack_info \<times> gu_context) cres" where
  "gu_unwind_by_fp env info ctx =
     (let max_fp_level = fp_levels info;
          allow_unknown = gu_flags_is_set info GU_FLAG_FP_ALLOW_UNKNOWN in
      if max_fp_level = 0 then Ok (0, [], gu_flags_set_reason info GU_UNWIND_REASON_END_OF_STACK, ctx)
      else
        cbind (fp_entry info 0) (\<lambda>pc.
        cbind (fp_loop env allow_unknown max_fp_level MAX_FP_STACK_LEVEL 1 pc
                 \<lparr>fs_search = \<lparr>ss_item = blank_item, ss_reloaded = False, ss_pid = True, ss_info = info, ss_ctx = ctx\<rparr>,
                  fs_elf = None, fs_vaddr = 0\<rparr>) (\<lambda>(frs, reason, level, st).
        let reason = (if reason = GU_UNWIND_REASON_UNKNOWN then GU_UNWIND_REASON_TRUNCATED else reason) in
        Ok (int MAX_FP_STACK_LEVEL - level, frs, gu_flags_set_reason (ss_info (fs_search st)) reason, ss_ctx (fs_search st)))))"

subsection \<open>The CFI loop\<close>

record unwind_state =
  us_search :: search_state
  us_elf :: "elf_ptr option"
  us_vaddr :: u64
  us_scratch :: ops_scratch
  us_fault :: "read_fault option"
  us_frames :: "gu_frame_record list"
  us_pc :: u64
  us_sp :: u64
  us_raw_sp :: u64
  us_prev_sp :: u64
  us_prev_pc :: u64
  us_signal_frame :: bool
  us_loop_count :: nat
  us_append_pc :: bool
  us_reason :: gu_unwind_reason

definition pc_regno :: "arch \<Rightarrow> int" where
  "pc_regno a = (case a of ARM64 \<Rightarrow> reg_name_lr | X86_64 \<Rightarrow> reg_name_rip X86_64)"

definition stop :: "gu_unwind_reason \<Rightarrow> unwind_state \<Rightarrow> (bool \<times> unwind_state) cres" where
  "stop r st = Ok (False, st\<lparr>us_reason := r\<rparr>)"

definition set_ctx :: "gu_context \<Rightarrow> unwind_state \<Rightarrow> unwind_state" where
  "set_ctx ctx st = st\<lparr>us_search := (us_search st)\<lparr>ss_ctx := ctx\<rparr>\<rparr>"

text \<open>The image of the current program counter; \<open>False\<close> leaves the loop.\<close>

definition find_image :: "pid_env \<Rightarrow> unwind_state \<Rightarrow> (bool \<times> unwind_state) cres" where
  "find_image env st =
     (if in_item (ss_item (us_search st)) (us_pc st) then Ok (True, st)
      else
        cbind (gu_search_pid_elf_ctx env (us_pc st) (us_search st)) (\<lambda>(ret, s).
        let st = st\<lparr>us_search := s\<rparr> in
        if ret < 0 then stop GU_UNWIND_REASON_NO_EXEC_PC st
        else
          cbind (gu_get_elf_ctx_from_item (ss_ctx s) (ss_item s)) (\<lambda>(elf, va).
          let st = st\<lparr>us_elf := elf, us_vaddr := va\<rparr> in
          if elf = None then stop GU_UNWIND_REASON_NO_EXEC_PC (st\<lparr>us_append_pc := True\<rparr>)
          else Ok (True, st))))"

text \<open>\<open>gen_reg\<close> on the current state: the reason, the value and the state with the read fault left.\<close>

definition step_reg :: "unwind_env \<Rightarrow> u64 \<Rightarrow> int \<Rightarrow> unwind_state \<Rightarrow> (gu_unwind_reason \<times> u64 \<times> unwind_state) cres" where
  "step_reg env bias regno st =
     (case gen_reg (ue_depth env)
             \<lparr>ev_arch = ue_arch env, ev_bias = bias, ev_raw_sp = us_raw_sp st, ev_info = ss_info (us_search st),
              ev_page = ue_page env, ev_scratch = us_scratch st\<rparr> regno (us_fault st) of
        (Ok (r, v), f) \<Rightarrow> Ok (r, case v of None \<Rightarrow> 0 | Some v \<Rightarrow> v, st\<lparr>us_fault := f\<rparr>)
      | (Fail, f) \<Rightarrow> Fail
      | (Undef k, f) \<Rightarrow> Undef k)"

definition return_address :: "unwind_env \<Rightarrow> u64 \<Rightarrow> bool \<Rightarrow> unwind_state \<Rightarrow> (gu_unwind_reason \<times> u64 \<times> unwind_state) cres" where
  "return_address env bias initial_frame st =
     cbind (step_reg env bias (pc_regno (ue_arch env)) st) (\<lambda>(r, v, st).
       if r \<noteq> GU_UNWIND_REASON_OK \<and> initial_frame then
         (case get_regs (ue_arch env) (ss_info (us_search st)) (pc_regno (ue_arch env)) of
            Ok w \<Rightarrow> Ok (GU_UNWIND_REASON_OK, w, st)
          | Fail \<Rightarrow> Ok (r, v, st)
          | Undef k \<Rightarrow> Undef k)
       else Ok (r, v, st))"

text \<open>A failed write of a register is ignored.\<close>

definition set_reg :: "unwind_env \<Rightarrow> int \<Rightarrow> u64 \<Rightarrow> unwind_state \<Rightarrow> unwind_state cres" where
  "set_reg env regno v st =
     (case write_regs (ue_arch env) (ss_info (us_search st)) regno v of
        Ok info \<Rightarrow> Ok (st\<lparr>us_search := (us_search st)\<lparr>ss_info := info\<rparr>\<rparr>)
      | Fail \<Rightarrow> Ok st
      | Undef k \<Rightarrow> Undef k)"

text \<open>The loop guards, then the new stack pointer and return address are written back.\<close>

definition advance :: "unwind_env \<Rightarrow> u64 \<Rightarrow> u64 \<Rightarrow> unwind_state \<Rightarrow> (bool \<times> unwind_state) cres" where
  "advance env ra sp st =
     (if ra = 0 then stop GU_UNWIND_REASON_END_OF_STACK st
      else if sp \<le> us_prev_sp st \<or> ra = us_prev_pc st then stop GU_UNWIND_REASON_NO_PROGRESS st
      else
        cbind (set_reg env (reg_name_rsp (ue_arch env)) sp (st\<lparr>us_prev_sp := sp, us_prev_pc := ra\<rparr>)) (\<lambda>st.
        cbind (set_reg env (pc_regno (ue_arch env)) ra st) (\<lambda>st. Ok (True, st))))"

definition unwind_regs :: "unwind_env \<Rightarrow> u64 \<Rightarrow> bool \<Rightarrow> bool \<Rightarrow> unwind_state \<Rightarrow> (bool \<times> unwind_state) cres" where
  "unwind_regs env bias initial_frame unwound_signal_frame st =
     cbind (return_address env bias initial_frame st) (\<lambda>(r, ra, st).
     if r \<noteq> GU_UNWIND_REASON_OK then stop r st
     else
       cbind (step_reg env bias (reg_name_rsp (ue_arch env)) st) (\<lambda>(r, sp, st).
       if r \<noteq> GU_UNWIND_REASON_OK then stop r st
       else
         cbind (step_reg env bias (reg_name_rbp (ue_arch env)) st) (\<lambda>(r, bp, st).
         cbind (if r = GU_UNWIND_REASON_OK then set_reg env (reg_name_rbp (ue_arch env)) bp st else Ok st) (\<lambda>st.
         advance env ra sp
           (st\<lparr>us_reason := r, us_pc := ra, us_sp := sp, us_signal_frame := unwound_signal_frame\<rparr>)))))"

text \<open>The part of a turn after the frame is emitted: the rules of its image give the caller's registers.\<close>

definition caller_regs ::
  "unwind_env \<Rightarrow> nat \<Rightarrow> bool \<Rightarrow> u64 \<Rightarrow> u64 \<Rightarrow> elf_ptr \<Rightarrow> per_elf_ctx \<Rightarrow> unwind_state \<Rightarrow> (bool \<times> unwind_state) cres" where
  "caller_regs env level initial_frame bias relative_pc p e st =
     (case elf_cfi e of
        None \<Rightarrow> stop GU_UNWIND_REASON_NO_CFI st
      | Some cfi \<Rightarrow>
          cbind (gu_cfi_parse_cfi_ex (ue_arch env) (ue_cfi_ok env level) (us_scratch st) cfi
                   (gu_cfi_lookup_pc_for_frame relative_pc initial_frame (us_signal_frame st)))
            (\<lambda>(scratch, cfi', unwound_signal_frame, ok).
          let st = set_ctx (put_elf p (e\<lparr>elf_cfi := Some cfi'\<rparr>) (ss_ctx (us_search st))) (st\<lparr>us_scratch := scratch\<rparr>) in
          if \<not> ok then stop GU_UNWIND_REASON_CFI_FRAME_DECODE_FAILED st
          else unwind_regs env bias initial_frame unwound_signal_frame st))"

text \<open>
  One turn of the loop. \<open>loop_count\<close> advances in the argument of a log macro, so only when verbose
  logging is on.
\<close>

definition unwind_step :: "unwind_env \<Rightarrow> nat \<Rightarrow> unwind_state \<Rightarrow> (bool \<times> unwind_state) cres" where
  "unwind_step env level st =
     (let initial_frame = (us_loop_count st = 0);
          st = (if ue_verbose env then st\<lparr>us_loop_count := us_loop_count st + 1\<rparr> else st) in
      cbind (find_image (ue_reload env) st) (\<lambda>(found, st).
      if \<not> found then Ok (False, st)
      else
        (case us_elf st of
           None \<Rightarrow> Undef NullDeref
         | Some p \<Rightarrow>
             let ctx = ss_ctx (us_search st) in
             cbind (image_of ctx p) (\<lambda>e.
             let bias = ia_start (ss_item (us_search st)) - us_vaddr st; relative_pc = us_pc st - bias in
             cbind (gu_lookup_elf_symbol e (gu_frame_lookup_pc_for_return_address relative_pc initial_frame (us_signal_frame st)))
               (\<lambda>(symbol, off).
             let st = st\<lparr>us_frames := us_frames st @ [image_frame (go_only_buildid ctx) p e (us_pc st) relative_pc symbol off]\<rparr> in
             if is_stack_bottom_symbol symbol then stop GU_UNWIND_REASON_END_OF_STACK st
             else caller_regs env level initial_frame bias relative_pc p e st)))))"

text \<open>\<open>max_backtrace_level\<close> on leaving and the state.\<close>

fun unwind_loop :: "unwind_env \<Rightarrow> nat \<Rightarrow> unwind_state \<Rightarrow> (int \<times> unwind_state) cres" where
  "unwind_loop env 0 st = Ok (-1, st)"
| "unwind_loop env (Suc n) st =
     cbind (unwind_step env n st) (\<lambda>(go, st). if go then unwind_loop env n st else Ok (int n, st))"

subsection \<open>The entry point\<close>

text \<open>\<open>get_regs\<close> whose result is not checked: the variable stays uninitialised when it fails.\<close>

definition must_reg :: "arch \<Rightarrow> gu_stack_info \<Rightarrow> int \<Rightarrow> u64 cres" where
  "must_reg a info regno = (case get_regs a info regno of Fail \<Rightarrow> Undef Uninitialised | r \<Rightarrow> r)"

definition unwind_start :: "unwind_env \<Rightarrow> gu_stack_info \<Rightarrow> gu_context \<Rightarrow> u64 \<Rightarrow> u64 \<Rightarrow> unwind_state" where
  "unwind_start env info ctx pc sp =
     \<lparr>us_search = \<lparr>ss_item = blank_item, ss_reloaded = False, ss_pid = True, ss_info = info, ss_ctx = ctx\<rparr>,
      us_elf = None, us_vaddr = 0, us_scratch = ue_scratch env, us_fault = ue_fault env, us_frames = [],
      us_pc = pc, us_sp = sp, us_raw_sp = sp, us_prev_sp = sp, us_prev_pc = 0, us_signal_frame = False,
      us_loop_count = 0, us_append_pc = False, us_reason = GU_UNWIND_REASON_UNKNOWN\<rparr>"

text \<open>After the loop: unless the bottom was reached, the frame pointer is tried on the rest of the stack.\<close>

definition unwind_end :: "unwind_env \<Rightarrow> unwind_state \<Rightarrow> (gu_frame_record list \<times> gu_unwind_reason \<times> search_state) cres" where
  "unwind_end env st =
     (let reason = (if us_reason st = GU_UNWIND_REASON_UNKNOWN then GU_UNWIND_REASON_TRUNCATED else us_reason st) in
      if reason = GU_UNWIND_REASON_END_OF_STACK \<or> reason = GU_UNWIND_REASON_PROCESS_EXIT then Ok ([], reason, us_search st)
      else
        (case get_regs (ue_arch env) (ss_info (us_search st)) (reg_name_rbp (ue_arch env)) of
           Undef k \<Rightarrow> Undef k
         | Fail \<Rightarrow> Ok ([], reason, us_search st)
         | Ok bp \<Rightarrow>
             gu_unwind_dwarf_tail_by_fp (ue_tail env) (ue_page env) (us_raw_sp st) bp (us_pc st) (us_append_pc st) reason
               (us_search st)))"

definition unwind_dwarf ::
  "unwind_env \<Rightarrow> gu_stack_info \<Rightarrow> gu_context \<Rightarrow> (int \<times> gu_frame_record list \<times> gu_stack_info \<times> gu_context) cres" where
  "unwind_dwarf env info ctx =
     cbind (must_reg (ue_arch env) info (reg_name_rip (ue_arch env))) (\<lambda>pc.
     cbind (must_reg (ue_arch env) info (reg_name_rsp (ue_arch env))) (\<lambda>sp.
     cbind (unwind_loop env 512 (unwind_start env info ctx pc sp)) (\<lambda>(level, st).
     cbind (unwind_end env st) (\<lambda>(frs, reason, s).
       Ok (512 - level, us_frames st @ frs, gu_flags_set_reason (ss_info s) reason, ss_ctx s)))))"

text \<open>A context left over from an earlier process with the same id is dropped.\<close>

definition drop_reused :: "u64 \<Rightarrow> gu_stack_info \<Rightarrow> gu_context \<Rightarrow> gu_context cres" where
  "drop_reused clk info ctx =
     (case find_pid ctx (pid info) of
        None \<Rightarrow> Ok ctx
      | Some c \<Rightarrow>
          if unique_id info \<noteq> 0 \<and> ctx_unique_id c \<noteq> unique_id info \<and> \<not> debug ctx
          then gu_clear_pid_ctx clk (pid info)
                 (notify c GU_PID_CTX_EVENT_DESTROY
                   (count_stat (\<lambda>s. s\<lparr>unique_id_caused_reload_count := unique_id_caused_reload_count s + 1\<rparr>) ctx))
          else Ok ctx)"

text \<open>Finding or loading the process of the sample; \<open>False\<close> when the call fails.\<close>

definition unwind_pid :: "pid_env \<Rightarrow> gu_stack_info \<Rightarrow> gu_context \<Rightarrow> (bool \<times> gu_stack_info \<times> gu_context) cres" where
  "unwind_pid env info ctx =
     (case find_pid ctx (pid info) of
        Some c \<Rightarrow> Ok (True, info, ctx)
      | None \<Rightarrow>
          if \<not> pe_alive env \<and> \<not> debug ctx then Ok (False, gu_flags_set_reason info GU_UNWIND_REASON_PROCESS_EXIT, ctx)
          else
            cbind (gu_load_pid env (pid info) (unique_id info) ctx) (\<lambda>(r, ctx).
            case r of
              None \<Rightarrow> Ok (False, gu_flags_set_reason info GU_UNWIND_REASON_PROCESS_EXIT, ctx)
            | Some c \<Rightarrow> Ok (True, hint_fp c info, add_pid c ctx)))"

definition gu_unwind ::
  "unwind_env \<Rightarrow> gu_stack_info \<Rightarrow> gu_context \<Rightarrow> (int \<times> gu_frame_record list \<times> gu_stack_info \<times> gu_context) cres" where
  "gu_unwind env info ctx =
     (let fp = gu_flags_is_set info GU_FLAG_HINT_SET_FP; clk = pe_clk (ue_load env) in
      if pt_regs info = None then Ok (-1, [], gu_flags_set_reason info GU_UNWIND_REASON_NO_REGS, ctx)
      else
        cbind (gu_maybe_sweep_retired_elf clk ctx) (\<lambda>ctx.
        cbind (drop_reused clk info ctx) (\<lambda>ctx.
        cbind (unwind_pid (ue_load env) info ctx) (\<lambda>(loaded, info, ctx).
        if \<not> loaded then Ok (-1, [], info, ctx)
        else
          (case find_pid ctx (pid info) of
             None \<Rightarrow> Undef UseAfterFree
           | Some c \<Rightarrow>
               if elf_map_list c = None then Ok (-1, [], gu_flags_set_reason info GU_UNWIND_REASON_NO_ELF, ctx)
               else if fp then gu_unwind_by_fp (ue_reload env) info ctx
               else unwind_dwarf env info ctx)))))"

definition gu_get_statistics :: "gu_context \<Rightarrow> gu_statistics" where
  "gu_get_statistics ctx = statistics ctx"

subsection \<open>What unwinding keeps\<close>

text \<open>The sample changes in its register values and its flags only.\<close>

definition same_shape :: "gu_stack_info \<Rightarrow> gu_stack_info \<Rightarrow> bool" where
  "same_shape info info' \<longleftrightarrow>
     info' = info\<lparr>pt_regs := pt_regs info', flags := flags info'\<rparr> \<and> map_option length (pt_regs info') = map_option length (pt_regs info)"

lemma same_shape_refl [simp, intro]: "same_shape info info"
  by (simp add: same_shape_def)

lemma same_shape_trans: "same_shape a b \<Longrightarrow> same_shape b c \<Longrightarrow> same_shape a c"
  unfolding same_shape_def by (cases a, cases b, cases c) auto

lemma same_shape_flags [simp, intro]:
  "same_shape info (gu_flags_set_reason info r)" "same_shape info (gu_flags_set info f)" "same_shape info (hint_fp c info)"
  by (cases info; simp add: same_shape_def gu_flags_set_reason_def gu_flags_set_def hint_fp_def)+

lemma write_regs_shape: "write_regs a info r v = Ok info' \<Longrightarrow> same_shape info info'"
  by (cases info) (auto simp: write_regs_def same_shape_def Let_def split: option.splits if_splits)

lemma same_shape_pid: "same_shape info info' \<Longrightarrow> pid info' = pid info"
  unfolding same_shape_def by (cases info, cases info') auto

text \<open>The symbols of the images, and whether Go images are reported by build-id only.\<close>

definition tables :: "gu_context \<Rightarrow> bool \<times> (elf_ptr \<Rightarrow> (interval_array option \<times> sym_heap) option)" where
  "tables ctx = (go_only_buildid ctx, \<lambda>p. map_option (\<lambda>e. (symbols e, symbol_heap e)) (get_elf ctx p))"

lemma reload_allowed_tables:
  "gu_maps_reload_allowed clk p ctx = Ok (a, ctx') \<Longrightarrow> tables ctx' = tables ctx"
  by (auto simp: gu_maps_reload_allowed_def Let_def tables_def get_elf_def put_pid_def count_stat_def split: option.splits if_splits)

lemma get_put_elf: "get_elf ctx p = Some e \<Longrightarrow> get_elf (put_elf p e' ctx) q = (if q = p then Some e' else get_elf ctx q)"
proof -
  have "map_of (map (\<lambda>(q, x). (q, if q = p then e' else x)) L) q =
      (if q = p then map_option (\<lambda>_. e') (map_of L q) else map_of L q)" for L
    by (induction L) auto
  then show "get_elf ctx p = Some e \<Longrightarrow> get_elf (put_elf p e' ctx) q = (if q = p then Some e' else get_elf ctx q)"
    by (simp add: get_elf_def put_elf_def)
qed

text \<open>
  A lookup that may reload the process keeps the invariant of the context, and asks for memory only
  once. Without a reload the images keep their symbols.
\<close>

definition ready :: "pid_env \<Rightarrow> search_state \<Rightarrow> bool" where
  "ready env s \<longleftrightarrow> world_ok (ss_ctx s) \<and> clock_ok (pe_clk env) (ss_ctx s) \<and> (ss_reloaded s \<or> env_fresh 0 env (ss_ctx s))"

definition keeps_ctx :: "pid_env \<Rightarrow> search_state \<Rightarrow> search_state \<Rightarrow> bool" where
  "keeps_ctx env s s' \<longleftrightarrow> same_shape (ss_info s) (ss_info s') \<and>
     (ready env s \<longrightarrow> ready env s' \<and> timer (ss_ctx s') = timer (ss_ctx s) \<and> grows env (ss_ctx s) (ss_ctx s')) \<and>
     (\<not> ss_reloaded s' \<longrightarrow> \<not> ss_reloaded s \<and> tables (ss_ctx s') = tables (ss_ctx s))"

lemma grows_refl [simp, intro]: "grows env ctx ctx"
  by (simp add: grows_def)

lemma keeps_refl [simp, intro]: "keeps_ctx env s s"
  by (simp add: keeps_ctx_def)

lemma keeps_trans: "keeps_ctx env a b \<Longrightarrow> keeps_ctx env b c \<Longrightarrow> keeps_ctx env a c"
  unfolding keeps_ctx_def using same_shape_trans grows_trans by metis

lemma keeps_item [simp, intro]: "keeps_ctx env s (s\<lparr>ss_item := it\<rparr>)"
  by (simp add: keeps_ctx_def ready_def)

lemma keeps_info: "same_shape (ss_info s) info \<Longrightarrow> keeps_ctx env s (s\<lparr>ss_info := info\<rparr>)"
  by (simp add: keeps_ctx_def ready_def)

lemma env_fresh_same:
  "map_ctxs ctx' = map_ctxs ctx \<Longrightarrow> fst ` set (elf_ctx_list ctx') = fst ` set (elf_ctx_list ctx) \<Longrightarrow> env_fresh i env ctx' = env_fresh i env ctx"
  by (simp add: env_fresh_def)

lemma reload_shape:
  assumes "gu_reload_pid_ctx env info ctx = Ok (k, info', ctx')"
  shows "same_shape info info'"
  using assms by (auto simp: gu_reload_pid_ctx_def Let_def split: option.splits elim!: cbind_OkE)

lemma search_keeps:
  assumes r: "gu_search_pid_elf_ctx env pc s = Ok (ret, s')"
  shows "keeps_ctx env s s'"
proof -
  obtain ret1 it where s1: "search_maps (pid (ss_info s)) pc (ss_ctx s) (ss_item s) = Ok (ret1, it)"
    using r by (auto simp: gu_search_pid_elf_ctx_def split: if_splits elim!: cbind_OkE)
  show ?thesis
  proof (cases "0 \<le> ret1 \<or> ss_reloaded s")
    case True
    then show ?thesis using r s1 by (auto simp: gu_search_pid_elf_ctx_def Let_def split: if_splits)
  next
    case False
    then obtain a ctx1 where a: "gu_maps_reload_allowed (pe_clk env) (pid (ss_info s)) (ss_ctx s) = Ok (a, ctx1)"
      using r s1 by (auto simp: gu_search_pid_elf_ctx_def Let_def split: if_splits elim!: cbind_OkE)
    have A: "world_ok (ss_ctx s) \<Longrightarrow> world_ok ctx1 \<and> timer ctx1 = timer (ss_ctx s) \<and> map_ctxs ctx1 = map_ctxs (ss_ctx s) \<and>
        elf_ctx_list ctx1 = elf_ctx_list (ss_ctx s)"
      using reload_allowed_ok [OF _ a] by blast
    let ?s1 = "s\<lparr>ss_item := it, ss_ctx := ctx1\<rparr>"
    have k1: "keeps_ctx env s ?s1"
      using A env_fresh_same [of ctx1 "ss_ctx s"] reload_allowed_tables [OF a] by (auto simp: keeps_ctx_def ready_def grows_def clock_ok_def)
    show ?thesis
    proof (cases "a \<and> (debug ctx1 \<or> pe_alive env)")
      case False
      then have "s' = ?s1 \<or> s' = ?s1\<lparr>ss_info := gu_flags_set_reason (ss_info s) GU_UNWIND_REASON_PROCESS_EXIT\<rparr>"
        using r s1 a \<open>\<not> (0 \<le> ret1 \<or> ss_reloaded s)\<close> by (auto simp: gu_search_pid_elf_ctx_def Let_def split: if_splits)
      then show ?thesis using k1 keeps_trans [OF k1 keeps_info] by auto
    next
      case True
      let ?c = "count_stat (\<lambda>t. t\<lparr>pid_maps_reload_count := pid_maps_reload_count t + 1\<rparr>) ctx1"
      obtain k info2 ctx2 where l: "gu_reload_pid_ctx env (ss_info s) ?c = Ok (k, info2, ctx2)"
          "ss_reloaded s'" "ss_info s' = info2" "ss_ctx s' = ctx2"
        using r s1 a True \<open>\<not> (0 \<le> ret1 \<or> ss_reloaded s)\<close>
        by (auto simp: gu_search_pid_elf_ctx_def Let_def split: if_splits elim!: cbind_OkE)
      have c: "world_ok ?c = world_ok ctx1" by (rule world_ok_frame) (simp_all add: count_stat_def)
      have sel: "map_ctxs ?c = map_ctxs ctx1" "elf_ctx_list ?c = elf_ctx_list ctx1" "timer ?c = timer ctx1" by (simp_all add: count_stat_def)
      have R: "world_ok ctx1 \<Longrightarrow> env_fresh 0 env ctx1 \<Longrightarrow> clock_ok (pe_clk env) ctx1 \<Longrightarrow>
          world_ok ctx2 \<and> grows env ctx1 ctx2 \<and> timer ctx2 = timer ctx1"
        using gu_reload_pid_ctx_ok [OF _ _ _ l(1)] c env_fresh_same [of ?c ctx1 0 env] sel
        by (auto simp: clock_ok_def grows_def)
      have "keeps_ctx env ?s1 s'"
        using l(2-4) reload_shape [OF l(1)] R False by (auto simp: keeps_ctx_def ready_def clock_ok_def)
      then show ?thesis using keeps_trans [OF k1] by blast
    qed
  qed
qed

lemma append_keeps:
  assumes "gu_append_pc_frame env pc i g s = Ok (fr, e, s')"
  shows "keeps_ctx env s s'"
proof (cases "pc = 0 \<or> in_item (ss_item s) pc")
  case True
  then have "s' = s"
    using assms by (auto simp: gu_append_pc_frame_def Let_def split: if_splits option.splits prod.splits elim!: cbind_OkE)
  then show ?thesis by simp
next
  case False
  then obtain ret where "gu_search_pid_elf_ctx env pc (s\<lparr>ss_item := blank_item\<rparr>) = Ok (ret, s')"
    using assms by (auto simp: gu_append_pc_frame_def Let_def split: if_splits option.splits prod.splits elim!: cbind_OkE)
  then show ?thesis using keeps_trans [OF keeps_item search_keeps] by blast
qed

lemma tail_loop_keeps: "tail_loop env page raw_sp n bp s = Ok (frs, e, s') \<Longrightarrow> keeps_ctx env s s' \<and> length frs \<le> n"
proof (induction n arbitrary: bp s frs e)
  case (Suc n)
  show ?case
  proof (cases "tail_next page (ss_info s) raw_sp bp")
    case (Ok x)
    obtain nb np where x: "x = (nb, np)" by force
    obtain fr e1 s1 where a: "gu_append_pc_frame env np False False s = Ok (fr, e1, s1)"
      using Suc.prems Ok x by (auto elim!: cbind_OkE)
    note k = append_keeps [OF a]
    show ?thesis
    proof (cases "fr = None \<or> e1")
      case True
      then show ?thesis using Suc.prems Ok x a k by (auto split: option.splits)
    next
      case False
      then obtain frs1 where t: "tail_loop env page raw_sp n nb s1 = Ok (frs1, e, s')" "length frs = Suc (length frs1)"
        using Suc.prems Ok x a by (auto elim!: cbind_OkE)
      show ?thesis using Suc.IH [OF t(1)] t(2) k keeps_trans by auto
    qed
  qed (use Suc.prems in auto)
qed simp

lemma tail_keeps:
  assumes "gu_unwind_dwarf_tail_by_fp env page raw_sp bp pc a r s = Ok (frs, r', s')"
  shows "keeps_ctx env (s\<lparr>ss_reloaded := False\<rparr>) s' \<or> s' = s" "length frs \<le> 128"
    "r' = r \<or> r' = GU_UNWIND_REASON_END_OF_STACK"
proof -
  let ?s = "s\<lparr>ss_item := blank_item, ss_reloaded := False\<rparr>"
  have K: "(keeps_ctx env ?s s' \<or> s' = s) \<and> length frs \<le> 128 \<and> (r' = r \<or> r' = GU_UNWIND_REASON_END_OF_STACK)"
  proof (cases "ss_pid s")
    case False
    then show ?thesis using assms by (simp add: gu_unwind_dwarf_tail_by_fp_def)
  next
    case True
    obtain fr e s1 where a: "(if a then gu_append_pc_frame env pc True False ?s else Ok (None, False, ?s)) = Ok (fr, e, s1)"
      using assms True by (auto simp: gu_unwind_dwarf_tail_by_fp_def Let_def elim!: cbind_OkE)
    have k: "keeps_ctx env ?s s1" using a append_keeps by (auto split: if_splits)
    show ?thesis
    proof (cases "fr \<noteq> None \<and> e")
      case True
      then show ?thesis
        using assms \<open>ss_pid s\<close> a k by (auto simp: gu_unwind_dwarf_tail_by_fp_def Let_def)
    next
      case False
      then obtain frs' e' where t: "tail_loop env page raw_sp MAX_FP_STACK_LEVEL bp s1 = Ok (frs', e', s')"
          "frs = (case fr of None \<Rightarrow> [] | Some x \<Rightarrow> [x]) @ frs'" "r' = r \<or> r' = GU_UNWIND_REASON_END_OF_STACK"
        using assms True a by (auto simp: gu_unwind_dwarf_tail_by_fp_def Let_def split: option.splits if_splits elim!: cbind_OkE)
      then show ?thesis using tail_loop_keeps [OF t(1)] keeps_trans [OF k] by (auto split: option.splits)
    qed
  qed
  have "keeps_ctx env (s\<lparr>ss_reloaded := False\<rparr>) ?s" by (simp add: keeps_ctx_def ready_def)
  then show "keeps_ctx env (s\<lparr>ss_reloaded := False\<rparr>) s' \<or> s' = s" using K keeps_trans by blast
  show "length frs \<le> 128" "r' = r \<or> r' = GU_UNWIND_REASON_END_OF_STACK" using K by simp_all
qed

lemma fp_image_keeps:
  assumes "fp_image env allow pc st = Ok (k, st')"
  shows "keeps_ctx env (fs_search st) (fs_search st')"
proof (cases "in_item (ss_item (fs_search st)) pc")
  case True
  then show ?thesis using assms by (simp add: fp_image_def)
next
  case False
  then obtain ret s where s: "gu_search_pid_elf_ctx env pc (fs_search st) = Ok (ret, s)" "fs_search st' = s"
    using assms by (auto simp: fp_image_def split: if_splits prod.splits elim!: cbind_OkE)
  then show ?thesis using search_keeps [OF s(1)] by simp
qed

lemma fp_loop_keeps:
  assumes "fp_loop env allow m n l pc st = Ok (frs, r, lev, st')" "l \<le> m" "m < n + l"
  shows "keeps_ctx env (fs_search st) (fs_search st') \<and> length frs \<le> n \<and> 0 \<le> lev \<and> lev < int n \<and>
    r \<in> {GU_UNWIND_REASON_END_OF_STACK, GU_UNWIND_REASON_NO_EXEC_PC}"
  using assms
proof (induction n arbitrary: l pc st frs r lev)
  case 0
  then show ?case by simp
next
  case (Suc n)
  show ?case
  proof (cases "pc = 0")
    case True
    then show ?thesis using Suc.prems(1) by auto
  next
    case False
    obtain kn st1 where i: "fp_image env allow pc st = Ok (kn, st1)" using Suc.prems(1) False by (auto elim!: cbind_OkE)
    note k = fp_image_keeps [OF i]
    show ?thesis
    proof (cases kn)
      case False
      then show ?thesis using Suc.prems(1) \<open>pc \<noteq> 0\<close> i k by auto
    next
      case True
      obtain fr b where f: "fp_frame allow pc st1 = Ok (fr, b)" using Suc.prems(1) False i True by (auto elim!: cbind_OkE)
      show ?thesis
      proof (cases "fr = None \<or> b \<or> m \<le> l")
        case True
        then show ?thesis using Suc.prems(1) False i f k \<open>kn\<close> by (auto split: option.splits)
      next
        case False
        then obtain pc1 frs1 where t: "fp_loop env allow m n (Suc l) pc1 st1 = Ok (frs1, r, lev, st')" "length frs = Suc (length frs1)"
          using Suc.prems(1) i f \<open>kn\<close> \<open>pc \<noteq> 0\<close> by (auto elim!: cbind_OkE)
        show ?thesis using Suc.IH [OF t(1)] Suc.prems(2,3) False t(2) keeps_trans [OF k] by auto
      qed
    qed
  qed
qed

subsection \<open>The CFI loop keeps the invariant\<close>

lemma put_cfi_ok:
  assumes "world_ok ctx" "get_elf ctx p = Some e"
  shows "world_ok (put_elf p (e\<lparr>elf_cfi := c\<rparr>) ctx)"
proof -
  have E: "elf_cache_ok (refs_of (map_ctxs ctx)) ctx" using assms(1) by (simp add: world_ok_def ctx_ok_def)
  then have d: "distinct (map fst (elf_ctx_list ctx))" by (simp add: elf_cache_ok_def elf_table_ok_def)
  obtain xs ys where L: "elf_ctx_list ctx = xs @ (p, e) # ys" "p \<notin> fst ` set xs" "p \<notin> fst ` set ys"
    by (rule get_elf_split [OF assms(2) d])
  have P: "elf_ctx_list (put_elf p (e\<lparr>elf_cfi := c\<rparr>) ctx) = xs @ (p, e\<lparr>elf_cfi := c\<rparr>) # ys" by (rule put_elf_split [OF L])
  have sel: "next_retired_elf_deadline_ns (put_elf p x ctx) = next_retired_elf_deadline_ns ctx" "statistics (put_elf p x ctx) = statistics ctx"
      "map_ctxs (put_elf p x ctx) = map_ctxs ctx" "pid_ctx_list (put_elf p x ctx) = pid_ctx_list ctx" "pid_events (put_elf p x ctx) = pid_events ctx" for x
    by (simp_all add: put_elf_def)
  have "elf_cache_ok refs (put_elf p (e\<lparr>elf_cfi := c\<rparr>) ctx) = elf_cache_ok refs ctx" for refs
    unfolding elf_cache_ok_def elf_table_ok_def deadline_ok_def sel P L(1)
    by (simp add: entry_ok_def)
  then show ?thesis
    using assms(1) by (simp add: world_ok_def ctx_ok_def heap_ok_def owners_def arrays_ok_def events_ok_def sel)
qed

lemma put_cfi_keeps:
  assumes "get_elf (ss_ctx s) p = Some e"
  shows "keeps_ctx env s (s\<lparr>ss_ctx := put_elf p (e\<lparr>elf_cfi := c\<rparr>) (ss_ctx s)\<rparr>)"
proof -
  let ?c = "put_elf p (e\<lparr>elf_cfi := c\<rparr>) (ss_ctx s)"
  have m: "map_ctxs ?c = map_ctxs (ss_ctx s)" "timer ?c = timer (ss_ctx s)" by (simp_all add: put_elf_def)
  have f: "fst ` set (elf_ctx_list ?c) = fst ` set (elf_ctx_list (ss_ctx s))"
    using arg_cong [OF put_elf_fst, of set] by simp
  have "go_only_buildid ?c = go_only_buildid (ss_ctx s)" by (simp add: put_elf_def)
  then have "tables ?c = tables (ss_ctx s)" using assms by (simp add: tables_def get_put_elf fun_eq_iff)
  then show ?thesis
    using put_cfi_ok [OF _ assms] env_fresh_same [OF m(1) f] by (auto simp: keeps_ctx_def ready_def clock_ok_def grows_def m f)
qed

lemma step_reg_cases:
  assumes "step_reg env bias regno st = Ok (r, v, st')"
  shows "st' = st\<lparr>us_fault := us_fault st'\<rparr>"
    and "r \<in> {GU_UNWIND_REASON_OK, GU_UNWIND_REASON_CFI_FRAME_CFA_FAILED, GU_UNWIND_REASON_STACK_READ_OUT_OF_RANGE,
              GU_UNWIND_REASON_CFI_FRAME_CFA_CALC_FAILED}"
  using assms by (auto simp: step_reg_def gen_reg_def split: prod.splits cres.splits if_splits)

lemma return_address_cases:
  assumes "return_address env bias i st = Ok (r, v, st')"
  shows "st' = st\<lparr>us_fault := us_fault st'\<rparr>"
    and "r \<in> {GU_UNWIND_REASON_OK, GU_UNWIND_REASON_CFI_FRAME_CFA_FAILED, GU_UNWIND_REASON_STACK_READ_OUT_OF_RANGE,
              GU_UNWIND_REASON_CFI_FRAME_CFA_CALC_FAILED}"
proof -
  obtain r1 v1 st1 where s: "step_reg env bias (pc_regno (ue_arch env)) st = Ok (r1, v1, st1)"
    using assms by (auto simp: return_address_def elim!: cbind_OkE)
  then have "st' = st1 \<and> (r = r1 \<or> r = GU_UNWIND_REASON_OK)"
    using assms by (auto simp: return_address_def split: if_splits cres.splits)
  then show "st' = st\<lparr>us_fault := us_fault st'\<rparr>"
    and "r \<in> {GU_UNWIND_REASON_OK, GU_UNWIND_REASON_CFI_FRAME_CFA_FAILED, GU_UNWIND_REASON_STACK_READ_OUT_OF_RANGE,
              GU_UNWIND_REASON_CFI_FRAME_CFA_CALC_FAILED}"
    using step_reg_cases [OF s] by auto
qed

text \<open>The reasons the register rules give, and those the loop may end with.\<close>

lemma set_reg_cases:
  assumes "set_reg env regno v st = Ok st'"
  shows "\<exists>info. st' = st\<lparr>us_search := (us_search st)\<lparr>ss_info := info\<rparr>\<rparr> \<and> same_shape (ss_info (us_search st)) info"
proof -
  have "st' = st \<or> (\<exists>info. write_regs (ue_arch env) (ss_info (us_search st)) regno v = Ok info \<and>
      st' = st\<lparr>us_search := (us_search st)\<lparr>ss_info := info\<rparr>\<rparr>)"
    using assms by (auto simp: set_reg_def split: cres.splits)
  then show ?thesis
  proof
    assume "st' = st"
    then show ?thesis by (intro exI [of _ "ss_info (us_search st)"]) simp
  qed (use write_regs_shape in blast)
qed

definition loop_reason :: "gu_unwind_reason \<Rightarrow> bool" where
  "loop_reason r \<longleftrightarrow> r \<notin> {GU_UNWIND_REASON_UNKNOWN, GU_UNWIND_REASON_TRUNCATED, GU_UNWIND_REASON_PROCESS_EXIT}"

lemma keeps_us_info:
  "same_shape (ss_info (us_search st)) info \<Longrightarrow> keeps_ctx env (us_search st) ((us_search st)\<lparr>ss_info := info\<rparr>)"
  by (rule keeps_info)

text \<open>What the register part of a turn does to the rest of the state.\<close>

definition turn :: "pid_env \<Rightarrow> unwind_state \<Rightarrow> unwind_state \<Rightarrow> bool" where
  "turn pe st st' \<longleftrightarrow> keeps_ctx pe (us_search st) (us_search st') \<and> us_frames st' = us_frames st \<and>
     us_loop_count st' = us_loop_count st \<and> us_raw_sp st' = us_raw_sp st"

lemma turn_trans: "turn pe a b \<Longrightarrow> turn pe b c \<Longrightarrow> turn pe a c"
  unfolding turn_def using keeps_trans by metis

lemma turn_set_reg:
  assumes "set_reg env regno v st = Ok st'"
  shows "turn pe st st'" "us_prev_sp st' = us_prev_sp st" "us_prev_pc st' = us_prev_pc st" "us_pc st' = us_pc st" "us_reason st' = us_reason st"
  using set_reg_cases [OF assms] by (auto simp: turn_def intro: keeps_us_info)

lemma turn_step_reg:
  assumes "step_reg env bias regno st = Ok (r, v, st')"
  shows "turn pe st st'" "us_prev_sp st' = us_prev_sp st" "us_prev_pc st' = us_prev_pc st"
  by (subst step_reg_cases(1) [OF assms], simp add: turn_def)+

lemma turn_return_address:
  assumes "return_address env bias i st = Ok (r, v, st')"
  shows "turn pe st st'" "us_prev_sp st' = us_prev_sp st" "us_prev_pc st' = us_prev_pc st"
  by (subst return_address_cases(1) [OF assms], simp add: turn_def)+

lemma advance_cases:
  assumes "advance env ra sp st = Ok (go, st')" "us_pc st = ra"
  shows "turn pe st st' \<and> (us_reason st' = us_reason st \<or> loop_reason (us_reason st')) \<and>
    (go \<longrightarrow> us_pc st' = us_prev_pc st' \<and> us_pc st' \<noteq> us_prev_pc st \<and> us_prev_sp st < us_prev_sp st')"
proof (cases "ra = 0 \<or> sp \<le> us_prev_sp st \<or> ra = us_prev_pc st")
  case True
  then show ?thesis using assms(1) by (auto simp: advance_def stop_def turn_def loop_reason_def split: if_splits)
next
  case False
  let ?st = "st\<lparr>us_prev_sp := sp, us_prev_pc := ra\<rparr>"
  obtain st1 where s: "set_reg env (reg_name_rsp (ue_arch env)) sp ?st = Ok st1" "set_reg env (pc_regno (ue_arch env)) ra st1 = Ok st'" "go"
    using assms(1) False by (auto simp: advance_def elim!: cbind_OkE)
  note t1 = turn_set_reg [OF s(1)] and t2 = turn_set_reg [OF s(2)]
  have "turn pe st ?st" by (simp add: turn_def)
  then have "turn pe st st'" using turn_trans t1(1) t2(1) by blast
  then show ?thesis using False t1(2-) t2(2-) assms(2) by (simp add: not_le)
qed

lemma unwind_regs_cases:
  assumes "unwind_regs env bias i sf st = Ok (go, st')"
  shows "turn pe st st' \<and> loop_reason (us_reason st') \<and>
    (go \<longrightarrow> us_pc st' = us_prev_pc st' \<and> us_pc st' \<noteq> us_prev_pc st \<and> us_prev_sp st < us_prev_sp st')"
proof -
  obtain r ra st1 where s1: "return_address env bias i st = Ok (r, ra, st1)"
    using assms by (auto simp: unwind_regs_def elim!: cbind_OkE)
  note t1 = turn_return_address [OF s1]
  show ?thesis
  proof (cases "r = GU_UNWIND_REASON_OK")
    case False
    then have "go = False" "st' = st1\<lparr>us_reason := r\<rparr>" using assms s1 by (auto simp: unwind_regs_def stop_def)
    then show ?thesis using t1 return_address_cases(2) [OF s1] by (auto simp: loop_reason_def turn_def)
  next
    case True
    obtain r2 sp st2 where s2: "step_reg env bias (reg_name_rsp (ue_arch env)) st1 = Ok (r2, sp, st2)"
      using assms s1 True by (auto simp: unwind_regs_def elim!: cbind_OkE)
    note t2 = turn_step_reg [OF s2]
    have t12: "turn pe st st2" using turn_trans t1(1) t2(1) by blast
    show ?thesis
    proof (cases "r2 = GU_UNWIND_REASON_OK")
      case False
      then have "go = False" "st' = st2\<lparr>us_reason := r2\<rparr>" using assms s1 True s2 by (auto simp: unwind_regs_def stop_def)
      then show ?thesis using t12 step_reg_cases(2) [OF s2] by (auto simp: loop_reason_def turn_def)
    next
      case r2: True
      obtain r3 bp st3 st4 where s3: "step_reg env bias (reg_name_rbp (ue_arch env)) st2 = Ok (r3, bp, st3)"
          "(if r3 = GU_UNWIND_REASON_OK then set_reg env (reg_name_rbp (ue_arch env)) bp st3 else Ok st3) = Ok st4"
          "advance env ra sp (st4\<lparr>us_reason := r3, us_pc := ra, us_sp := sp, us_signal_frame := sf\<rparr>) = Ok (go, st')"
        using assms s1 True s2 r2 by (auto simp: unwind_regs_def elim!: cbind_OkE)
      note t3 = turn_step_reg [OF s3(1)]
      have t4: "turn pe st3 st4" "us_prev_sp st4 = us_prev_sp st3" "us_prev_pc st4 = us_prev_pc st3"
        using s3(2) turn_set_reg [of env "reg_name_rbp (ue_arch env)" bp st3 st4] by (auto simp: turn_def split: if_splits)
      have t5: "turn pe st4 (st4\<lparr>us_reason := r3, us_pc := ra, us_sp := sp, us_signal_frame := sf\<rparr>)" by (simp add: turn_def)
      have "turn pe st st'"
        using turn_trans [OF turn_trans [OF turn_trans [OF turn_trans [OF t12 t3(1)] t4(1)] t5]] advance_cases [OF s3(3), of pe] by simp
      moreover have "loop_reason r3" using step_reg_cases(2) [OF s3(1)] by (auto simp: loop_reason_def)
      ultimately show ?thesis using advance_cases [OF s3(3), of pe] t1(2,3) t2(2,3) t3(2,3) t4(2,3) by auto
    qed
  qed
qed

lemma find_image_cases:
  assumes "find_image pe st = Ok (found, st')"
  shows "turn pe st st' \<and> us_prev_sp st' = us_prev_sp st \<and> us_prev_pc st' = us_prev_pc st \<and> us_pc st' = us_pc st \<and>
    (\<not> found \<longrightarrow> us_reason st' = GU_UNWIND_REASON_NO_EXEC_PC)"
proof (cases "in_item (ss_item (us_search st)) (us_pc st)")
  case True
  then show ?thesis using assms by (simp add: find_image_def turn_def)
next
  case False
  then obtain ret s where s: "gu_search_pid_elf_ctx pe (us_pc st) (us_search st) = Ok (ret, s)"
    using assms by (auto simp: find_image_def elim!: cbind_OkE)
  then show ?thesis
    using assms False search_keeps [OF s]
    by (auto simp: find_image_def stop_def Let_def turn_def split: if_splits elim!: cbind_OkE)
qed

lemma caller_regs_cases:
  assumes "caller_regs env n i bias rel p e st = Ok (go, st')" "get_elf (ss_ctx (us_search st)) p = Some e"
  shows "turn pe st st' \<and> loop_reason (us_reason st') \<and>
    (go \<longrightarrow> us_pc st' = us_prev_pc st' \<and> us_pc st' \<noteq> us_prev_pc st \<and> us_prev_sp st < us_prev_sp st')"
proof (cases "elf_cfi e")
  case None
  then show ?thesis using assms(1) by (auto simp: caller_regs_def stop_def turn_def loop_reason_def)
next
  case (Some cfi)
  obtain scr cfi' sf ok where pr: "gu_cfi_parse_cfi_ex (ue_arch env) (ue_cfi_ok env n) (us_scratch st) cfi
      (gu_cfi_lookup_pc_for_frame rel i (us_signal_frame st)) = Ok (scr, cfi', sf, ok)"
    using assms(1) Some by (auto simp: caller_regs_def elim!: cbind_OkE)
  define st1 where "st1 = set_ctx (put_elf p (e\<lparr>elf_cfi := Some cfi'\<rparr>) (ss_ctx (us_search st))) (st\<lparr>us_scratch := scr\<rparr>)"
  have t: "turn pe st st1" "us_prev_pc st1 = us_prev_pc st" "us_prev_sp st1 = us_prev_sp st"
    using put_cfi_keeps [OF assms(2)] by (simp_all add: st1_def set_ctx_def turn_def)
  have run: "(if \<not> ok then stop GU_UNWIND_REASON_CFI_FRAME_DECODE_FAILED st1 else unwind_regs env bias i sf st1) = Ok (go, st')"
    using assms(1) Some pr by (cases ok) (simp_all add: caller_regs_def Let_def st1_def)
  show ?thesis
  proof (cases ok)
    case False
    then show ?thesis using run t by (auto simp: stop_def loop_reason_def turn_def)
  next
    case True
    then show ?thesis using unwind_regs_cases [of env bias i sf st1 go st' pe] run t turn_trans [OF t(1)] by auto
  qed
qed

text \<open>
  One turn emits at most one frame, at the current program counter, and leaves a reason. When it goes
  on, the stack pointer has grown and the program counter differs from that of the previous turn. When
  the turn counts as the first, the symbol of the frame is the one at its program counter.
\<close>

definition at_symbol :: "gu_context \<Rightarrow> gu_frame_record \<Rightarrow> bool" where
  "at_symbol ctx fr \<longleftrightarrow> (\<exists>p e. frame_elf fr = Some p \<and> get_elf ctx p = Some e \<and>
     gu_lookup_elf_symbol e (frame_pc fr) = Ok (frame_symbol fr, frame_offset fr))"

lemma at_symbol_tables:
  assumes "tables ctx' = tables ctx" "at_symbol ctx' fr"
  shows "at_symbol ctx fr"
proof -
  obtain p e' where e': "frame_elf fr = Some p" "get_elf ctx' p = Some e'" "gu_lookup_elf_symbol e' (frame_pc fr) = Ok (frame_symbol fr, frame_offset fr)"
    using assms(2) by (auto simp: at_symbol_def)
  have "map_option (\<lambda>e. (symbols e, symbol_heap e)) (get_elf ctx p) = Some (symbols e', symbol_heap e')"
    using fun_cong [OF arg_cong [OF assms(1), of snd], of p] e'(2) by (simp add: tables_def)
  then obtain e where e: "get_elf ctx p = Some e" "symbols e = symbols e'" "symbol_heap e = symbol_heap e'" by auto
  then have "gu_lookup_elf_symbol e pc = gu_lookup_elf_symbol e' pc" for pc
    by (simp add: gu_lookup_elf_symbol_def symbol_at_def Let_def cong: if_cong)
  then show ?thesis using e' e(1) by (auto simp: at_symbol_def)
qed

lemma unwind_step_cases:
  assumes "unwind_step env n st = Ok (go, st')"
  shows "keeps_ctx (ue_reload env) (us_search st) (us_search st') \<and> us_raw_sp st' = us_raw_sp st \<and> loop_reason (us_reason st') \<and>
    (us_frames st' = us_frames st \<or> (\<exists>fr. us_frames st' = us_frames st @ [fr] \<and> frame_abs_pc fr = us_pc st \<and>
       (us_loop_count st = 0 \<longrightarrow> \<not> go_only_buildid (ss_ctx (us_search st)) \<longrightarrow> \<not> ss_reloaded (us_search st') \<longrightarrow>
          at_symbol (ss_ctx (us_search st)) fr))) \<and>
    us_loop_count st' = us_loop_count st + (if ue_verbose env then 1 else 0) \<and>
    (go \<longrightarrow> us_frames st' \<noteq> us_frames st \<and> us_pc st' = us_prev_pc st' \<and> us_pc st' \<noteq> us_prev_pc st \<and> us_prev_sp st < us_prev_sp st')"
proof -
  define st0 where "st0 = (if ue_verbose env then st\<lparr>us_loop_count := us_loop_count st + 1\<rparr> else st)"
  have e0: "us_search st0 = us_search st" "us_frames st0 = us_frames st" "us_raw_sp st0 = us_raw_sp st" "us_pc st0 = us_pc st"
      "us_prev_pc st0 = us_prev_pc st" "us_prev_sp st0 = us_prev_sp st"
      "us_loop_count st0 = us_loop_count st + (if ue_verbose env then 1 else 0)"
    by (simp_all add: st0_def)
  obtain found st1 where s1: "find_image (ue_reload env) st0 = Ok (found, st1)"
    using assms by (auto simp: unwind_step_def Let_def st0_def elim!: cbind_OkE)
  note c1 = find_image_cases [OF s1]
  show ?thesis
  proof (cases found)
    case False
    then have "go = False" "st' = st1" using assms s1 by (auto simp: unwind_step_def Let_def st0_def)
    then show ?thesis using c1 False by (auto simp: turn_def e0 loop_reason_def)
  next
    case True
    let ?bias = "ia_start (ss_item (us_search st1)) - us_vaddr st1" and ?only = "go_only_buildid (ss_ctx (us_search st1))"
    let ?look = "gu_frame_lookup_pc_for_return_address (us_pc st1 - ?bias) (us_loop_count st = 0) (us_signal_frame st1)"
    obtain p e symbol off where i: "us_elf st1 = Some p" "get_elf (ss_ctx (us_search st1)) p = Some e"
      and l: "gu_lookup_elf_symbol e ?look = Ok (symbol, off)"
      using assms s1 True
      by (auto simp: unwind_step_def Let_def st0_def image_of_def split: option.splits elim!: cbind_OkE)
    let ?fr = "image_frame ?only p e (us_pc st1) (us_pc st1 - ?bias) symbol off"
    define st2 where "st2 = st1\<lparr>us_frames := us_frames st1 @ [?fr]\<rparr>"
    have run: "(if is_stack_bottom_symbol symbol then stop GU_UNWIND_REASON_END_OF_STACK st2
        else caller_regs env n (us_loop_count st = 0) ?bias (us_pc st1 - ?bias) p e st2) = Ok (go, st')"
      using assms s1 True i l
      by (cases "is_stack_bottom_symbol symbol") (simp_all add: unwind_step_def Let_def st0_def [symmetric] image_of_def st2_def)
    have "us_frames st1 = us_frames st" "us_raw_sp st1 = us_raw_sp st" "us_loop_count st1 = us_loop_count st0"
        "us_prev_pc st1 = us_prev_pc st" "us_prev_sp st1 = us_prev_sp st" "us_pc st1 = us_pc st"
      using c1 by (simp_all add: turn_def e0)
    then have e2: "us_frames st2 = us_frames st @ [?fr]" "us_raw_sp st2 = us_raw_sp st" "us_loop_count st2 = us_loop_count st0"
        "us_prev_pc st2 = us_prev_pc st" "us_prev_sp st2 = us_prev_sp st" "frame_abs_pc ?fr = us_pc st"
      by (simp_all add: st2_def image_frame_def)
    have k2: "keeps_ctx (ue_reload env) (us_search st) (us_search st2)" using c1 by (simp add: turn_def e0 st2_def)
    have sy: "at_symbol (ss_ctx (us_search st)) ?fr"
      if "us_loop_count st = 0" "\<not> go_only_buildid (ss_ctx (us_search st))" "\<not> ss_reloaded (us_search st1)"
    proof -
      have t: "tables (ss_ctx (us_search st1)) = tables (ss_ctx (us_search st))" using c1 that(3) by (simp add: turn_def keeps_ctx_def e0)
      then have "\<not> ?only" using that(2) by (simp add: tables_def)
      then have "at_symbol (ss_ctx (us_search st1)) ?fr"
        using l i(2) that(1) by (simp add: at_symbol_def image_frame_def gu_frame_lookup_pc_for_return_address_def)
      then show ?thesis by (rule at_symbol_tables [OF t])
    qed
    show ?thesis
    proof (cases "is_stack_bottom_symbol symbol")
      case True
      then have "go = False" "us_search st' = us_search st1" using run by (auto simp: stop_def st2_def)
      then show ?thesis using run True k2 e2 e0 sy by (auto simp: stop_def loop_reason_def)
    next
      case False
      have "get_elf (ss_ctx (us_search st2)) p = Some e" using i(2) by (simp add: st2_def)
      then have c: "turn (ue_reload env) st2 st' \<and> loop_reason (us_reason st') \<and>
          (go \<longrightarrow> us_pc st' = us_prev_pc st' \<and> us_pc st' \<noteq> us_prev_pc st2 \<and> us_prev_sp st2 < us_prev_sp st')"
        using caller_regs_cases [of env n "us_loop_count st = 0" ?bias "us_pc st1 - ?bias" p e st2 go st' "ue_reload env"] run
        unfolding if_not_P [OF False] by blast
      then have "\<not> ss_reloaded (us_search st') \<longrightarrow> \<not> ss_reloaded (us_search st1)" by (auto simp: turn_def keeps_ctx_def st2_def)
      then show ?thesis using c e2 e0 sy keeps_trans [OF k2] by (auto simp: turn_def)
    qed
  qed
qed

end
