(* ===== verification/Unwind_Props.thy ===== *)
theory Unwind_Props
  imports Unwind
begin

text \<open>
  Properties of a whole call of \<open>gu_unwind\<close>: the number of frames, the reason it stores, the shape
  of the sample, progress of the CFI loop, the frame-pointer path, and that the context stays
  consistent.
\<close>

subsection \<open>The loop\<close>

text \<open>The frames a walk of at most \<open>n\<close> turns emits.\<close>

definition walked :: "unwind_env \<Rightarrow> nat \<Rightarrow> unwind_state \<Rightarrow> bool \<Rightarrow> gu_frame_record list \<Rightarrow> bool" where
  "walked env n st reloaded frs \<longleftrightarrow> length frs \<le> n \<and> (frs \<noteq> [] \<longrightarrow> frame_abs_pc (hd frs) = us_pc st) \<and>
     (us_pc st = us_prev_pc st \<longrightarrow> successively (\<noteq>) (map frame_abs_pc frs)) \<and>
     successively (\<noteq>) (map frame_abs_pc (tl frs)) \<and>
     (\<not> ue_verbose env \<and> us_loop_count st = 0 \<and> \<not> go_only_buildid (ss_ctx (us_search st)) \<and> \<not> reloaded \<longrightarrow>
        list_all (at_symbol (ss_ctx (us_search st))) frs)"

lemma walked_Nil: "walked env n st reloaded []"
  by (simp add: walked_def)

lemma walked_Cons:
  assumes "walked env n st1 reloaded frs" "frame_abs_pc fr = us_pc st"
    and "frs \<noteq> [] \<Longrightarrow> us_pc st1 = us_prev_pc st1 \<and> us_pc st1 \<noteq> us_prev_pc st"
    and "us_loop_count st1 = us_loop_count st + (if ue_verbose env then 1 else 0)"
    and "\<not> reloaded \<Longrightarrow> tables (ss_ctx (us_search st1)) = tables (ss_ctx (us_search st))"
    and "us_loop_count st = 0 \<Longrightarrow> \<not> go_only_buildid (ss_ctx (us_search st)) \<Longrightarrow> \<not> reloaded \<Longrightarrow> at_symbol (ss_ctx (us_search st)) fr"
  shows "walked env (Suc n) st reloaded (fr # frs)"
proof -
  have "list_all (at_symbol (ss_ctx (us_search st))) frs"
    if q: "\<not> ue_verbose env" "us_loop_count st = 0" "\<not> go_only_buildid (ss_ctx (us_search st))" "\<not> reloaded"
  proof -
    have t: "tables (ss_ctx (us_search st1)) = tables (ss_ctx (us_search st))" by (rule assms(5) [OF q(4)])
    then have "\<not> go_only_buildid (ss_ctx (us_search st1))" using q(3) by (simp add: tables_def)
    then have "list_all (at_symbol (ss_ctx (us_search st1))) frs" using assms(1,4) q by (simp add: walked_def)
    then show ?thesis using at_symbol_tables [OF t] by (simp add: list_all_iff)
  qed
  then show ?thesis using assms(1-3,6) by (cases frs) (auto simp: walked_def)
qed

lemma unwind_loop_cases:
  assumes "unwind_loop env n st = Ok (lev, st')" "0 < n"
  shows "keeps_ctx (ue_reload env) (us_search st) (us_search st') \<and> us_raw_sp st' = us_raw_sp st \<and> loop_reason (us_reason st') \<and>
    -1 \<le> lev \<and> lev < int n \<and> (\<exists>frs. us_frames st' = us_frames st @ frs \<and> walked env n st (ss_reloaded (us_search st')) frs)"
  using assms
proof (induction n arbitrary: st)
  case (Suc n)
  obtain go st1 where s: "unwind_step env n st = Ok (go, st1)" using Suc.prems(1) by (auto elim!: cbind_OkE)
  note c = unwind_step_cases [OF s]
  show ?case
  proof (cases "go \<and> 0 < n")
    case False
    then have e: "st' = st1" "-1 \<le> lev" "lev < int (Suc n)" using Suc.prems(1) s by (auto split: if_splits)
    have "\<exists>frs. us_frames st1 = us_frames st @ frs \<and> walked env (Suc n) st (ss_reloaded (us_search st1)) frs"
    proof (cases "us_frames st1 = us_frames st")
      case True
      then show ?thesis using walked_Nil by (intro exI [of _ "[]"]) simp
    next
      case new: False
      obtain fr where fr: "us_frames st1 = us_frames st @ [fr]" "frame_abs_pc fr = us_pc st"
          "us_loop_count st = 0 \<longrightarrow> \<not> go_only_buildid (ss_ctx (us_search st)) \<longrightarrow> \<not> ss_reloaded (us_search st1) \<longrightarrow> at_symbol (ss_ctx (us_search st)) fr"
        using c new by (elim conjE disjE exE) simp_all
      have "walked env (Suc n) st (ss_reloaded (us_search st1)) [fr]"
        by (rule walked_Cons [OF walked_Nil [of env n st1]]) (use c fr in \<open>auto simp: keeps_ctx_def\<close>)
      then show ?thesis using fr(1) by blast
    qed
    then show ?thesis using c e by simp
  next
    case True
    then have l: "unwind_loop env n st1 = Ok (lev, st')" "0 < n" using Suc.prems(1) s by simp_all
    note ih = Suc.IH [OF l]
    have k: "keeps_ctx (ue_reload env) (us_search st1) (us_search st')" using ih by simp
    then have nr: "ss_reloaded (us_search st') \<or> \<not> ss_reloaded (us_search st1)" by (auto simp: keeps_ctx_def)
    obtain fr where fr: "us_frames st1 = us_frames st @ [fr]" "frame_abs_pc fr = us_pc st"
        "us_loop_count st = 0 \<longrightarrow> \<not> go_only_buildid (ss_ctx (us_search st)) \<longrightarrow> \<not> ss_reloaded (us_search st1) \<longrightarrow> at_symbol (ss_ctx (us_search st)) fr"
      using c True by (elim conjE disjE exE) simp_all
    obtain frs where frs: "us_frames st' = us_frames st1 @ frs" "walked env n st1 (ss_reloaded (us_search st')) frs" using ih by (elim conjE exE)
    have "walked env (Suc n) st (ss_reloaded (us_search st')) (fr # frs)"
      by (rule walked_Cons [OF frs(2)]) (use c True fr nr in \<open>auto simp: keeps_ctx_def\<close>)
    then have "\<exists>frs. us_frames st' = us_frames st @ frs \<and> walked env (Suc n) st (ss_reloaded (us_search st')) frs"
      using frs(1) fr(1) by (intro exI [of _ "fr # frs"]) simp
    moreover have "keeps_ctx (ue_reload env) (us_search st) (us_search st')" using keeps_trans c k by blast
    ultimately show ?thesis using c ih by simp
  qed
qed simp

subsection \<open>A whole call\<close>

text \<open>Two loads ask the allocator for different blocks.\<close>

definition apart :: "pid_env \<Rightarrow> pid_env \<Rightarrow> bool" where
  "apart e1 e2 \<longleftrightarrow> elf_addrs e1 \<inter> elf_addrs e2 \<subseteq> {0} \<and> range (pe_map_addr e1) \<inter> range (pe_map_addr e2) \<subseteq> {0}"

definition reload_ready :: "unwind_env \<Rightarrow> gu_context \<Rightarrow> bool" where
  "reload_ready env ctx \<longleftrightarrow> env_fresh 0 (ue_reload env) ctx \<and> env_fresh 0 (ue_tail env) ctx \<and>
     clock_ok (pe_clk (ue_reload env)) ctx \<and> clock_ok (pe_clk (ue_tail env)) ctx \<and> apart (ue_reload env) (ue_tail env)"

definition unwind_ready :: "unwind_env \<Rightarrow> gu_context \<Rightarrow> bool" where
  "unwind_ready env ctx \<longleftrightarrow> env_fresh 0 (ue_load env) ctx \<and> clock_ok (pe_clk (ue_load env)) ctx \<and>
     apart (ue_load env) (ue_reload env) \<and> apart (ue_load env) (ue_tail env) \<and> reload_ready env ctx"

lemma env_fresh_grows:
  assumes "env_fresh 0 e2 ctx" "grows e1 ctx ctx'" "apart e1 e2" "world_ok ctx'"
  shows "env_fresh 0 e2 ctx'"
proof -
  have z: "0 \<notin> dom (map_ctxs ctx')" "0 \<notin> fst ` set (elf_ctx_list ctx')"
    using assms(4) by (auto simp: world_ok_def ctx_ok_def heap_ok_def elf_cache_ok_def elf_table_ok_def list_all_iff entry_ok_def)
  have "x \<notin> B'" if "x \<in> A2" "x \<notin> B" "B' \<subseteq> B \<union> A1" "A1 \<inter> A2 \<subseteq> {0}" "0 \<notin> B'" for x :: u64 and A1 A2 B B' using that by auto
  note in_new = this
  have m: "pe_map_addr e2 j \<notin> dom (map_ctxs ctx')" if "pe_map_addr e2 j \<notin> dom (map_ctxs ctx)" for j
    by (rule in_new [of _ "range (pe_map_addr e2)" _ _ "range (pe_map_addr e1)", OF _ that _ _ z(1)]) (use assms(2,3) in \<open>simp_all add: grows_def apart_def\<close>)
  have "le_elf_addr (pe_load e2 j) \<notin> fst ` set (elf_ctx_list ctx')" if "le_elf_addr (pe_load e2 j) \<notin> fst ` set (elf_ctx_list ctx)" for j
    by (rule in_new [of _ "elf_addrs e2" _ _ "elf_addrs e1", OF _ that _ _ z(2)]) (use assms(2,3) in \<open>simp_all add: grows_def apart_def\<close>, simp add: elf_addrs_def)
  then show ?thesis using assms(1) m unfolding env_fresh_def by presburger
qed

lemma tail_state:
  assumes "gu_unwind_dwarf_tail_by_fp pe page raw_sp bp pc a r s = Ok (frs, r', s')" "world_ok (ss_ctx s)" "clock_ok (pe_clk pe) (ss_ctx s)"
    "env_fresh 0 pe (ss_ctx s)"
  shows "world_ok (ss_ctx s') \<and> timer (ss_ctx s') = timer (ss_ctx s)"
  using tail_keeps(1) [OF assms(1)] assms(2-4) by (auto simp: keeps_ctx_def ready_def)

lemma tail_shape:
  "gu_unwind_dwarf_tail_by_fp pe page raw_sp bp pc a r s = Ok (frs, r', s') \<Longrightarrow> same_shape (ss_info s) (ss_info s')"
  using tail_keeps(1) by (fastforce simp: keeps_ctx_def)

text \<open>What a call returns, apart from the context.\<close>

definition outcome :: "gu_stack_info \<Rightarrow> int \<times> gu_frame_record list \<times> gu_stack_info \<Rightarrow> bool" where
  "outcome info x = (case x of (ret, frs, info') \<Rightarrow>
     -1 \<le> ret \<and> ret \<le> 513 \<and> length frs \<le> 512 + 128 \<and> (ret = -1 \<longrightarrow> frs = []) \<and> same_shape info info' \<and>
     (\<exists>i r. info' = gu_flags_set_reason i r \<and> r \<noteq> GU_UNWIND_REASON_UNKNOWN \<and> r \<noteq> GU_UNWIND_REASON_TRUNCATED))"

lemma outcome_failed:
  "same_shape info i \<Longrightarrow> r \<noteq> GU_UNWIND_REASON_UNKNOWN \<Longrightarrow> r \<noteq> GU_UNWIND_REASON_TRUNCATED \<Longrightarrow> outcome info (-1, [], gu_flags_set_reason i r)"
  using same_shape_trans by (auto simp: outcome_def)

lemma unwind_end_cases:
  assumes "unwind_end env st = Ok (frs, r, s)" "loop_reason (us_reason st)"
  shows "same_shape (ss_info (us_search st)) (ss_info s) \<and> length frs \<le> 128 \<and> loop_reason r \<and>
    (world_ok (ss_ctx (us_search st)) \<longrightarrow> clock_ok (pe_clk (ue_tail env)) (ss_ctx (us_search st)) \<longrightarrow>
     env_fresh 0 (ue_tail env) (ss_ctx (us_search st)) \<longrightarrow>
     world_ok (ss_ctx s) \<and> timer (ss_ctx s) = timer (ss_ctx (us_search st)))"
proof (cases "frs = [] \<and> r = us_reason st \<and> s = us_search st")
  case False
  then obtain bp where t: "gu_unwind_dwarf_tail_by_fp (ue_tail env) (ue_page env) (us_raw_sp st) bp (us_pc st) (us_append_pc st)
      (us_reason st) (us_search st) = Ok (frs, r, s)"
    using assms by (auto simp: unwind_end_def loop_reason_def Let_def split: if_splits cres.splits)
  show ?thesis using tail_shape [OF t] tail_keeps(2,3) [OF t] tail_state [OF t] assms(2) by (auto simp: loop_reason_def)
qed (use assms in simp)

lemma unwind_dwarf_cases:
  assumes "unwind_dwarf env info ctx = Ok (ret, frs, info', ctx')"
  shows "outcome info (ret, frs, info') \<and>
    (world_ok ctx \<longrightarrow> reload_ready env ctx \<longrightarrow> world_ok ctx' \<and> timer ctx' = timer ctx)"
proof -
  obtain pc sp lev st frs1 r s where l: "unwind_loop env 512 (unwind_start env info ctx pc sp) = Ok (lev, st)"
    and e: "unwind_end env st = Ok (frs1, r, s)"
    and x: "ret = 512 - lev" "frs = us_frames st @ frs1" "info' = gu_flags_set_reason (ss_info s) r" "ctx' = ss_ctx s"
    using assms by (auto simp: unwind_dwarf_def elim!: cbind_OkE)
  let ?s = "us_search (unwind_start env info ctx pc sp)"
  have s0: "ss_info ?s = info" "ss_ctx ?s = ctx" "us_frames (unwind_start env info ctx pc sp) = []" by (simp_all add: unwind_start_def)
  note c = unwind_loop_cases [OF l]
  have k: "keeps_ctx (ue_reload env) ?s (us_search st)" "loop_reason (us_reason st)" "-1 \<le> lev" "lev < 512" "length (us_frames st) \<le> 512"
    using c by (auto simp: walked_def s0)
  note d = unwind_end_cases [OF e k(2)]
  have "same_shape info (ss_info s)" using k(1) d same_shape_trans by (auto simp: keeps_ctx_def s0)
  then have "same_shape info info'" using same_shape_trans x(3) by blast
  then have "outcome info (ret, frs, info')"
    using k(3-5) d x by (auto simp: outcome_def loop_reason_def)
  moreover have "world_ok ctx' \<and> timer ctx' = timer ctx" if w: "world_ok ctx" and r: "reload_ready env ctx"
  proof -
    have "ready (ue_reload env) ?s" using w r by (simp add: ready_def reload_ready_def s0)
    then have w1: "world_ok (ss_ctx (us_search st))" "timer (ss_ctx (us_search st)) = timer ctx" "grows (ue_reload env) ctx (ss_ctx (us_search st))"
      using k(1) by (simp_all add: keeps_ctx_def ready_def s0)
    moreover have "env_fresh 0 (ue_tail env) (ss_ctx (us_search st))"
      by (rule env_fresh_grows [OF _ w1(3) _ w1(1)]) (use r in \<open>simp_all add: reload_ready_def\<close>)
    moreover have "clock_ok (pe_clk (ue_tail env)) (ss_ctx (us_search st))" using r w1(2) by (simp add: reload_ready_def clock_ok_def)
    ultimately show ?thesis using d x(4) by simp
  qed
  ultimately show ?thesis by blast
qed

lemma unwind_by_fp_cases:
  assumes "gu_unwind_by_fp pe info ctx = Ok (ret, frs, info', ctx')"
  shows "outcome info (ret, frs, info') \<and>
    (world_ok ctx \<longrightarrow> env_fresh 0 pe ctx \<longrightarrow> clock_ok (pe_clk pe) ctx \<longrightarrow> world_ok ctx' \<and> timer ctx' = timer ctx)"
proof -
  define m where "m = fp_levels info"
  show ?thesis
  proof (cases "m = 0")
    case True
    then have "ret = 0 \<and> frs = [] \<and> info' = gu_flags_set_reason info GU_UNWIND_REASON_END_OF_STACK \<and> ctx' = ctx"
      using assms by (simp add: gu_unwind_by_fp_def Let_def m_def [symmetric])
    then show ?thesis by (auto simp: outcome_def)
  next
    case False
    have "m \<le> 127" unfolding m_def fp_levels_def by (auto simp: not_less word_le_nat_alt)
    let ?s = "\<lparr>ss_item = blank_item, ss_reloaded = False, ss_pid = True, ss_info = info, ss_ctx = ctx\<rparr>"
    obtain pc r lev st where l: "fp_loop pe (gu_flags_is_set info GU_FLAG_FP_ALLOW_UNKNOWN) m MAX_FP_STACK_LEVEL 1 pc
          \<lparr>fs_search = ?s, fs_elf = None, fs_vaddr = 0\<rparr> = Ok (frs, r, lev, st)"
      and x: "ret = 127 - lev" "ctx' = ss_ctx (fs_search st)"
        "info' = gu_flags_set_reason (ss_info (fs_search st)) (if r = GU_UNWIND_REASON_UNKNOWN then GU_UNWIND_REASON_TRUNCATED else r)"
      using assms False by (auto simp: gu_unwind_by_fp_def Let_def m_def [symmetric] elim!: cbind_OkE)
    have c: "keeps_ctx pe ?s (fs_search st)" "length frs \<le> 127" "0 \<le> lev" "lev < 127"
        "r \<in> {GU_UNWIND_REASON_END_OF_STACK, GU_UNWIND_REASON_NO_EXEC_PC}"
      using fp_loop_keeps [OF l] False \<open>m \<le> 127\<close> by auto
    have "same_shape info info'" using c(1) same_shape_trans x(3) by (fastforce simp: keeps_ctx_def)
    then have "outcome info (ret, frs, info')" using c x by (auto simp: outcome_def)
    moreover have "world_ok ctx' \<and> timer ctx' = timer ctx" if "world_ok ctx" "env_fresh 0 pe ctx" "clock_ok (pe_clk pe) ctx"
      using c(1) that by (simp add: keeps_ctx_def ready_def x(2))
    ultimately show ?thesis by blast
  qed
qed

lemma drop_reused_ok:
  assumes "drop_reused clk info ctx = Ok ctx'" "world_ok ctx" "clock_ok clk ctx"
  shows "world_ok ctx' \<and> shrinks ctx ctx' \<and> timer ctx' = timer ctx"
proof (cases "ctx' = ctx")
  case False
  let ?c = "count_stat (\<lambda>s. s\<lparr>unique_id_caused_reload_count := unique_id_caused_reload_count s + 1\<rparr>) ctx"
  obtain c where c: "find_pid ctx (pid info) = Some c"
      "gu_clear_pid_ctx clk (pid info) (notify c GU_PID_CTX_EVENT_DESTROY ?c) = Ok ctx'"
    using assms(1) False by (auto simp: drop_reused_def split: option.splits if_splits)
  have "world_ok ?c = world_ok ctx" by (rule world_ok_frame) (simp_all add: count_stat_def)
  moreover have "clock_ok clk ?c" "find_pid ?c (pid info) = Some c" using assms(3) c(1) by (simp_all add: clock_ok_def count_stat_def find_pid_def)
  ultimately show ?thesis
    using clear_notified_ok [of ?c clk "pid info" c] assms(2) c(2) by (auto simp: shrinks_def count_stat_def)
qed (use assms in simp)

lemma unwind_pid_cases:
  assumes "unwind_pid pe info ctx = Ok (k, info', ctx')"
  shows "same_shape info info' \<and> (\<not> k \<longrightarrow> info' = gu_flags_set_reason info GU_UNWIND_REASON_PROCESS_EXIT) \<and>
    (world_ok ctx \<longrightarrow> env_fresh 0 pe ctx \<longrightarrow> clock_ok (pe_clk pe) ctx \<longrightarrow> world_ok ctx' \<and> timer ctx' = timer ctx \<and> grows pe ctx ctx')"
proof (cases "find_pid ctx (pid info) = None \<and> (pe_alive pe \<or> debug ctx)")
  case False
  then show ?thesis using assms by (auto simp: unwind_pid_def split: option.splits)
next
  case True
  then obtain new ctx1 where l: "gu_load_pid pe (pid info) (unique_id info) ctx = Ok (new, ctx1)"
      "(k, info', ctx') = (case new of None \<Rightarrow> (False, gu_flags_set_reason info GU_UNWIND_REASON_PROCESS_EXIT, ctx1)
         | Some c \<Rightarrow> (True, hint_fp c info, add_pid c ctx1))"
    using assms by (auto simp: unwind_pid_def split: option.splits elim!: cbind_OkE)
  have "world_ok ctx' \<and> timer ctx' = timer ctx \<and> grows pe ctx ctx'"
    if "world_ok ctx" "env_fresh 0 pe ctx" "clock_ok (pe_clk pe) ctx"
    using load_add_ok [OF that _ l(1)] True l(2) by (cases new) (simp_all add: add_pid_def grows_def)
  then show ?thesis using l(2) by (cases new) simp_all
qed

text \<open>Before a frame is looked at: the sweep, a reused process id, the process of the sample.\<close>

lemma unwind_prepared:
  assumes w: "world_ok ctx" and r: "unwind_ready env ctx"
    and s: "gu_maybe_sweep_retired_elf (pe_clk (ue_load env)) ctx = Ok ctx1" "drop_reused (pe_clk (ue_load env)) info ctx1 = Ok ctx2"
      "unwind_pid (ue_load env) info ctx2 = Ok (k, info', ctx3)"
  shows "world_ok ctx3 \<and> reload_ready env ctx3 \<and> timer_now_ns (timer ctx3) = timer_now_ns (timer ctx)"
proof -
  have w1: "world_ok ctx1" "shrinks ctx ctx1" "timer_now_ns (timer ctx1) = timer_now_ns (timer ctx)"
    using maybe_sweep_world [OF w, of "pe_clk (ue_load env)"] s(1) by auto
  have w2: "world_ok ctx2" "shrinks ctx1 ctx2" "timer ctx2 = timer ctx1"
    using drop_reused_ok [OF s(2) w1(1)] r w1(3) by (auto simp: unwind_ready_def clock_ok_def)
  note sh = shrinks_trans [OF w1(2) w2(2)]
  have t: "timer_now_ns (timer ctx2) = timer_now_ns (timer ctx)" using w1(3) w2(3) by simp
  have f2: "env_fresh 0 (ue_load env) ctx2" "env_fresh 0 (ue_reload env) ctx2" "env_fresh 0 (ue_tail env) ctx2"
    using env_fresh_shrinks [OF sh] r by (simp_all add: unwind_ready_def reload_ready_def)
  have "clock_ok (pe_clk (ue_load env)) ctx2" using r t by (simp add: unwind_ready_def clock_ok_def)
  then have w3: "world_ok ctx3" "timer ctx3 = timer ctx2" "grows (ue_load env) ctx2 ctx3"
    using unwind_pid_cases [OF s(3)] w2(1) f2(1) by simp_all
  have "env_fresh 0 (ue_reload env) ctx3" "env_fresh 0 (ue_tail env) ctx3"
    using env_fresh_grows [OF f2(2) w3(3) _ w3(1)] env_fresh_grows [OF f2(3) w3(3) _ w3(1)] r by (simp_all add: unwind_ready_def)
  then show ?thesis using w3 t r by (simp add: unwind_ready_def reload_ready_def clock_ok_def)
qed

lemma outcome_shape: "same_shape info i \<Longrightarrow> outcome i x \<Longrightarrow> outcome info x"
  unfolding outcome_def using same_shape_trans by fastforce

lemma gu_unwind_cases:
  assumes "gu_unwind env info ctx = Ok (ret, frs, info', ctx')"
  shows "outcome info (ret, frs, info') \<and>
    (world_ok ctx \<longrightarrow> unwind_ready env ctx \<longrightarrow> world_ok ctx' \<and> timer_now_ns (timer ctx') = timer_now_ns (timer ctx))"
proof (cases "pt_regs info = None")
  case True
  then show ?thesis using assms outcome_failed by (auto simp: gu_unwind_def)
next
  case False
  obtain ctx1 ctx2 k info2 ctx3 where s: "gu_maybe_sweep_retired_elf (pe_clk (ue_load env)) ctx = Ok ctx1"
      "drop_reused (pe_clk (ue_load env)) info ctx1 = Ok ctx2" "unwind_pid (ue_load env) info ctx2 = Ok (k, info2, ctx3)"
    using assms False by (auto simp: gu_unwind_def Let_def elim!: cbind_OkE)
  note c3 = unwind_pid_cases [OF s(3)]
  have P: "world_ok ctx \<Longrightarrow> unwind_ready env ctx \<Longrightarrow>
      world_ok ctx3 \<and> reload_ready env ctx3 \<and> timer_now_ns (timer ctx3) = timer_now_ns (timer ctx)"
    using unwind_prepared [OF _ _ s] by blast
  have sh: "same_shape info info2" using c3 by simp
  consider (fail) i r where "ret = -1" "frs = []" "ctx' = ctx3" "info' = gu_flags_set_reason i r" "same_shape info i"
      "r \<in> {GU_UNWIND_REASON_PROCESS_EXIT, GU_UNWIND_REASON_NO_ELF}"
    | (fp) "gu_unwind_by_fp (ue_reload env) info2 ctx3 = Ok (ret, frs, info', ctx')"
    | (cfi) "unwind_dwarf env info2 ctx3 = Ok (ret, frs, info', ctx')"
  proof (cases k)
    case k: False
    then have "ret = -1" "frs = []" "ctx' = ctx3" "info' = gu_flags_set_reason info GU_UNWIND_REASON_PROCESS_EXIT"
      using assms False s c3 by (auto simp: gu_unwind_def Let_def)
    then show ?thesis using that(1) by blast
  next
    case True
    then show ?thesis
      using assms False s sh that by (auto simp: gu_unwind_def Let_def split: option.splits if_splits)
  qed
  then show ?thesis
  proof cases
    case fail
    then show ?thesis using P outcome_failed by auto
  next
    case fp
    then show ?thesis using P unwind_by_fp_cases [OF fp] outcome_shape [OF sh] by (auto simp: reload_ready_def)
  next
    case cfi
    then show ?thesis using P unwind_dwarf_cases [OF cfi] outcome_shape [OF sh] by auto
  qed
qed

subsection \<open>The frame-pointer path\<close>

text \<open>
  What one address resolves to, without the caching of the last mapping: the frame and whether it is
  at the bottom of the stack.
\<close>

definition frame_at :: "gu_context \<Rightarrow> interval_array \<Rightarrow> u64 \<Rightarrow> (gu_frame_record \<times> bool) option" where
  "frame_at ctx arr pc =
     Option.bind (interval_find arr pc) (\<lambda>it.
     Option.bind (if ia_private it = 0 then None else map_ctxs ctx (ia_private it)) (\<lambda>m.
     Option.bind (get_elf ctx (map_elf m)) (\<lambda>e.
     let relative_pc = pc - (ia_start it - map_exec_virt_addr m) in
     case (if symbols e = None then Ok None else symbol_at e relative_pc) of
       Ok r \<Rightarrow>
         let (symbol, off) = (case r of None \<Rightarrow> (None, 0) | Some x \<Rightarrow> x) in
         Some (image_frame (go_only_buildid ctx) (map_elf m) e pc relative_pc symbol off, is_stack_bottom_symbol symbol)
     | _ \<Rightarrow> None)))"

text \<open>The frames of a chain of addresses, up to the bottom of the stack.\<close>

fun fp_walk :: "gu_context \<Rightarrow> interval_array \<Rightarrow> u64 list \<Rightarrow> gu_frame_record list" where
  "fp_walk ctx arr [] = []"
| "fp_walk ctx arr (pc # pcs) =
     (case frame_at ctx arr pc of
        None \<Rightarrow> []
      | Some (fr, bottom) \<Rightarrow> if bottom then [fr] else fr # fp_walk ctx arr pcs)"

definition fp_inv :: "gu_context \<Rightarrow> gu_stack_info \<Rightarrow> interval_array \<Rightarrow> fp_state \<Rightarrow> bool" where
  "fp_inv ctx info arr st \<longleftrightarrow> ss_ctx (fs_search st) = ctx \<and> ss_info (fs_search st) = info \<and> ss_pid (fs_search st) \<and>
     \<not> ss_reloaded (fs_search st) \<and>
     (ia_private (ss_item (fs_search st)) \<noteq> 0 \<longrightarrow>
        (\<exists>a m. interval_find arr a = Some (ss_item (fs_search st)) \<and> map_ctxs ctx (ia_private (ss_item (fs_search st))) = Some m \<and>
           fs_elf st = Some (map_elf m) \<and> fs_vaddr st = map_exec_virt_addr m))"

lemma frame_atE:
  assumes "frame_at ctx arr pc = Some (fr, b)"
  obtains it m e where "interval_find arr pc = Some it" "ia_private it \<noteq> 0" "map_ctxs ctx (ia_private it) = Some m"
    "get_elf ctx (map_elf m) = Some e"
  using assms by (auto simp: frame_at_def bind_eq_Some_conv split: if_splits)

lemma fp_frame_at:
  assumes "frame_at ctx arr pc = Some (fr, b)" "interval_find arr pc = Some (ss_item (fs_search st))"
    and "map_ctxs ctx (ia_private (ss_item (fs_search st))) = Some m" "fs_elf st = Some (map_elf m)" "fs_vaddr st = map_exec_virt_addr m"
    and "ss_ctx (fs_search st) = ctx"
  shows "fp_frame allow pc st = Ok (Some fr, b)"
  using assms
  by (auto simp: frame_at_def fp_frame_def image_of_def bind_eq_Some_conv Let_def split: if_splits cres.splits prod.splits)

text \<open>A process whose mappings are indexed by \<open>arr\<close>.\<close>

definition mapped_by :: "gu_context \<Rightarrow> int \<Rightarrow> interval_array \<Rightarrow> bool" where
  "mapped_by ctx p arr \<longleftrightarrow> map_option elf_map_list (find_pid ctx p) = Some (Some arr)"

lemma untagged_find:
  assumes "interval_build items = Some arr" "proper items" "interval_find arr pc = Some it"
  shows "fst (get_interval_array_pointer (ia_private it)) = ia_private it"
proof -
  obtain e where "it = untag_item e" using assms by (auto simp: interval_find_iff)
  then show ?thesis by (simp add: untag_item_def get_interval_array_pointer_eq bit_eq_iff bit_simps)
qed

lemma fp_image_hit:
  assumes m: "mapped_by ctx (pid info) arr" and arr: "interval_build items = Some arr" "proper items"
    and inv: "fp_inv ctx info arr st" and fr: "frame_at ctx arr pc = Some (fr, b)"
  shows "\<exists>st'. fp_image env allow pc st = Ok (True, st') \<and> fp_inv ctx info arr st' \<and> fp_frame allow pc st' = Ok (Some fr, b)"
proof -
  obtain it mc e where f: "interval_find arr pc = Some it" "ia_private it \<noteq> 0" "map_ctxs ctx (ia_private it) = Some mc"
      "get_elf ctx (map_elf mc) = Some e"
    by (rule frame_atE [OF fr])
  show ?thesis
  proof (cases "in_item (ss_item (fs_search st)) pc")
    case True
    then obtain a mc' where i: "interval_find arr a = Some (ss_item (fs_search st))" "map_ctxs ctx (ia_private (ss_item (fs_search st))) = Some mc'"
        "fs_elf st = Some (map_elf mc')" "fs_vaddr st = map_exec_virt_addr mc'"
      using inv by (auto simp: fp_inv_def in_item_def)
    have "item_covers (ss_item (fs_search st)) pc" using True by (simp add: in_item_def)
    then have "interval_find arr pc = Some (ss_item (fs_search st))" by (rule ia.find_cached [OF arr i(1)])
    then have "fp_frame allow pc st = Ok (Some fr, b)"
      by (rule fp_frame_at [OF fr _ i(2-4)]) (use inv in \<open>simp add: fp_inv_def\<close>)
    then show ?thesis using True inv by (simp add: fp_image_def)
  next
    case False
    let ?s = "fs_search st"
    obtain d where d: "find_pid ctx (pid info) = Some d" "elf_map_list d = Some arr" using m by (auto simp: mapped_by_def)
    have "ia_ok arr" using arr(1) by (auto simp: interval_build_def intro: init_ok)
    then obtain ret where ret: "0 \<le> ret" "gu_interval_array_search (Some arr) pc (Some (ss_item ?s)) = (ret, Some it)"
      using search_via_find [of arr pc "ss_item ?s"] f(1) by auto
    have s: "gu_search_pid_elf_ctx env pc ?s = Ok (ret, ?s\<lparr>ss_item := it\<rparr>)"
      using inv ret d by (simp add: gu_search_pid_elf_ctx_def search_maps_def fp_inv_def Let_def)
    have g: "gu_get_elf_ctx_from_item ctx it = Ok (Some (map_elf mc), map_exec_virt_addr mc)"
      using f(2,3) untagged_find [OF arr f(1)] by (simp add: gu_get_elf_ctx_from_item_def Let_def)
    let ?st = "\<lparr>fs_search = ?s\<lparr>ss_item := it\<rparr>, fs_elf = Some (map_elf mc), fs_vaddr = map_exec_virt_addr mc\<rparr>"
    have "fp_image env allow pc st = Ok (True, ?st)"
      using False s ret(1) g inv by (simp add: fp_image_def fp_inv_def)
    moreover have "fp_inv ctx info arr ?st" using inv f by (auto simp: fp_inv_def)
    moreover have "fp_frame allow pc ?st = Ok (Some fr, b)"
      by (rule fp_frame_at [OF fr, of _ mc]) (use f inv in \<open>simp_all add: fp_inv_def\<close>)
    ultimately show ?thesis by blast
  qed
qed

lemma fp_loop_exact:
  assumes m: "mapped_by ctx (pid info) arr" and arr: "interval_build items = Some arr" "proper items"
    and "fp_inv ctx info arr st" "l \<le> mx" "mx < n + l" "mx \<le> length (ustack_fp info)"
    and "\<forall>q\<in>set (pc # drop l (take mx (ustack_fp info))). q \<noteq> 0 \<and> frame_at ctx arr q \<noteq> None"
  shows "\<exists>st'. fp_loop env allow mx n l pc st =
      Ok (fp_walk ctx arr (pc # drop l (take mx (ustack_fp info))), GU_UNWIND_REASON_END_OF_STACK,
          int n - int (length (fp_walk ctx arr (pc # drop l (take mx (ustack_fp info))))), st') \<and> fp_inv ctx info arr st'"
  using assms(4-)
proof (induction n arbitrary: l pc st)
  case (Suc n)
  let ?fp = "take mx (ustack_fp info)"
  obtain fr b where fr: "frame_at ctx arr pc = Some (fr, b)" and pc: "pc \<noteq> 0" using Suc.prems(5) by auto
  obtain st1 where s1: "fp_image env allow pc st = Ok (True, st1)" "fp_inv ctx info arr st1" "fp_frame allow pc st1 = Ok (Some fr, b)"
    using fp_image_hit [OF m arr Suc.prems(1) fr] by blast
  show ?case
  proof (cases "b \<or> mx \<le> l")
    case True
    then show ?thesis using s1 pc fr Suc.prems(2) by auto
  next
    case False
    then have l: "l < length (ustack_fp info)" "l < mx" using Suc.prems(4) by simp_all
    then have dr: "drop l ?fp = ustack_fp info ! l # drop (Suc l) ?fp" by (simp add: Cons_nth_drop_Suc [symmetric])
    have "ss_info (fs_search st1) = info" using s1(2) by (simp add: fp_inv_def)
    moreover obtain st2 where "fp_loop env allow mx n (Suc l) (ustack_fp info ! l) st1 =
        Ok (fp_walk ctx arr (drop l ?fp), GU_UNWIND_REASON_END_OF_STACK, int n - int (length (fp_walk ctx arr (drop l ?fp))), st2)"
        "fp_inv ctx info arr st2"
      using Suc.IH [of st1 "Suc l" "ustack_fp info ! l"] s1(2) l Suc.prems(2-5) unfolding dr [symmetric] by auto
    ultimately show ?thesis using s1 pc fr False l by (auto simp: fp_entry_def)
  qed
qed simp

lemma fp_unwind_frames:
  assumes "mapped_by ctx (pid info) arr" "interval_build items = Some arr" "proper items"
    and "0 < fp_levels info" "fp_levels info \<le> length (ustack_fp info)"
    and "\<forall>pc\<in>set (take (fp_levels info) (ustack_fp info)). pc \<noteq> 0 \<and> frame_at ctx arr pc \<noteq> None"
  shows "gu_unwind_by_fp env info ctx =
    Ok (int (length (fp_walk ctx arr (take (fp_levels info) (ustack_fp info)))), fp_walk ctx arr (take (fp_levels info) (ustack_fp info)),
        gu_flags_set_reason info GU_UNWIND_REASON_END_OF_STACK, ctx)"
proof -
  let ?st = "\<lparr>fs_search = \<lparr>ss_item = blank_item, ss_reloaded = False, ss_pid = True, ss_info = info, ss_ctx = ctx\<rparr>,
      fs_elf = None, fs_vaddr = 0\<rparr>"
  have mx: "fp_levels info \<le> 127" by (auto simp: fp_levels_def not_less word_le_nat_alt)
  have ch: "take (fp_levels info) (ustack_fp info) = ustack_fp info ! 0 # drop 1 (take (fp_levels info) (ustack_fp info))"
    using assms(4,5) by (cases "ustack_fp info") (auto simp: take_Cons')
  have "fp_inv ctx info arr ?st" by (simp add: fp_inv_def blank_item_def)
  from fp_loop_exact [OF assms(1-3) this, of 1 "fp_levels info" 127 "ustack_fp info ! 0" env "gu_flags_is_set info GU_FLAG_FP_ALLOW_UNKNOWN"]
  obtain st' where "fp_loop env (gu_flags_is_set info GU_FLAG_FP_ALLOW_UNKNOWN) (fp_levels info) 127 1 (ustack_fp info ! 0) ?st =
      Ok (fp_walk ctx arr (take (fp_levels info) (ustack_fp info)), GU_UNWIND_REASON_END_OF_STACK,
          int 127 - int (length (fp_walk ctx arr (take (fp_levels info) (ustack_fp info)))), st')" "fp_inv ctx info arr st'"
    using assms(4-6) mx unfolding ch [symmetric] by auto
  moreover have "fp_entry info 0 = Ok (ustack_fp info ! 0)" using assms(4,5) by (cases "ustack_fp info") (simp_all add: fp_entry_def)
  ultimately show ?thesis using assms(4) by (simp add: gu_unwind_by_fp_def Let_def fp_inv_def)
qed

text \<open>A call on a process already known, of the same identity, goes straight to the walk.\<close>

definition known_process :: "unwind_env \<Rightarrow> gu_stack_info \<Rightarrow> gu_context \<Rightarrow> interval_array \<Rightarrow> bool" where
  "known_process env info ctx arr \<longleftrightarrow> pt_regs info \<noteq> None \<and> retired_elf_ctx_count (statistics ctx) = 0 \<and>
     (\<exists>c. find_pid ctx (pid info) = Some c \<and> elf_map_list c = Some arr \<and> (unique_id info = 0 \<or> unique_id info = ctx_unique_id c))"

lemma unwind_known:
  assumes "known_process env info ctx arr"
  shows "gu_unwind env info ctx =
    (if gu_flags_is_set info GU_FLAG_HINT_SET_FP then gu_unwind_by_fp (ue_reload env) info ctx else unwind_dwarf env info ctx)"
  using assms
  by (auto simp: known_process_def gu_unwind_def Let_def gu_maybe_sweep_retired_elf_def drop_reused_def unwind_pid_def)

lemma known_mapped: "known_process env info ctx arr \<Longrightarrow> mapped_by ctx (pid info) arr"
  by (auto simp: known_process_def mapped_by_def)

text \<open>
  C7. The frame-pointer path is exact: when the sample asks for it and every address of the sampled
  chain lies in a mapping with an image, \<open>gu_unwind\<close> reports the frames of the addresses one by one,
  up to the bottom of the stack; caching the last mapping changes nothing, the number of frames is
  returned and the context is left alone.
\<close>

theorem fp_unwind_exact:
  assumes "known_process env info ctx arr" "gu_flags_is_set info GU_FLAG_HINT_SET_FP"
    and "interval_build items = Some arr" "proper items"
    and "0 < fp_levels info" "fp_levels info \<le> length (ustack_fp info)"
    and "\<forall>pc\<in>set (take (fp_levels info) (ustack_fp info)). pc \<noteq> 0 \<and> frame_at ctx arr pc \<noteq> None"
  shows "gu_unwind env info ctx =
    Ok (int (length (fp_walk ctx arr (take (fp_levels info) (ustack_fp info)))), fp_walk ctx arr (take (fp_levels info) (ustack_fp info)),
        gu_flags_set_reason info GU_UNWIND_REASON_END_OF_STACK, ctx)"
  using fp_unwind_frames [OF known_mapped [OF assms(1)] assms(3-)] unwind_known [OF assms(1)] assms(2) by simp

subsection \<open>A sample with two return addresses\<close>

definition fp_item :: interval_array_item where
  "fp_item = \<lparr>ia_start = 0x400000, ia_end = 0x401000, ia_private = 0x7000\<rparr>"

definition fp_arr :: interval_array where
  "fp_arr = the (interval_build [fp_item])"

definition fp_elf :: per_elf_ctx where
  "fp_elf = \<lparr>base_name = ''a'', elf_file_path = ''/bin/a'', debug_file_path = ''/bin/a'', build_id = [1], elf_golang = False,
     symbols = None, symbol_heap = blank_heap, elf_cfi = None, sym_search_size = 0, refcnt = 1, exec_virt_addr = 0,
     exec_ranges = [], retired = False, retire_deadline_ns = 0\<rparr>"

definition fp_ctx :: gu_context where
  "fp_ctx = sample_ctx\<lparr>elf_ctx_list := [(0x6000, fp_elf)], map_ctxs := [0x7000 \<mapsto> \<lparr>map_elf = 0x6000, map_exec_virt_addr = 0x1000\<rparr>],
     pid_ctx_list := [\<lparr>pid_addr = 0x5000, elf_map_list = Some fp_arr, ctx_pid = 7, ctx_comm = ''a'', ctx_golang = False, preload = False,
       ctx_unique_id = 42, last_maps_load_ns = 0, next_maps_reload_ns = 0, maps_reload_rand_state = 0, pid_private = None\<rparr>]\<rparr>"

definition fp_info :: gu_stack_info where
  "fp_info = \<lparr>pid = 7, stack_size = 0, unique_id = 42, pt_regs = Some [], regs_size = 0, flags = 1,
     ustack_fp = [0x400100, 0x400200], ustack_fp_level = 2, stack_data = []\<rparr>"

definition fp_env :: unwind_env where
  "fp_env = \<lparr>ue_arch = X86_64, ue_page = 4096, ue_depth = 2, ue_verbose = False, ue_cfi_ok = (\<lambda>_. True), ue_scratch = empty_scratch,
     ue_fault = None, ue_load = sample_pid_env, ue_reload = sample_pid_env, ue_tail = sample_pid_env\<rparr>"

lemma fp_built: "built [fp_item] = [fp_item]"
  by (simp add: built_def qsort_items_def fp_item_def)

lemma fp_arr_ok: "interval_build [fp_item] = Some fp_arr" "proper [fp_item]"
proof -
  have "proper [fp_item]" by (simp add: proper_def fp_built disjoint_sorted_def) (simp add: fp_item_def)
  moreover have "interval_build [fp_item] \<noteq> None" by (simp add: interval_build_def gu_interval_array_init_def Let_def)
  ultimately show "interval_build [fp_item] = Some fp_arr" "proper [fp_item]" by (auto simp: fp_arr_def)
qed

lemma fp_find: "pc \<in> {0x400100, 0x400200} \<Longrightarrow> interval_find fp_arr pc = Some fp_item"
  by (subst interval_find_iff [OF fp_arr_ok]) (auto simp: fp_built untag_item_def, auto simp: fp_item_def get_plain bit_simps)

lemma fp_frame_found: "pc \<in> {0x400100, 0x400200} \<Longrightarrow> \<exists>fr. frame_at fp_ctx fp_arr pc = Some (fr, False) \<and> frame_pc fr = pc - 0x3ff000"
  using fp_find [of pc]
  by (auto simp: frame_at_def fp_ctx_def fp_item_def get_elf_def fp_elf_def image_frame_def Let_def is_stack_bottom_symbol_def)

lemma fp_known: "known_process fp_env fp_info fp_ctx fp_arr"
  by (auto simp: known_process_def fp_info_def fp_ctx_def sample_ctx_def zero_context_def zero_statistics_def find_pid_def)

lemma fp_info_sel: "fp_levels fp_info = 2" "ustack_fp fp_info = [0x400100, 0x400200]" "gu_flags_is_set fp_info GU_FLAG_HINT_SET_FP"
  by (simp_all add: fp_levels_def fp_info_def gu_flags_is_set_def)

lemma fp_chain: "\<forall>pc\<in>set (take (fp_levels fp_info) (ustack_fp fp_info)). pc \<noteq> 0 \<and> frame_at fp_ctx fp_arr pc \<noteq> None"
proof -
  have "set (take (fp_levels fp_info) (ustack_fp fp_info)) = {0x400100, 0x400200}" by (simp add: fp_info_sel)
  moreover have "pc \<noteq> 0 \<and> frame_at fp_ctx fp_arr pc \<noteq> None" if "pc \<in> {0x400100, 0x400200}" for pc
    using fp_frame_found [OF that] that by auto
  ultimately show ?thesis by simp
qed

theorem fp_unwind_exact_witness:
  "\<exists>fr1 fr2. gu_unwind fp_env fp_info fp_ctx = Ok (2, [fr1, fr2], gu_flags_set_reason fp_info GU_UNWIND_REASON_END_OF_STACK, fp_ctx) \<and>
     frame_pc fr1 = 0x1100 \<and> frame_pc fr2 = 0x1200"
proof -
  obtain fr1 fr2 where f: "frame_at fp_ctx fp_arr 0x400100 = Some (fr1, False)" "frame_at fp_ctx fp_arr 0x400200 = Some (fr2, False)"
      "frame_pc fr1 = 0x1100" "frame_pc fr2 = 0x1200"
    using fp_frame_found [of "0x400100"] fp_frame_found [of "0x400200"] by auto
  then have "gu_unwind fp_env fp_info fp_ctx = Ok (2, [fr1, fr2], gu_flags_set_reason fp_info GU_UNWIND_REASON_END_OF_STACK, fp_ctx)"
    using fp_unwind_exact [OF fp_known fp_info_sel(3) fp_arr_ok _ _ fp_chain] by (simp add: fp_info_sel)
  then show ?thesis using f by blast
qed

subsection \<open>What every call returns\<close>

lemma same_shape_sel:
  assumes "same_shape info info'"
  shows "pid info' = pid info \<and> unique_id info' = unique_id info \<and> stack_size info' = stack_size info \<and>
    stack_data info' = stack_data info \<and> regs_size info' = regs_size info \<and> ustack_fp info' = ustack_fp info \<and>
    ustack_fp_level info' = ustack_fp_level info \<and> map_option length (pt_regs info') = map_option length (pt_regs info)"
  using assms by (cases info; cases info') (simp add: same_shape_def)


lemma fp_sample_runs: "\<exists>ret frs info' ctx'. gu_unwind fp_env fp_info fp_ctx = Ok (ret, frs, info', ctx') \<and> frs \<noteq> []"
  using fp_unwind_frames [OF known_mapped [OF fp_known] fp_arr_ok _ _ fp_chain] fp_frame_found [of "0x400100"]
  by (auto simp: unwind_known [OF fp_known] fp_info_sel)


text \<open>
  C8. A call reports at most 512 frames from the rules and 128 from the frame pointers, returns -1 only
  without a frame, and stores a reason that reads back and is never \<open>TRUNCATED\<close>: a walk that is cut off
  at the limit reports the reason of its last register instead.
\<close>

theorem unwind_outcome:
  assumes "gu_unwind env info ctx = Ok (ret, frs, info', ctx')"
  shows "-1 \<le> ret \<and> ret \<le> 513 \<and> length frs \<le> 640 \<and> (ret = -1 \<longrightarrow> frs = []) \<and>
    (\<exists>r. gu_flags_reason (flags info') = reason_code r \<and> r \<noteq> GU_UNWIND_REASON_UNKNOWN \<and> r \<noteq> GU_UNWIND_REASON_TRUNCATED)"
proof -
  have o: "outcome info (ret, frs, info')" using gu_unwind_cases [OF assms] by simp
  then obtain i r where r: "info' = gu_flags_set_reason i r" "r \<noteq> GU_UNWIND_REASON_UNKNOWN" "r \<noteq> GU_UNWIND_REASON_TRUNCATED"
    by (auto simp: outcome_def)
  have "gu_flags_reason (flags info') = reason_code r" using reason_roundtrip [of i r r] r(1) by simp
  then show ?thesis using o r(2,3) by (auto simp: outcome_def)
qed

theorem unwind_outcome_witness:
  "\<exists>ret frs info' ctx'. gu_unwind fp_env fp_info fp_ctx = Ok (ret, frs, info', ctx') \<and> ret \<noteq> -1 \<and> length frs \<le> 640"
proof -
  obtain ret frs info' ctx' where r: "gu_unwind fp_env fp_info fp_ctx = Ok (ret, frs, info', ctx')" "frs \<noteq> []" using fp_sample_runs by blast
  then show ?thesis using unwind_outcome [OF r(1)] by blast
qed

subsection \<open>The frames of the CFI loop\<close>


lemma fp_ctx_sel: "find_pid fp_ctx 7 = Some (hd (pid_ctx_list fp_ctx))" "elf_map_list (hd (pid_ctx_list fp_ctx)) = Some fp_arr"
  "map_ctxs fp_ctx 0x7000 = Some \<lparr>map_elf = 0x6000, map_exec_virt_addr = 0x1000\<rparr>" "get_elf fp_ctx 0x6000 = Some fp_elf"
  "go_only_buildid fp_ctx = False"
  by (simp_all add: fp_ctx_def find_pid_def get_elf_def sample_ctx_def zero_context_def)

lemma cfi_sample_step:
  "\<exists>st fr. unwind_step fp_env n (unwind_start fp_env fp_info fp_ctx 0x400100 0x8000) = Ok (False, st) \<and> us_frames st = [fr] \<and>
     \<not> ss_reloaded (us_search st)"
proof -
  have "ia_ok fp_arr" using fp_arr_ok(1) by (auto simp: interval_build_def intro: init_ok)
  then obtain ret where ret: "0 \<le> ret" "gu_interval_array_search (Some fp_arr) 0x400100 (Some blank_item) = (ret, Some fp_item)"
    using search_via_find [of fp_arr "0x400100" blank_item] fp_find by auto
  let ?s = "\<lparr>ss_item = blank_item, ss_reloaded = False, ss_pid = True, ss_info = fp_info, ss_ctx = fp_ctx\<rparr>"
  have s: "gu_search_pid_elf_ctx pe 0x400100 ?s = Ok (ret, ?s\<lparr>ss_item := fp_item\<rparr>)" for pe
    using ret fp_ctx_sel by (simp add: gu_search_pid_elf_ctx_def search_maps_def Let_def fp_info_def)
  have g: "gu_get_elf_ctx_from_item fp_ctx fp_item = Ok (Some 0x6000, 0x1000)"
    using fp_ctx_sel untagged_find [OF fp_arr_ok fp_find, of "0x400100"] by (simp add: gu_get_elf_ctx_from_item_def fp_item_def)
  have e: "elf_cfi fp_elf = None" "symbols fp_elf = None" by (simp_all add: fp_elf_def)
  let ?st = "unwind_start fp_env fp_info fp_ctx 0x400100 0x8000"
  let ?st1 = "?st\<lparr>us_search := ?s\<lparr>ss_item := fp_item\<rparr>, us_elf := Some 0x6000, us_vaddr := 0x1000\<rparr>"
  have sel: "us_search ?st = ?s" "us_pc ?st = 0x400100" "us_frames ?st = []" by (simp_all add: unwind_start_def)
  have "\<not> in_item blank_item 0x400100" by (simp add: in_item_def blank_item_def)
  then have f: "find_image pe ?st = Ok (True, ?st1)" for pe
    using s [of pe] g ret(1) by (simp add: find_image_def sel)
  have v: "\<not> ue_verbose fp_env" by (simp add: fp_env_def)
  have l: "gu_lookup_elf_symbol fp_elf q = Ok (None, 0)" for q by (simp add: gu_lookup_elf_symbol_def e)
  show ?thesis
    by (simp add: unwind_step_def v f image_of_def fp_ctx_sel l is_stack_bottom_symbol_def caller_regs_def e stop_def sel Let_def)
qed

lemma cfi_sample_loop:
  "\<exists>level st fr. unwind_loop fp_env 512 (unwind_start fp_env fp_info fp_ctx 0x400100 0x8000) = Ok (level, st) \<and> us_frames st = [fr] \<and>
     \<not> ss_reloaded (us_search st)"
proof -
  have n: "(512 :: nat) = Suc 511" by simp
  show ?thesis unfolding n unwind_loop.simps(2) using cfi_sample_step [of 511] by auto
qed


text \<open>
  C29. Without verbose logging every frame of the CFI loop is treated as the innermost one: the symbol
  reported is the one at the program counter itself, although all frames but the first hold return
  addresses, which are to be looked up one byte earlier. The counter that tells the first frame from
  the others only advances inside the log macro.
\<close>

theorem quiet_frames_unadjusted:
  assumes "unwind_loop env 512 (unwind_start env info ctx pc sp) = Ok (level, st)"
    and "\<not> ue_verbose env" "\<not> go_only_buildid ctx" "\<not> ss_reloaded (us_search st)"
  shows "\<forall>fr\<in>set (us_frames st). \<exists>p e. frame_elf fr = Some p \<and> get_elf ctx p = Some e \<and>
    gu_lookup_elf_symbol e (frame_pc fr) = Ok (frame_symbol fr, frame_offset fr)"
  using unwind_loop_cases [OF assms(1)] assms(2-) by (auto simp: walked_def unwind_start_def list_all_iff at_symbol_def)

theorem quiet_frames_unadjusted_witness:
  "\<exists>level st fr p e. unwind_loop fp_env 512 (unwind_start fp_env fp_info fp_ctx 0x400100 0x8000) = Ok (level, st) \<and>
     us_frames st = [fr] \<and> get_elf fp_ctx p = Some e \<and> gu_lookup_elf_symbol e (frame_pc fr) = Ok (frame_symbol fr, frame_offset fr)"
proof -
  obtain level st fr where r: "unwind_loop fp_env 512 (unwind_start fp_env fp_info fp_ctx 0x400100 0x8000) = Ok (level, st)"
      "us_frames st = [fr]" "\<not> ss_reloaded (us_search st)" using cfi_sample_loop by blast
  have "\<not> ue_verbose fp_env" "\<not> go_only_buildid fp_ctx" by (simp_all add: fp_env_def fp_ctx_sel(5))
  from quiet_frames_unadjusted [OF r(1) this r(3)] show ?thesis using r(1,2) by auto
qed

subsection \<open>A failed reload on the frame-pointer path\<close>

text \<open>The maps of a known process are due for a reload and cannot be read any more.\<close>

definition reload_fails :: "pid_env \<Rightarrow> int \<Rightarrow> gu_context \<Rightarrow> bool" where
  "reload_fails pe p ctx \<longleftrightarrow> pe_alive pe \<and> pe_file pe = None \<and>
     (\<exists>c. find_pid ctx p = Some c \<and> next_maps_reload_ns c \<noteq> 0 \<and> next_maps_reload_ns c \<le> gu_cache_now_ns (pe_clk pe) ctx)"

lemma failed_reload:
  assumes "world_ok ctx" "clock_ok (pe_clk pe) ctx" "find_pid ctx (pid info) \<noteq> None" "pe_file pe = None"
  shows "\<exists>ctx'. gu_reload_pid_ctx pe info ctx = Ok (False, info, ctx')"
proof -
  obtain c where c: "find_pid ctx (pid info) = Some c" using assms(3) by blast
  obtain ctx1 where d: "gu_clear_pid_ctx (pe_clk pe) (pid info) (notify c GU_PID_CTX_EVENT_DESTROY ctx) = Ok ctx1"
      "pid_ctx_list ctx1 = filter (\<lambda>d. ctx_pid d \<noteq> pid info) (pid_ctx_list ctx)"
    using clear_notified_ok [OF assms(1,2) c] by blast
  have "find_pid ctx1 (pid info) = None" by (auto simp: find_pid_None d(2))
  then have "gu_load_pid pe (pid info) (unique_id info) ctx1 = Ok (None, ctx1)"
    using assms(4) by (simp add: gu_load_pid_def gu_get_maps_info_def)
  then show ?thesis using c d(1) by (simp add: gu_reload_pid_ctx_def Let_def)
qed

lemma search_failed_reload:
  assumes w: "world_ok ctx" "clock_ok (pe_clk pe) ctx" and m: "mapped_by ctx (pid info) arr"
    and miss: "interval_find arr pc = None" and f: "reload_fails pe (pid info) ctx"
  shows "\<exists>ctx'. gu_search_pid_elf_ctx pe pc \<lparr>ss_item = blank_item, ss_reloaded = False, ss_pid = True, ss_info = info, ss_ctx = ctx\<rparr> =
    Ok (-1, \<lparr>ss_item = blank_item, ss_reloaded = True, ss_pid = False, ss_info = info, ss_ctx = ctx'\<rparr>)"
proof -
  obtain c where c: "find_pid ctx (pid info) = Some c" "elf_map_list c = Some arr" using m by (auto simp: mapped_by_def)
  then have d: "next_maps_reload_ns c \<noteq> 0" "next_maps_reload_ns c \<le> gu_cache_now_ns (pe_clk pe) ctx" "pe_alive pe" "pe_file pe = None"
    using f by (auto simp: reload_fails_def)
  have "ia_ok arr" using w(1) c find_pid_Some [OF c(1)] by (force simp: world_ok_def arrays_ok_def)
  then have s: "search_maps (pid info) pc ctx blank_item = Ok (-1, blank_item)"
    using search_via_find [of arr pc blank_item] miss c by (simp add: search_maps_def clear_interval_array_item_def blank_item_def)
  obtain ctx1 where a: "gu_maps_reload_allowed (pe_clk pe) (pid info) ctx = Ok (True, ctx1)"
    using reload_allowed_cases [OF c(1) d(1), of "pe_clk pe"] d(2) by auto
  let ?c = "count_stat (\<lambda>t. t\<lparr>pid_maps_reload_count := pid_maps_reload_count t + 1\<rparr>) ctx1"
  have b: "world_ok ctx1" "find_pid ctx1 (pid info) \<noteq> None" "timer ctx1 = timer ctx" using reload_allowed_ok [OF w(1) a] by simp_all
  have "world_ok ?c = world_ok ctx1" by (rule world_ok_frame) (simp_all add: count_stat_def)
  moreover have "clock_ok (pe_clk pe) ?c" "find_pid ?c (pid info) \<noteq> None"
    using w(2) b by (simp_all add: clock_ok_def count_stat_def find_pid_def)
  ultimately obtain ctx2 where "gu_reload_pid_ctx pe info ?c = Ok (False, info, ctx2)" using failed_reload [of ?c pe info] b(1) d(4) by auto
  then show ?thesis using s a d(3) by (simp add: gu_search_pid_elf_ctx_def Let_def)
qed

text \<open>
  C28. A frame-pointer sample that allows unknown frames makes \<open>gu_unwind\<close> dereference a null process
  context: its first address misses the mappings, the reload this triggers fails because the process is
  going away, and the walk goes on with the second address.
\<close>

theorem fp_unknown_after_failed_reload:
  assumes "known_process env info ctx arr" "world_ok ctx" "clock_ok (pe_clk (ue_reload env)) ctx"
    and "gu_flags_is_set info GU_FLAG_HINT_SET_FP" "gu_flags_is_set info GU_FLAG_FP_ALLOW_UNKNOWN"
    and "2 \<le> fp_levels info" "ustack_fp info = pc1 # pc2 # rest" "pc1 \<noteq> 0" "pc2 \<noteq> 0"
    and "interval_find arr pc1 = None" "reload_fails (ue_reload env) (pid info) ctx"
  shows "gu_unwind env info ctx = Undef NullDeref"
proof -
  let ?s = "\<lparr>ss_item = blank_item, ss_reloaded = False, ss_pid = True, ss_info = info, ss_ctx = ctx\<rparr>"
  obtain ctx' where s: "gu_search_pid_elf_ctx (ue_reload env) pc1 ?s =
      Ok (-1, \<lparr>ss_item = blank_item, ss_reloaded = True, ss_pid = False, ss_info = info, ss_ctx = ctx'\<rparr>)"
    using search_failed_reload [OF assms(2,3) known_mapped [OF assms(1)] assms(10,11)] by blast
  have b: "\<not> in_item blank_item pc" for pc by (simp add: in_item_def blank_item_def)
  have n: "(127 :: nat) = Suc (Suc 125)" by simp
  have "fp_loop (ue_reload env) True (fp_levels info) 127 1 pc1 \<lparr>fs_search = ?s, fs_elf = None, fs_vaddr = 0\<rparr> = Undef NullDeref"
    unfolding n fp_loop.simps(2)
    using s b assms(6-9) by (simp add: fp_image_def fp_frame_def fp_entry_def gu_search_pid_elf_ctx_def)
  then have "gu_unwind_by_fp (ue_reload env) info ctx = Undef NullDeref"
    using assms(5-7) by (simp add: gu_unwind_by_fp_def Let_def fp_entry_def)
  then show ?thesis using unwind_known [OF assms(1)] assms(4) by simp
qed

definition gone_pid :: per_pid_ctx where
  "gone_pid = \<lparr>pid_addr = 0x5000, elf_map_list = Some (the (interval_build [fp_item\<lparr>ia_private := 0\<rparr>])), ctx_pid = 7, ctx_comm = ''a'',
     ctx_golang = False, preload = False, ctx_unique_id = 42, last_maps_load_ns = 0, next_maps_reload_ns = 1,
     maps_reload_rand_state = 1, pid_private = None\<rparr>"

definition gone_ctx :: gu_context where
  "gone_ctx = add_pid gone_pid sample_ctx"

definition gone_env :: unwind_env where
  "gone_env = fp_env\<lparr>ue_reload := sample_pid_env\<lparr>pe_file := None\<rparr>\<rparr>"

definition gone_info :: gu_stack_info where
  "gone_info = fp_info\<lparr>flags := 3, ustack_fp := [0x100, 0x200]\<rparr>"

lemma gone_arr: "\<exists>arr. elf_map_list gone_pid = Some arr \<and> ia_ok arr \<and> interval_find arr 0x100 = None \<and> live_ptrs (arr_payloads (Some arr)) = []"
proof -
  let ?it = "fp_item\<lparr>ia_private := 0\<rparr>"
  have b: "built [?it] = [?it]" by (simp add: built_def qsort_items_def fp_item_def)
  have p: "proper [?it]" by (simp add: proper_def b disjoint_sorted_def) (simp add: fp_item_def)
  obtain arr where arr: "interval_build [?it] = Some arr" using interval_build_Some [of "[?it]"] by blast
  have "interval_find arr 0x100 \<noteq> Some it" for it
    by (subst interval_find_iff [OF arr p]) (simp add: b, simp add: fp_item_def)
  then have "interval_find arr 0x100 = None" by (cases "interval_find arr 0x100") auto
  moreover have "ia_ok arr" using arr by (auto simp: interval_build_def intro: init_ok)
  moreover have "live_ptrs (arr_payloads (Some arr)) = []"
  proof -
    have "mset (arr_payloads (Some arr)) = mset (map ia_private [?it])"
      using init_payloads(2) [of True True "[?it]" "Some arr"] arr by (auto simp: interval_build_def fst_def split: prod.splits)
    then show ?thesis by (simp add: live_ptrs_def untagged_def)
  qed
  ultimately show ?thesis using arr by (auto simp: gone_pid_def)
qed

lemma gone_ok: "world_ok gone_ctx" "clock_ok (pe_clk (ue_reload gone_env)) gone_ctx" "reload_fails (ue_reload gone_env) 7 gone_ctx"
proof -
  obtain arr where a: "elf_map_list gone_pid = Some arr" "ia_ok arr" "live_ptrs (arr_payloads (Some arr)) = []" using gone_arr by blast
  have w: "world_ok sample_ctx" "find_pid sample_ctx (ctx_pid gone_pid) = None"
    by (simp_all add: sample_ctx_def zero_context_ok) (simp add: find_pid_def zero_context_def)
  show "world_ok gone_ctx"
    unfolding gone_ctx_def by (rule add_pid_ok [OF _ _ w(2) _ _ a(1,2)]) (use w(1) a in \<open>simp_all add: world_ok_def\<close>)
  show "clock_ok (pe_clk (ue_reload gone_env)) gone_ctx"
    by (simp add: clock_ok_def gone_env_def sample_pid_env_def gone_ctx_def add_pid_def sample_ctx_def zero_context_def count_stat_def)
  show "reload_fails (ue_reload gone_env) 7 gone_ctx"
    by (auto simp: reload_fails_def gone_env_def sample_pid_env_def gone_ctx_def add_pid_def sample_ctx_def zero_context_def count_stat_def
        gone_pid_def find_pid_def gu_cache_now_ns_def)
qed

theorem fp_unknown_after_failed_reload_witness: "gu_unwind gone_env gone_info gone_ctx = Undef NullDeref"
proof -
  obtain arr where a: "elf_map_list gone_pid = Some arr" "interval_find arr 0x100 = None" using gone_arr by blast
  have i: "pid gone_info = 7" "gu_flags_is_set gone_info GU_FLAG_HINT_SET_FP" "gu_flags_is_set gone_info GU_FLAG_FP_ALLOW_UNKNOWN"
      "2 \<le> fp_levels gone_info" "ustack_fp gone_info = 0x100 # 0x200 # []"
    by (simp_all add: gone_info_def fp_info_def gu_flags_is_set_def fp_levels_def)
  have k: "known_process gone_env gone_info gone_ctx arr"
    using a(1)
    by (auto simp: known_process_def gone_info_def fp_info_def gone_ctx_def add_pid_def sample_ctx_def zero_context_def zero_statistics_def
        count_stat_def find_pid_def gone_pid_def)
  show ?thesis
    by (rule fp_unknown_after_failed_reload [OF k gone_ok(1,2) i(2-5) _ _ a(2)]) (simp_all add: i(1) gone_ok(3))
qed

end
