(* ===== verification/Session.thy ===== *)
theory Session
  imports Unwind_Props
begin

text \<open>
  The library as its client sees it: a context is created by \<open>gu_init\<close> and then goes through any sequence
  of calls and ticks of the timer thread. Every such context satisfies \<open>world_ok\<close>, so the per-operation
  lemmas apply to whole sessions.
\<close>

subsection \<open>Machines and their invariants\<close>

inductive reached :: "('s \<Rightarrow> bool) \<Rightarrow> ('s \<Rightarrow> 's \<Rightarrow> bool) \<Rightarrow> 's \<Rightarrow> bool" for start :: "'s \<Rightarrow> bool" and step :: "'s \<Rightarrow> 's \<Rightarrow> bool" where
  reached_start: "start s \<Longrightarrow> reached start step s"
| reached_step: "reached start step s \<Longrightarrow> step s s' \<Longrightarrow> reached start step s'"

locale machine_invariant =
  fixes start :: "'s \<Rightarrow> bool" and step :: "'s \<Rightarrow> 's \<Rightarrow> bool" and inv :: "'s \<Rightarrow> bool"
  assumes start_inv: "start s \<Longrightarrow> inv s"
    and step_inv: "inv s \<Longrightarrow> step s s' \<Longrightarrow> inv s'"
begin

lemma reached_inv: "reached start step s \<Longrightarrow> inv s"
  by (induction rule: reached.induct) (auto intro: start_inv step_inv)

end

subsection \<open>Sessions\<close>

text \<open>The clock stays below \<open>2\<^sup>6\<^sup>3\<close> nanoseconds, and the allocator returns blocks that are not in use.\<close>

abbreviation (input) clock_limit :: u64 where "clock_limit \<equiv> 0x7fffffffffffffff"

definition session_start :: "gu_context \<Rightarrow> bool" where
  "session_start ctx \<longleftrightarrow> (\<exists>env avail g cap cfg cap'. in_clk env \<le> clock_limit \<and> gu_init env avail g cap cfg = Ok (Some ctx, cap'))"

inductive session_step :: "gu_context \<Rightarrow> gu_context \<Rightarrow> bool" where
  timer_tick: "clk \<le> clock_limit \<Longrightarrow> session_step ctx (ctx\<lparr>timer := gu_retire_timer_tick clk (timer ctx)\<rparr>)"
| event_occurs: "clk \<le> clock_limit \<Longrightarrow> gu_event_occur clk kenv cap ty data ctx = Ok (cap', ctx') \<Longrightarrow> session_step ctx ctx'"
| preloads: "env_fresh 0 pe ctx \<Longrightarrow> pe_clk pe \<le> clock_limit \<Longrightarrow> gu_preload_pid_debug_info pe stat p ctx = Ok (u, ctx') \<Longrightarrow>
    session_step ctx ctx'"
| sets_private: "session_step ctx (gu_set_pid_private_info ok p data ctx)"
| exits: "clk \<le> clock_limit \<Longrightarrow> gu_set_pid_exit_unique clk p uid ctx = Ok ctx' \<Longrightarrow> session_step ctx ctx'"
| unwinds: "unwind_ready env ctx \<Longrightarrow> gu_unwind env info ctx = Ok (ret, frs, info', ctx') \<Longrightarrow> session_step ctx ctx'"

inductive_cases session_stepE: "session_step ctx ctx'"

definition session_ok :: "gu_context \<Rightarrow> bool" where
  "session_ok ctx \<longleftrightarrow> world_ok ctx \<and> timer_now_ns (timer ctx) \<le> clock_limit"

lemma session_clock: "session_ok ctx \<Longrightarrow> clk \<le> clock_limit \<Longrightarrow> clock_ok clk ctx"
  by (simp add: session_ok_def clock_ok_def)

lemma tick_ok:
  assumes "session_ok ctx" "clk \<le> clock_limit"
  shows "session_ok (ctx\<lparr>timer := gu_retire_timer_tick clk (timer ctx)\<rparr>)"
proof -
  have "world_ok (ctx\<lparr>timer := gu_retire_timer_tick clk (timer ctx)\<rparr>) = world_ok ctx" by (rule world_ok_frame) simp_all
  then show ?thesis using assms by (simp add: session_ok_def gu_retire_timer_tick_def)
qed

lemma session_step_ok:
  assumes "session_ok ctx" "session_step ctx ctx'"
  shows "session_ok ctx'"
  using assms(2)
proof (cases rule: session_step.cases)
  case (timer_tick clk)
  then show ?thesis using tick_ok [OF assms(1)] by simp
next
  case (event_occurs clk kenv cap ty data cap')
  then show ?thesis using gu_event_occur_ok [OF _ session_clock [OF assms(1)]] assms(1) by (auto simp: session_ok_def)
next
  case (preloads pe stat p u)
  then show ?thesis using gu_preload_ok [OF _ _ session_clock [OF assms(1)]] assms(1) by (auto simp: session_ok_def)
next
  case (sets_private ok p data)
  then show ?thesis using set_private_ok assms(1) by (auto simp: session_ok_def gu_set_pid_private_info_def put_pid_def split: option.splits)
next
  case (exits clk p uid)
  then show ?thesis using gu_set_pid_exit_unique_ok [OF _ session_clock [OF assms(1)], of clk p uid] assms(1) by (auto simp: session_ok_def)
next
  case (unwinds env info ret frs info')
  then show ?thesis using gu_unwind_cases [OF unwinds(2)] assms(1) by (simp add: session_ok_def)
qed

lemma session_start_ok: "session_start ctx \<Longrightarrow> session_ok ctx"
  using gu_init_ok by (fastforce simp: session_start_def session_ok_def)

interpretation gu: machine_invariant session_start session_step session_ok
  by unfold_locales (auto intro: session_start_ok session_step_ok)

abbreviation session :: "gu_context \<Rightarrow> bool" where
  "session \<equiv> reached session_start session_step"

subsection \<open>A sample session\<close>

definition sample_init :: init_env where
  "sample_init = \<lparr>in_elf_version = True, in_malloc = True, in_eventfd = True, in_thread = True, in_clk = 1000000000,
     in_ksyms = \<lparr>ke_file = None, ke_items_ok = True, ke_realloc_ok = (\<lambda>_. True), ke_dup = (\<lambda>_. 0), ke_entry_ok = (\<lambda>_. True),
       ke_array_ok = True, ke_array_items_ok = True\<rparr>\<rparr>"

definition sample_cfg :: gu_init_cfg where
  "sample_cfg = \<lparr>cfg_debug_print = False, cfg_go_not_strip_name = False, cfg_go_buildid_only = False\<rparr>"

lemma sample_session: "\<exists>ctx. session ctx \<and> map ctx_pid (pid_ctx_list ctx) = [7]"
proof -
  obtain ctx cap where i: "gu_init sample_init Unknown sample_globals 0 sample_cfg = Ok (Some ctx, cap)"
    and e: "elf_ctx_list ctx = []" "map_ctxs ctx = Map.empty" "\<not> debug ctx" "openat2_avail ctx = Unknown" "pid_ctx_list ctx = []"
      "retired_elf_ctx_count (statistics ctx) = 0"
    by (simp add: gu_init_def sample_init_def sample_cfg_def gu_load_kernel_symbols_def zero_context_def zero_statistics_def)
  have "session_start ctx" using i unfolding session_start_def by (intro exI conjI) (auto simp: sample_init_def)
  then have s: "session ctx" by (rule reached_start)
  have n: "find_pid ctx 7 = None" using e(5) by (simp add: find_pid_def)
  obtain c ctx1 where l: "gu_load_pid sample_pid_env 7 (gu_get_pid_unique_id None 7 ctx) ctx = Ok (Some c, ctx1)"
    using sample_load_pid [OF e(3,1,2) n e(4)] by blast
  have f: "env_fresh 0 sample_pid_env ctx" "pe_clk sample_pid_env \<le> clock_limit"
    using sample_pid_fresh(1) e by (simp_all add: env_fresh_def sample_ctx_sel) (simp add: sample_pid_env_def)
  have p: "gu_preload_pid_debug_info sample_pid_env None 7 ctx = Ok (ctx_unique_id c, add_pid (c\<lparr>preload := True\<rparr>) ctx1)"
    using l n e(6) by (simp add: gu_preload_pid_debug_info_def Let_def gu_maybe_sweep_retired_elf_def) (simp add: sample_pid_env_def)
  have "session_ok ctx" using s by (rule gu.reached_inv)
  then have "ctx_pid c = 7" "pid_ctx_list ctx1 = []"
    using gu_load_pid_ok [OF _ f(1) session_clock [OF _ f(2)] n l] e(5) by (simp_all add: session_ok_def world_ok_def pid_frame_def)
  then have "map ctx_pid (pid_ctx_list (add_pid (c\<lparr>preload := True\<rparr>) ctx1)) = [7]" by (simp add: add_pid_def count_stat_def)
  then show ?thesis using reached_step [OF s preloads [OF f p]] by (intro exI conjI)
qed

end
