(* ===== verification/Spec2Isabelle.thy ===== *)
theory Spec2Isabelle
  imports Session
begin

text \<open>
  A verification of libgunwinder, the stack unwinder under \<open>src/\<close>: from a snapshot of registers and
  stack bytes of a process it reports the call chain, using the call-frame information (CFI) and the
  symbols of the mapped ELF images.

  \<^bold>\<open>Parts and theories.\<close> Each theory opens with the files and functions it models.
  \<^item> \<open>Gu_Prelude\<close>: machine types, the outcome type \<open>cres\<close> (\<open>Ok\<close>, \<open>Fail\<close>, \<open>Undef\<close> with the kind of
    undefined behaviour), little-endian memory and the locale \<open>memo\<close> of memo tables.
  \<^item> \<open>Interval_Array\<close> (\<open>gu_interval_array.c\<close>): the sorted index every lookup goes through, with the
    locale \<open>interval_index\<close> interpreted on it.
  \<^item> \<open>Cfi_Decode\<close>, \<open>Cfi_State\<close>, \<open>Cfi_Tables\<close>, \<open>Cfi_Ops\<close> (\<open>gu_cfi_helper.c\<close>): LEB128 and encoded
    values; the DW_CFA interpreter; CIEs, FDEs and the two index builders; from a program counter to
    operation lists, with the parse cache as an instance of \<open>memo\<close>.
  \<^item> \<open>Stack_Info\<close> (\<open>unwinder_types.h\<close>) and \<open>Dwarf_Eval\<close> (\<open>gu_unwinder.c\<close>): the sample and its flag word;
    the expression evaluator, its fast path and register recovery.
  \<^item> \<open>Pid_Events\<close> (\<open>gu_pid_ctx_event.c\<close>), \<open>Gu_Comm\<close> (\<open>gu_comm.c\<close>), \<open>Profile_Debug\<close>
    (\<open>profile_debug.c\<close>), \<open>Elf_Ranges\<close> (\<open>gu_elf.c\<close>): listeners, memory maps and paths, sample dumps,
    executable segments.
  \<^item> \<open>Elf_Debug\<close>, \<open>Elf_Symbols\<close>, \<open>Open_In_Root\<close>, \<open>Elf_Cache\<close>, \<open>Elf_Load\<close> (\<open>gu_stacktrace.c\<close>): debug
    files, symbols, opening files inside the process root, the reference-counted cache of images and
    \<open>load_elf\<close>.

  \<^bold>\<open>Modelling conventions.\<close> State is passed explicitly in records named after the C structs. A pointer is
  its 64-bit value where the code keeps a tag in it, and otherwise the object or \<open>None\<close>. What libelf,
  libdw, the kernel and the allocator answer is an argument, so every failure path is a branch.

  \<^bold>\<open>Fuel and bounds.\<close> The section scan of \<open>Cfi_Tables\<close> takes fuel because it follows an iterator of
  libdw; \<open>scan_terminates\<close> gives fuel that is enough when the iterator advances. The evaluator of
  \<open>Dwarf_Eval\<close> takes a depth for the recursion through the CFA; two levels are enough without
  self-reference. All other loops are total functions with their measures.

  \<^bold>\<open>Not modelled.\<close> The programs under \<open>tools/\<close>, which drive the library through ptrace and threads and
  print reports, and the third-party containers \<open>uthash.h\<close> and \<open>utlist.h\<close>, whose uses are maps and lists here.
\<close>


subsection \<open>Whole sessions\<close>

text \<open>
  C1. After \<open>gu_init\<close> and any sequence of calls and timer ticks the shared state is consistent. The
  reference count of every cached image is the number of live mappings of it, and an image is retired
  exactly when there are none; every live mapping refers to a cached image and belongs to exactly one
  interval of one process; every process has been announced once more than it has been destroyed
  exactly while it is known; the statistics count the processes.
\<close>

theorem session_consistent:
  assumes "session ctx"
  shows "(\<forall>(p, e)\<in>set (elf_ctx_list ctx).
       refcnt e = of_nat (card {q. \<exists>m. map_ctxs ctx q = Some m \<and> map_elf m = p}) \<and>
       (retired e \<longleftrightarrow> (\<nexists>q m. map_ctxs ctx q = Some m \<and> map_elf m = p))) \<and>
    (\<forall>q m. map_ctxs ctx q = Some m \<longrightarrow> map_elf m \<in> fst ` set (elf_ctx_list ctx)) \<and>
    distinct (owners ctx) \<and> set (owners ctx) = dom (map_ctxs ctx) \<and>
    (\<forall>p. ev_count GU_PID_CTX_EVENT_CREATE p (pid_events ctx) =
       ev_count GU_PID_CTX_EVENT_DESTROY p (pid_events ctx) + of_bool (p \<in> ctx_pid ` set (pid_ctx_list ctx))) \<and>
    pid_ctx_count (statistics ctx) = of_nat (length (pid_ctx_list ctx))"
proof -
  have w: "world_ok ctx" using gu.reached_inv [OF assms] by (simp add: session_ok_def)
  have e: "entry_ok (refs_of (map_ctxs ctx)) x" if "x \<in> set (elf_ctx_list ctx)" for x
    using w that by (auto simp: world_ok_def ctx_ok_def elf_cache_ok_def elf_table_ok_def list_all_iff)
  have z: "refs_of (map_ctxs ctx) p = 0 \<longleftrightarrow> (\<nexists>q m. map_ctxs ctx q = Some m \<and> map_elf m = p)" for p
    by (auto simp: refs_of_def)
  have "map_elf m \<in> fst ` set (elf_ctx_list ctx)" if "map_ctxs ctx q = Some m" for q m
    using w that z [of "map_elf m"] by (auto simp: world_ok_def ctx_ok_def elf_cache_ok_def elf_table_ok_def)
  moreover have "refcnt (snd x) = of_nat (card {q. \<exists>m. map_ctxs ctx q = Some m \<and> map_elf m = fst x}) \<and>
      (retired (snd x) \<longleftrightarrow> (\<nexists>q m. map_ctxs ctx q = Some m \<and> map_elf m = fst x))" if "x \<in> set (elf_ctx_list ctx)" for x
    using e [OF that] z [of "fst x"] by (simp add: entry_ok_def refs_of_def)
  ultimately show ?thesis
    using w by (force simp: world_ok_def ctx_ok_def heap_ok_def events_ok_def case_prod_beta)
qed

theorem session_consistent_witness:
  "\<exists>ctx. session ctx \<and> map ctx_pid (pid_ctx_list ctx) = [7] \<and> pid_ctx_count (statistics ctx) = 1"
proof -
  obtain ctx where c: "session ctx" "map ctx_pid (pid_ctx_list ctx) = [7]" by (rule exE [OF sample_session]) (elim conjE)
  then have "length (pid_ctx_list ctx) = 1" by (metis length_map list.size(3,4) One_nat_def add_0)
  then show ?thesis using c session_consistent [OF c(1)] by auto
qed



end
